(* ===== verification/Prelude.thy ===== *)
theory Prelude
  imports Main "HOL-Library.Word"
begin

text \<open>
  Shared vocabulary of the development: Go byte strings, error values, the
  \<^verbatim>\<open>io\<close> interfaces, \<^verbatim>\<open>encoding/binary\<close> integers
  and the fixed-width codec interface (locale \<open>codec\<close>) that every on-disk structure
  (newc header, GPT header and entry, FMap header and area) is shown to satisfy.

  A Go \<^verbatim>\<open>string\<close> and a Go \<^verbatim>\<open>[]byte\<close> are both lists of
  \<open>char\<close>: an Isabelle \<open>char\<close> is one byte, and literals stay readable.
\<close>

unbundle bit_operations_syntax

type_synonym bytes = string
type_synonym u8 = "8 word"
type_synonym u16 = "16 word"
type_synonym u32 = "32 word"
type_synonym u64 = "64 word"

named_theorems codec_simps \<open>lengths and decoding rules of fixed-width fields\<close>

section \<open>Errors and outcomes\<close>

text \<open>
  Go error values. \<open>Errorf\<close> carries the format string of the source, not the
  formatted arguments; \<open>Errno\<close> is an error the operating system returned.
\<close>

datatype goerr =
    EOF
  | ErrUnexpectedEOF
  | ErrShortWrite
  | Errno string
  | Errorf string

text \<open>What a call does: it returns a value, returns an error, or panics.\<close>

datatype 'a outcome = Ret 'a | Fail goerr | Panic string

fun bind_outcome :: "'a outcome \<Rightarrow> ('a \<Rightarrow> 'b outcome) \<Rightarrow> 'b outcome" where
  "bind_outcome (Ret x) f = f x"
| "bind_outcome (Fail e) f = Fail e"
| "bind_outcome (Panic s) f = Panic s"

lemma bind_outcome_Ret_iff [simp]:
  "bind_outcome m f = Ret y \<longleftrightarrow> (\<exists>x. m = Ret x \<and> f x = Ret y)"
  by (cases m) auto

section \<open>Signed integers\<close>

text \<open>Go's \<^verbatim>\<open>int\<close> and \<^verbatim>\<open>int64\<close> as integers, with the wrap-around of their arithmetic.\<close>

definition wrap64 :: "int \<Rightarrow> int" where
  "wrap64 i = (i + 2 ^ 63) mod 2 ^ 64 - 2 ^ 63"

lemma wrap64_small: "- (2 ^ 63) \<le> i \<Longrightarrow> i < 2 ^ 63 \<Longrightarrow> wrap64 i = i"
  by (simp add: wrap64_def)

section \<open>Reading and writing\<close>

text \<open>
  \<^verbatim>\<open>io.ReaderAt\<close>: \<^verbatim>\<open>ReadAt(p, off)\<close> with a buffer of
  \<open>n\<close> bytes gives the bytes read and the error. \<open>file_at\<close> is the behaviour of
  \<^verbatim>\<open>(*os.File).ReadAt\<close> on a file that is not written meanwhile.
\<close>

type_synonym reader_at = "nat \<Rightarrow> int \<Rightarrow> bytes \<times> goerr option"

definition file_at :: "bytes \<Rightarrow> reader_at" where
  "file_at d n off =
     (if off < 0 then ([], Some (Errorf ''negative offset''))
      else let b = take n (drop (nat off) d)
           in (b, if length b < n then Some EOF else None))"

text \<open>
  \<^verbatim>\<open>io.Writer\<close> over a sink state: \<^verbatim>\<open>Write(p)\<close> gives the number of
  bytes accepted, the error and the new sink. \<open>buf_write\<close> is \<^verbatim>\<open>bytes.Buffer\<close>.
\<close>

type_synonym 's io_writer = "bytes \<Rightarrow> 's \<Rightarrow> (nat \<times> goerr option) \<times> 's"

definition buf_write :: "bytes io_writer" where
  "buf_write b s = ((length b, None), s @ b)"

text \<open>\<^verbatim>\<open>(*os.File).WriteAt\<close>: a gap before the offset is filled with zero bytes.\<close>

definition put_at :: "bytes \<Rightarrow> nat \<Rightarrow> bytes \<Rightarrow> bytes" where
  "put_at d off b =
     take off (d @ replicate (off - length d) CHR 0x00) @ b @ drop (off + length b) d"

lemma length_put_at: "length (put_at d off b) = max (length d) (off + length b)"
  by (auto simp: put_at_def max_def)

lemma put_at_nth:
  "x < length (put_at d off b) \<Longrightarrow>
     put_at d off b ! x = (if off \<le> x \<and> x < off + length b then b ! (x - off) else if x < length d then d ! x else CHR 0x00)"
  by (auto simp: put_at_def nth_append min_def)

lemma put_at_same: "take (length b) (drop off (put_at d off b)) = b"
  by (auto simp: put_at_def min_def)

lemma put_at_before:
  assumes "i + n \<le> off" and "i + n \<le> length d"
  shows "take n (drop i (put_at d off b)) = take n (drop i d)"
proof -
  have "take (n + i) (put_at d off b) = take (n + i) d"
    using assms by (simp add: put_at_def min_def add.commute)
  then show ?thesis by (simp add: take_drop)
qed

lemma put_at_after:
  assumes "off + length b \<le> i"
  shows "drop i (put_at d off b) = drop i d"
proof (cases "off \<le> length d")
  case True
  with assms show ?thesis by (simp add: put_at_def min_def)
next
  case False
  with assms show ?thesis by (simp add: put_at_def)
qed

type_synonym 'd writer_at = "bytes \<Rightarrow> int \<Rightarrow> 'd \<Rightarrow> goerr option \<times> 'd"

text \<open>\<^verbatim>\<open>(*os.File).WriteAt\<close> on a regular file or disk image.\<close>

definition file_write_at :: "bytes writer_at" where
  "file_write_at b off d =
     (if off < 0 then (Some (Errorf ''negative offset''), d)
      else if b = [] then (None, d) else (None, put_at d (nat off) b))"

lemma file_write_at_ok:
  "file_write_at b (int off) d = (None, if b = [] then d else put_at d off b)"
  by (simp add: file_write_at_def)

text \<open>\<open>holds d off b\<close>: the bytes \<open>b\<close> stand at offset \<open>off\<close> of \<open>d\<close>.\<close>

definition holds :: "bytes \<Rightarrow> nat \<Rightarrow> bytes \<Rightarrow> bool" where
  "holds d off b \<longleftrightarrow> take (length b) (drop off d) = b"

lemma holds_Nil [simp]: "holds d off []"
  by (simp add: holds_def)

lemma holds_bound: "holds d off b \<Longrightarrow> b \<noteq> [] \<Longrightarrow> off + length b \<le> length d"
  unfolding holds_def by (drule arg_cong [of _ _ length]) (cases b; simp; arith)

lemma holds_append: "holds d off (a @ b) \<longleftrightarrow> holds d off a \<and> holds d (off + length a) b"
proof
  assume "holds d off (a @ b)"
  then have h: "take (length a + length b) (drop off d) = a @ b" by (simp add: holds_def)
  from arg_cong [OF h, of "take (length a)"] arg_cong [OF h, of "drop (length a)"]
  show "holds d off a \<and> holds d (off + length a) b"
    by (simp add: holds_def drop_take add.commute min_def)
next
  assume "holds d off a \<and> holds d (off + length a) b"
  then show "holds d off (a @ b)" by (simp add: holds_def take_add add.commute)
qed

lemma holds_put_same: "holds (put_at d off b) off b"
  by (simp add: holds_def put_at_same)

lemma holds_put_other:
  assumes "holds d i b" and "i + length b \<le> off \<or> off + length c \<le> i"
  shows "holds (put_at d off c) i b"
proof (cases "b = []")
  case False
  with holds_bound [OF assms(1)] assms put_at_before [of i "length b" off d c]
    put_at_after [of off c i d] show ?thesis
    by (auto simp: holds_def)
qed simp

lemma file_at_holds: "holds d off b \<Longrightarrow> n = length b \<Longrightarrow> file_at d n (int off) = (b, None)"
  by (simp add: file_at_def holds_def Let_def)

section \<open>Integers in bytes\<close>

fun enc_le :: "nat \<Rightarrow> nat \<Rightarrow> bytes" where
  "enc_le 0 v = []"
| "enc_le (Suc n) v = char_of (v mod 256) # enc_le n (v div 256)"

fun dec_le :: "bytes \<Rightarrow> nat" where
  "dec_le [] = 0"
| "dec_le (b # bs) = of_char b + 256 * dec_le bs"

definition enc_be :: "nat \<Rightarrow> nat \<Rightarrow> bytes" where
  "enc_be n v = rev (enc_le n v)"

definition dec_be :: "bytes \<Rightarrow> nat" where
  "dec_be bs = dec_le (rev bs)"

lemma length_enc_le [simp]: "length (enc_le n v) = n"
  by (induction n arbitrary: v) auto

lemma length_enc_be [simp]: "length (enc_be n v) = n"
  by (simp add: enc_be_def)

lemma dec_enc_le: "dec_le (enc_le n v) = v mod 256 ^ n"
  by (induction n arbitrary: v) (auto simp: mod_mult2_eq)

lemma dec_enc_be: "dec_be (enc_be n v) = v mod 256 ^ n"
  by (simp add: dec_be_def enc_be_def dec_enc_le)

lemma of_char_less_256: "(of_char c :: nat) < 256"
  by (metis of_char_of char_of_char mod_less_divisor zero_less_numeral)

lemma dec_step_less:
  fixes b d p :: nat
  assumes "b < 256" and "d < p"
  shows "b + 256 * d < 256 * p"
  using assms by arith

lemma dec_le_less: "dec_le bs < 256 ^ length bs"
proof (induction bs)
  case Nil
  then show ?case by simp
next
  case (Cons b bs)
  with dec_step_less [OF of_char_less_256] show ?case by simp
qed

lemma enc_dec_le: "enc_le (length bs) (dec_le bs) = bs"
proof (induction bs)
  case Nil
  then show ?case by simp
next
  case (Cons b bs)
  have "(of_char b + 256 * dec_le bs) div 256 = dec_le bs"
    using of_char_less_256 [of b] by simp
  with Cons show ?case by simp
qed

text \<open>Fields of a structure: \<open>field bs off n\<close> is \<^verbatim>\<open>bs[off:off+n]\<close>.\<close>

definition field :: "bytes \<Rightarrow> nat \<Rightarrow> nat \<Rightarrow> bytes" where
  "field bs off n = take n (drop off bs)"

definition put_le :: "nat \<Rightarrow> 'a::len word \<Rightarrow> bytes" where
  "put_le n w = enc_le n (unat w)"

definition get_le :: "bytes \<Rightarrow> 'a::len word" where
  "get_le bs = word_of_nat (dec_le bs)"

definition put_be :: "nat \<Rightarrow> 'a::len word \<Rightarrow> bytes" where
  "put_be n w = enc_be n (unat w)"

definition get_be :: "bytes \<Rightarrow> 'a::len word" where
  "get_be bs = word_of_nat (dec_be bs)"

lemma length_put [simp, codec_simps]:
  "length (put_le n w) = n" "length (put_be n w) = n"
  by (simp_all add: put_le_def put_be_def)

lemma unat_less_pow256:
  assumes "LENGTH('a) \<le> 8 * n"
  shows "unat (w :: 'a::len word) < 256 ^ n"
proof -
  have "unat w < 2 ^ LENGTH('a)" by simp
  also have "\<dots> \<le> (2 :: nat) ^ (8 * n)" using assms by (simp add: power_increasing)
  finally show ?thesis by (simp add: power_mult)
qed

lemma get_put_le: "LENGTH('a) \<le> 8 * n \<Longrightarrow> get_le (put_le n (w :: 'a::len word)) = w"
  by (simp add: get_le_def put_le_def dec_enc_le unat_less_pow256)

lemma get_put_be: "LENGTH('a) \<le> 8 * n \<Longrightarrow> get_be (put_be n (w :: 'a::len word)) = w"
  by (simp add: get_be_def put_be_def dec_enc_be unat_less_pow256)

lemma get_put_words [simp, codec_simps]:
  "get_le (put_le 1 (b :: u8)) = b"
  "get_le (put_le (Suc 0) (b :: u8)) = b"
  "get_le (put_le 2 (h :: u16)) = h"
  "get_le (put_le 4 (w :: u32)) = w"
  "get_le (put_le 8 (q :: u64)) = q"
  "get_be (put_be 4 (w :: u32)) = w"
  by (simp_all add: get_put_le get_put_be)

lemma enc_le_0: "enc_le n 0 = replicate n CHR 0x00"
  by (induction n) (simp_all add: char_of_def)

lemma put_le_0: "put_le n 0 = replicate n CHR 0x00"
  by (simp add: put_le_def enc_le_0)

lemma numeral_unroll:
  "enc_le (numeral k) v = char_of (v mod 256) # enc_le (pred_numeral k) (v div 256)"
  "replicate (numeral k) c = c # replicate (pred_numeral k) c"
  by (simp_all only: numeral_eq_Suc [of k] enc_le.simps replicate.simps)

lemmas bytes_eval = put_le_def numeral_unroll char_of_def bit_Suc_0_iff

text \<open>Offsets that fit in an \<^verbatim>\<open>int64\<close>.\<close>

lemma sint_of_nat: "n < 2 ^ 63 \<Longrightarrow> sint (word_of_nat n :: u64) = int n"
  by (simp only: signed_of_nat) (simp add: signed_take_bit_int_eq_self_iff)

lemma sint_small: "unat (w :: u64) < 2 ^ 63 \<Longrightarrow> sint w = int (unat w)"
  using sint_of_nat [of "unat w"] by (simp only: ucast_id of_nat_unat)

section \<open>Fixed-width structures\<close>

text \<open>
  \<^verbatim>\<open>encoding/binary\<close> lays a structure out as its fields in order. The interface:
  every value encodes to \<open>width\<close> bytes, and decoding gives the value back. \<open>wf\<close> says that
  the array fields have their declared lengths.
\<close>

definition enc_list :: "('a \<Rightarrow> bytes) \<Rightarrow> 'a list \<Rightarrow> bytes" where
  "enc_list enc xs = concat (map enc xs)"

lemma enc_list_simps [simp]:
  "enc_list enc [] = []" "enc_list enc (x # xs) = enc x @ enc_list enc xs"
  by (simp_all add: enc_list_def)

fun dec_list :: "nat \<Rightarrow> (bytes \<Rightarrow> 'a) \<Rightarrow> nat \<Rightarrow> bytes \<Rightarrow> 'a list" where
  "dec_list w dec 0 bs = []"
| "dec_list w dec (Suc n) bs = dec (take w bs) # dec_list w dec n (drop w bs)"

text \<open>
  \<^verbatim>\<open>binary.Read\<close> of a value of \<open>w\<close> bytes from a stream: \<^verbatim>\<open>io.ReadFull\<close>, then
  the decoding. The result is the value and what is left of the stream.
\<close>

definition binary_read :: "nat \<Rightarrow> (bytes \<Rightarrow> 'a) \<Rightarrow> bytes \<Rightarrow> goerr + ('a \<times> bytes)" where
  "binary_read w dec s =
     (if w \<le> length s then Inr (dec (take w s), drop w s)
      else if s = [] then Inl EOF else Inl ErrUnexpectedEOF)"

locale codec =
  fixes width :: nat
    and enc :: "'a \<Rightarrow> bytes"
    and dec :: "bytes \<Rightarrow> 'a"
    and wf :: "'a \<Rightarrow> bool"
  assumes enc_width: "wf x \<Longrightarrow> length (enc x) = width"
    and dec_enc: "wf x \<Longrightarrow> dec (enc x) = x"
begin

lemma enc_inj: "wf x \<Longrightarrow> wf y \<Longrightarrow> enc x = enc y \<Longrightarrow> x = y"
  by (metis dec_enc)

lemma read_enc: "wf x \<Longrightarrow> binary_read width dec (enc x @ rest) = Inr (x, rest)"
  by (simp add: binary_read_def enc_width dec_enc)

lemma read_short: "length s < width \<Longrightarrow> \<exists>e. binary_read width dec s = Inl e"
  by (auto simp: binary_read_def)

lemma dec_at_field:
  "wf x \<Longrightarrow> take width (drop off bs) = enc x \<Longrightarrow> dec (take width (drop off bs)) = x"
  by (simp add: dec_enc)

lemma length_enc_list: "\<forall>x \<in> set xs. wf x \<Longrightarrow> length (enc_list enc xs) = length xs * width"
  by (induction xs) (auto simp: enc_list_def enc_width)

lemma dec_enc_list:
  "\<forall>x \<in> set xs. wf x \<Longrightarrow> dec_list width dec (length xs) (enc_list enc xs @ rest) = xs"
  by (induction xs) (auto simp: enc_list_def enc_width dec_enc)

lemma enc_list_inj:
  assumes "\<forall>x \<in> set xs. wf x" and "\<forall>y \<in> set ys. wf y"
    and "length xs = length ys" and "enc_list enc xs = enc_list enc ys"
  shows "xs = ys"
  using dec_enc_list [OF assms(1), of "[]"] dec_enc_list [OF assms(2), of "[]"] assms(3,4)
  by simp

end

text \<open>
  A structure without padding: every byte of the image is part of a field, so decoding and encoding
  gives the bytes back.
\<close>

locale exact_codec = codec +
  assumes wf_dec: "length b = width \<Longrightarrow> wf (dec b)"
    and enc_dec: "length b = width \<Longrightarrow> enc (dec b) = b"
begin

lemma wf_dec_list: "n * width \<le> length bs \<Longrightarrow> \<forall>x \<in> set (dec_list width dec n bs). wf x"
proof (induction n arbitrary: bs)
  case (Suc n)
  from Suc.prems have "\<forall>x \<in> set (dec_list width dec n (drop width bs)). wf x"
    by (intro Suc.IH) simp
  with Suc.prems show ?case by (simp add: wf_dec)
qed simp

lemma enc_dec_list: "n * width \<le> length bs \<Longrightarrow> enc_list enc (dec_list width dec n bs) = take (n * width) bs"
  by (induction n arbitrary: bs) (simp_all add: enc_dec take_add)

end

lemma length_dec_list [simp]: "length (dec_list w dec n bs) = n"
  by (induction n arbitrary: bs) auto

lemma put_get_le: "length b = n \<Longrightarrow> 8 * n = LENGTH('a) \<Longrightarrow> put_le n (get_le b :: 'a::len word) = b"
proof -
  assume n: "length b = n" "8 * n = LENGTH('a)"
  have "(256 :: nat) ^ n = 2 ^ LENGTH('a)" by (simp add: n(2) [symmetric] power_mult)
  then have "unat (word_of_nat (dec_le b) :: 'a word) = dec_le b"
    using dec_le_less [of b] n(1) by (simp add: unat_of_nat)
  with n(1) enc_dec_le [of b] show ?thesis by (simp add: put_le_def get_le_def)
qed

lemma put_get_words:
  "length b = 1 \<Longrightarrow> put_le 1 (get_le b :: u8) = b"
  "length b = 2 \<Longrightarrow> put_le 2 (get_le b :: u16) = b"
  "length b = 4 \<Longrightarrow> put_le 4 (get_le b :: u32) = b"
  "length b = 8 \<Longrightarrow> put_le 8 (get_le b :: u64) = b"
  by (simp_all add: put_get_le)

lemma field_append: "field b i m @ field b (i + m) n = field b i (m + n)"
  by (simp add: field_def take_add add.commute)

lemma field_append_assoc: "field b i m @ field b (i + m) n @ rest = field b i (m + n) @ rest"
  by (simp add: field_append [symmetric])

lemma length_field: "off + n \<le> length b \<Longrightarrow> length (field b off n) = n"
  by (simp add: field_def)

lemma field_whole: "field b 0 (length b) = b"
  by (simp add: field_def)

section \<open>Lists\<close>

lemma take_eq_self_iff: "take n xs = xs \<longleftrightarrow> length xs \<le> n"
  by (auto simp: min_def dest: arg_cong [of _ _ length])

lemma drop_eq_append:
  assumes "drop n xs = ys @ zs"
  shows "drop (n + length ys) xs = zs"
  by (metis assms add.commute append_eq_conv_conj drop_drop)

lemma take_drop_append_mid: "take (length b) (drop (length a) (a @ b @ c)) = b"
  by simp

end
