(* ===== verification/Go_Strings.thy ===== *)
theory Go_Strings
  imports Prelude
begin

text \<open>
  The parts of Go's \<^verbatim>\<open>strings\<close>, \<^verbatim>\<open>bytes\<close>,
  \<^verbatim>\<open>bufio\<close> and \<^verbatim>\<open>path/filepath\<close> that the components call:
  splitting and joining, trimming, reading lines, lexical path cleaning.
\<close>

section \<open>Split and Join\<close>

text \<open>\<^verbatim>\<open>strings.Split(s, sep)\<close> for a one-byte separator.\<close>

fun split_on :: "char \<Rightarrow> string \<Rightarrow> string list" where
  "split_on c [] = [[]]"
| "split_on c (x # xs) =
     (if x = c then [] # split_on c xs
      else (case split_on c xs of [] \<Rightarrow> [[x]] | y # ys \<Rightarrow> (x # y) # ys))"

text \<open>\<^verbatim>\<open>strings.Join(xs, sep)\<close>.\<close>

fun join_with :: "string \<Rightarrow> string list \<Rightarrow> string" where
  "join_with sep [] = []"
| "join_with sep [x] = x"
| "join_with sep (x # y # ys) = x @ sep @ join_with sep (y # ys)"

lemma split_on_nonempty [simp]: "split_on c s \<noteq> []"
  by (induction s) (auto split: list.splits)

lemma join_Cons_head [simp]: "join_with sep ((x # y) # ys) = x # join_with sep (y # ys)"
  by (cases ys) auto

lemma join_Nil_head: "ys \<noteq> [] \<Longrightarrow> join_with sep ([] # ys) = sep @ join_with sep ys"
  by (cases ys) auto

lemma join_split: "join_with [c] (split_on c s) = s"
  by (induction s) (auto simp: join_Nil_head split: list.splits)

lemma split_no_sep: "c \<notin> set s \<Longrightarrow> split_on c s = [s]"
  by (induction s) auto

lemma split_elems_no_sep: "x \<in> set (split_on c s) \<Longrightarrow> c \<notin> set x"
  by (induction s arbitrary: x) (auto split: list.splits if_splits)

lemma split_append_sep: "c \<notin> set s \<Longrightarrow> split_on c (s @ c # t) = s # split_on c t"
  by (induction s) auto

lemma split_join:
  "xs \<noteq> [] \<Longrightarrow> \<forall>x \<in> set xs. c \<notin> set x \<Longrightarrow> split_on c (join_with [c] xs) = xs"
  by (induction "[c]" xs rule: join_with.induct) (auto simp: split_no_sep split_append_sep)

section \<open>Trimming\<close>

text \<open>\<^verbatim>\<open>strings.TrimRight\<close> and \<^verbatim>\<open>strings.TrimLeft\<close> with a cutset.\<close>

definition trim_right :: "string \<Rightarrow> char set \<Rightarrow> string" where
  "trim_right s cs = rev (dropWhile (\<lambda>c. c \<in> cs) (rev s))"

definition trim_left :: "string \<Rightarrow> char set \<Rightarrow> string" where
  "trim_left s cs = dropWhile (\<lambda>c. c \<in> cs) s"

lemma trim_right_id: "s = [] \<or> last s \<notin> cs \<Longrightarrow> trim_right s cs = s"
  by (cases s rule: rev_cases) (auto simp: trim_right_def)

lemma trim_right_replicate:
  "c \<in> cs \<Longrightarrow> s = [] \<or> last s \<notin> cs \<Longrightarrow> trim_right (s @ replicate n c) cs = s"
  by (cases s rule: rev_cases) (auto simp: trim_right_def dropWhile_append)

section \<open>Lines\<close>

text \<open>
  \<open>read_chunk s\<close> is one \<^verbatim>\<open>bufio.Reader.ReadBytes('\n')\<close>: the bytes up to and
  including the first newline, whether the call returned \<^verbatim>\<open>io.EOF\<close> (no newline was
  found), and what is left.
\<close>

abbreviation newline :: char where "newline \<equiv> CHR 0x0A"
abbreviation tab :: char where "tab \<equiv> CHR 0x09"

fun read_chunk :: "bytes \<Rightarrow> bytes \<times> bool \<times> bytes" where
  "read_chunk [] = ([], True, [])"
| "read_chunk (c # cs) =
     (if c = newline then ([c], False, cs)
      else (case read_chunk cs of (l, e, r) \<Rightarrow> (c # l, e, r)))"

lemma read_chunk_append: "read_chunk s = (l, e, r) \<Longrightarrow> l @ r = s"
  by (induction s arbitrary: l e r) (auto split: if_splits prod.splits)

lemma read_chunk_eof: "read_chunk s = (l, True, r) \<Longrightarrow> l = s \<and> r = [] \<and> newline \<notin> set s"
  by (induction s arbitrary: l r) (auto split: if_splits prod.splits)

lemma read_chunk_line:
  "read_chunk s = (l, False, r) \<Longrightarrow> \<exists>l'. l = l' @ [newline] \<and> newline \<notin> set l'"
proof (induction s arbitrary: l r)
  case Nil
  then show ?case by simp
next
  case (Cons c cs)
  show ?case
  proof (cases "c = newline")
    case True
    with Cons.prems show ?thesis by auto
  next
    case False
    with Cons.prems obtain l1 where l1: "read_chunk cs = (l1, False, r)" "l = c # l1"
      by (auto split: prod.splits)
    then obtain l' where "l1 = l' @ [newline]" "newline \<notin> set l'"
      using Cons.IH by blast
    with l1(2) False show ?thesis by (intro exI [of _ "c # l'"]) auto
  qed
qed

lemma read_chunk_less: "read_chunk s = (l, False, r) \<Longrightarrow> length r < length s"
  using read_chunk_append [of s l False r] read_chunk_line [of s l r] by auto

text \<open>
  All reads of a stream up to and including the one that returns \<^verbatim>\<open>io.EOF\<close>: the
  terminated lines, then the unterminated rest (empty when the input ends with a newline).
\<close>

function read_all_chunks :: "bytes \<Rightarrow> bytes list" where
  "read_all_chunks s =
     (case read_chunk s of (l, e, r) \<Rightarrow> if e then [l] else l # read_all_chunks r)"
  by pat_completeness auto
termination
  by (relation "measure length") (auto dest: read_chunk_less [OF sym])

declare read_all_chunks.simps [simp del]

lemma concat_read_all_chunks: "concat (read_all_chunks s) = s"
proof (induction s rule: read_all_chunks.induct)
  case (1 s)
  obtain l e r where s: "read_chunk s = (l, e, r)" by (cases "read_chunk s") auto
  show ?case
    using 1 s read_chunk_append [OF s] read_chunk_eof [of s]
    by (cases e) (simp_all add: read_all_chunks.simps [of s])
qed

text \<open>\<^verbatim>\<open>bufio.Scanner\<close> with \<^verbatim>\<open>ScanLines\<close>: lines without their newline and one
  optional carriage return; an empty last line is not delivered.\<close>

definition drop_cr :: "bytes \<Rightarrow> bytes" where
  "drop_cr l = (if l \<noteq> [] \<and> last l = CHR 0x0D then butlast l else l)"

definition scan_lines :: "bytes \<Rightarrow> bytes list" where
  "scan_lines s =
     (let ls = split_on newline s
      in map drop_cr (if last ls = [] then butlast ls else ls))"

section \<open>UTF-8\<close>

text \<open>
  The number of bytes \<^verbatim>\<open>utf8.DecodeRune\<close> takes at the start of a text: the length of a
  well-formed sequence, and one byte where there is none.
\<close>

definition cont :: "nat \<Rightarrow> nat \<Rightarrow> char \<Rightarrow> bool" where
  "cont lo hi c \<longleftrightarrow> lo \<le> (of_char c :: nat) \<and> (of_char c :: nat) \<le> hi"

definition rune_size :: "bytes \<Rightarrow> nat" where
  "rune_size s =
     (case s of
        [] \<Rightarrow> 0
      | b0 # bs \<Rightarrow>
          let n = of_char b0 :: nat;
              ok = (\<lambda>i lo hi. i < length bs \<and> cont lo hi (bs ! i))
          in if 0xC2 \<le> n \<and> n \<le> 0xDF \<and> ok 0 0x80 0xBF then 2
             else if 0xE0 \<le> n \<and> n \<le> 0xEF \<and>
               ok 0 (if n = 0xE0 then 0xA0 else 0x80) (if n = 0xED then 0x9F else 0xBF) \<and> ok 1 0x80 0xBF then 3
             else if 0xF0 \<le> n \<and> n \<le> 0xF4 \<and>
               ok 0 (if n = 0xF0 then 0x90 else 0x80) (if n = 0xF4 then 0x8F else 0xBF) \<and>
               ok 1 0x80 0xBF \<and> ok 2 0x80 0xBF then 4
             else 1)"

lemma rune_size_pos: "s \<noteq> [] \<Longrightarrow> 0 < rune_size s"
  by (cases s) (auto simp: rune_size_def Let_def)

text \<open>The runes of a text, each with its bytes; a byte that starts no valid rune stands alone.\<close>

function runes :: "bytes \<Rightarrow> bytes list" where
  "runes s = (if s = [] then [] else take (rune_size s) s # runes (drop (rune_size s) s))"
  by pat_completeness auto
termination
  by (relation "measure length") (auto simp: rune_size_pos)

declare runes.simps [simp del]

text \<open>\<^verbatim>\<open>unicode.IsSpace\<close>, on the UTF-8 encoding of the rune.\<close>

definition IsSpace :: "bytes \<Rightarrow> bool" where
  "IsSpace r \<longleftrightarrow>
     r \<in> {[CHR 0x09], [CHR 0x0A], [CHR 0x0B], [CHR 0x0C], [CHR 0x0D], [CHR 0x20],
          [CHR 0xC2, CHR 0x85], [CHR 0xC2, CHR 0xA0], [CHR 0xE1, CHR 0x9A, CHR 0x80],
          [CHR 0xE2, CHR 0x80, CHR 0xA8], [CHR 0xE2, CHR 0x80, CHR 0xA9], [CHR 0xE2, CHR 0x80, CHR 0xAF],
          [CHR 0xE2, CHR 0x81, CHR 0x9F], [CHR 0xE3, CHR 0x80, CHR 0x80]} \<or>
     length r = 3 \<and> r ! 0 = CHR 0xE2 \<and> r ! 1 = CHR 0x80 \<and> cont 0x80 0x8A (r ! 2)"

section \<open>Paths\<close>

abbreviation slash :: char where "slash \<equiv> CHR ''/''"

definition is_abs :: "string \<Rightarrow> bool" where
  "is_abs p \<longleftrightarrow> p \<noteq> [] \<and> hd p = slash"

text \<open>
  \<^verbatim>\<open>filepath.Clean\<close>: the loop over the elements of the path, with the elements kept so
  far in reverse. \<^verbatim>\<open>..\<close> removes the last kept element when there is one to remove.
\<close>

fun clean_elems :: "bool \<Rightarrow> string list \<Rightarrow> string list \<Rightarrow> string list" where
  "clean_elems rooted st [] = rev st"
| "clean_elems rooted st (e # es) =
     (if e = [] \<or> e = ''.'' then clean_elems rooted st es
      else if e = ''..'' then
        (case st of
           [] \<Rightarrow> clean_elems rooted (if rooted then [] else [e]) es
         | t # ts \<Rightarrow> if t = ''..'' then clean_elems rooted (if rooted then st else e # st) es
                    else clean_elems rooted ts es)
      else clean_elems rooted (e # st) es)"

definition clean_comps :: "string \<Rightarrow> string list" where
  "clean_comps p = clean_elems (is_abs p) [] (split_on slash p)"

definition Clean :: "string \<Rightarrow> string" where
  "Clean p =
     (if is_abs p then slash # join_with ''/'' (clean_comps p)
      else if clean_comps p = [] then ''.'' else join_with ''/'' (clean_comps p))"

text \<open>\<^verbatim>\<open>filepath.Join\<close>: leading empty elements are dropped, the rest is joined and cleaned.\<close>

definition Join :: "string list \<Rightarrow> string" where
  "Join es = (case dropWhile (\<lambda>e. e = []) es of [] \<Rightarrow> [] | es' \<Rightarrow> Clean (join_with ''/'' es'))"

text \<open>\<^verbatim>\<open>filepath.Split\<close>: after the final separator.\<close>

definition path_Split :: "string \<Rightarrow> string \<times> string" where
  "path_Split p =
     (let f = rev (takeWhile (\<lambda>c. c \<noteq> slash) (rev p)) in (take (length p - length f) p, f))"

definition Dir :: "string \<Rightarrow> string" where
  "Dir p = Clean (fst (path_Split p))"

definition Base :: "string \<Rightarrow> string" where
  "Base p =
     (if p = [] then ''.''
      else let q = trim_right p {slash} in if q = [] then ''/'' else snd (path_Split q))"

text \<open>\<^verbatim>\<open>filepath.Rel\<close> on the elements of the cleaned paths.\<close>

fun strip_common :: "string list \<Rightarrow> string list \<Rightarrow> string list \<times> string list" where
  "strip_common (x # xs) (y # ys) = (if x = y then strip_common xs ys else (x # xs, y # ys))"
| "strip_common xs ys = (xs, ys)"

definition Rel :: "string \<Rightarrow> string \<Rightarrow> goerr + string" where
  "Rel base targ =
     (if Clean targ = Clean base then Inr ''.''
      else if is_abs (Clean base) \<noteq> is_abs (Clean targ) then Inl (Errorf ''Rel: can't make relative'')
      else (case strip_common (clean_comps base) (clean_comps targ) of (rb, rt) \<Rightarrow>
              if rb \<noteq> [] \<and> hd rb = ''..'' then Inl (Errorf ''Rel: can't make relative'')
              else Inr (join_with ''/'' (replicate (length rb) ''..'' @ rt))))"

lemma clean_elems_elem:
  assumes "x \<in> set (clean_elems rooted st es)"
  shows "x \<in> set st \<or> x \<in> set es \<and> x \<noteq> [] \<and> x \<noteq> ''.''"
  using assms
  by (induction rooted st es rule: clean_elems.induct)
     (force split: if_splits list.splits)+

lemma clean_elems_rooted:
  "''..'' \<notin> set st \<Longrightarrow> ''..'' \<notin> set (clean_elems True st es)"
  by (induction True st es rule: clean_elems.induct) (auto split: list.splits)

lemma clean_comps_rooted: "is_abs p \<Longrightarrow> ''..'' \<notin> set (clean_comps p)"
  by (simp add: clean_comps_def clean_elems_rooted)

lemma clean_comps_proper:
  "x \<in> set (clean_comps p) \<Longrightarrow> x \<noteq> [] \<and> x \<noteq> ''.'' \<and> slash \<notin> set x"
  unfolding clean_comps_def
  by (drule clean_elems_elem) (auto dest: split_elems_no_sep)

lemma is_abs_Cons [simp]: "is_abs (c # cs) \<longleftrightarrow> c = slash"
  by (simp add: is_abs_def)

text \<open>A relative path none of whose elements is \<^verbatim>\<open>..\<close> stays below its directory.\<close>

definition local_path :: "string \<Rightarrow> bool" where
  "local_path p \<longleftrightarrow> \<not> is_abs p \<and> ''..'' \<notin> set (split_on slash p)"

lemma join_comps_not_abs:
  assumes "\<forall>x \<in> set xs. x \<noteq> [] \<and> slash \<notin> set x"
  shows "\<not> is_abs (join_with ''/'' xs)"
proof (cases xs)
  case Nil
  then show ?thesis by (simp add: is_abs_def)
next
  case (Cons x ys)
  with assms have "x \<noteq> []" "slash \<notin> set x" by auto
  then have "hd (join_with ''/'' xs) \<noteq> slash"
    using Cons by (cases ys; cases x) auto
  then show ?thesis by (simp add: is_abs_def)
qed

lemma join_comps_local:
  assumes "\<forall>x \<in> set xs. x \<noteq> [] \<and> slash \<notin> set x" and "''..'' \<notin> set xs"
  shows "local_path (join_with ''/'' xs)"
proof (cases "xs = []")
  case True
  then show ?thesis by (simp add: local_path_def is_abs_def)
next
  case False
  with assms split_join [OF False, of slash] join_comps_not_abs [OF assms(1)] show ?thesis
    by (simp add: local_path_def)
qed

lemma Rel_root:
  assumes "is_abs p"
  shows "\<exists>r. Rel ''/'' p = Inr r \<and> local_path r"
proof -
  have root: "Clean ''/'' = ''/''" "clean_comps ''/'' = []"
    by (simp_all add: Clean_def clean_comps_def)
  have proper: "\<forall>x \<in> set (clean_comps p). x \<noteq> [] \<and> slash \<notin> set x"
    using clean_comps_proper by blast
  show ?thesis
  proof (cases "Clean p = ''/''")
    case True
    then show ?thesis by (simp add: Rel_def root local_path_def is_abs_def)
  next
    case False
    with assms have "Rel ''/'' p = Inr (join_with ''/'' (clean_comps p))"
      by (simp add: Rel_def root) (simp add: Clean_def)
    with join_comps_local [OF proper clean_comps_rooted [OF assms]] show ?thesis by simp
  qed
qed

section \<open>bufio.Scanner\<close>

text \<open>
  \<^verbatim>\<open>bufio.Scanner\<close>: the lines it delivers, and whether it gave up on a line that does not fit in its buffer of
  64 KiB.
\<close>

function scanner_lines :: "bytes \<Rightarrow> bytes list \<times> bool" where
  "scanner_lines s =
     (if s = [] then ([], False)
      else (case read_chunk s of (l, eof, r) \<Rightarrow>
              if length l > 65536 \<or> eof \<and> length l > 65535 then ([], True)
              else if eof then ([drop_cr l], False)
              else (case scanner_lines r of (ls, e) \<Rightarrow> (drop_cr (butlast l) # ls, e))))"
  by pat_completeness auto
termination
  by (relation "measure length") (auto dest: read_chunk_less [OF sym])

declare scanner_lines.simps [simp del]

text \<open>What the scanner leaves unread: nothing, or what is behind the full buffer when it gave up.\<close>

function scanner_rest :: "bytes \<Rightarrow> bytes" where
  "scanner_rest s =
     (if s = [] then []
      else (case read_chunk s of (l, eof, r) \<Rightarrow>
              if length l > 65536 \<or> eof \<and> length l > 65535 then drop 65536 s
              else if eof then [] else scanner_rest r))"
  by pat_completeness auto
termination
  by (relation "measure length") (auto dest: read_chunk_less [OF sym])

declare scanner_rest.simps [simp del]

lemma read_chunk_full: "newline \<notin> set l \<Longrightarrow> read_chunk (l @ newline # r) = (l @ [newline], False, r)"
  by (induction l) auto

lemma scanner_lines_text:
  assumes "\<forall>l \<in> set ls. newline \<notin> set l \<and> length l < 65536 \<and> drop_cr l = l"
  shows "scanner_lines (concat (map (\<lambda>l. l @ [newline]) ls)) = (ls, False)"
  using assms
proof (induction ls)
  case Nil
  show ?case by (simp add: scanner_lines.simps)
next
  case (Cons l ls)
  then show ?case
    by (subst scanner_lines.simps) (simp add: read_chunk_full)
qed

end
