(* ===== verification/Cpio_Types.thy ===== *)
theory Cpio_Types
  imports Go_Strings
begin

text \<open>
  \<^verbatim>\<open>src/pkg/cpio/types.go\<close>: file metadata, records and their content streams.

  A record's \<^verbatim>\<open>io.ReadCloser\<close> is the stream it delivers: the data up to the end of
  file or up to the read error, and the result of \<^verbatim>\<open>Close\<close>. A nil
  \<^verbatim>\<open>ReadCloser\<close> is \<open>None\<close>.
\<close>

definition Trailer :: string where
  "Trailer = ''TRAILER!!!''"

record Info =
  Ino :: u64
  Mode :: u64
  UID :: u64
  GID :: u64
  NLink :: u64
  MTime :: u64
  FileSize :: u64
  Dev :: u64
  Major :: u64
  Minor :: u64
  Rmajor :: u64
  Rminor :: u64
  Name :: string

definition zero_info :: Info where
  "zero_info = \<lparr>Ino = 0, Mode = 0, UID = 0, GID = 0, NLink = 0, MTime = 0, FileSize = 0,
     Dev = 0, Major = 0, Minor = 0, Rmajor = 0, Rminor = 0, Name = []\<rparr>"

record stream =
  s_data :: bytes
  s_err :: "goerr option"
  s_close :: "goerr option"

record Record =
  ReadCloser :: "stream option"
  rec_Info :: Info

abbreviation rec_Name :: "Record \<Rightarrow> string" where
  "rec_Name f \<equiv> Name (rec_Info f)"

definition NewBytesReadCloser :: "bytes \<Rightarrow> stream" where
  "NewBytesReadCloser contents = \<lparr>s_data = contents, s_err = None, s_close = None\<rparr>"

definition NewReadCloser :: "bytes \<times> goerr option \<Rightarrow> stream" where
  "NewReadCloser r = \<lparr>s_data = fst r, s_err = snd r, s_close = None\<rparr>"

definition StaticRecord :: "bytes \<Rightarrow> Info \<Rightarrow> Record" where
  "StaticRecord contents info =
     \<lparr>ReadCloser = Some (NewBytesReadCloser contents),
      rec_Info = info\<lparr>FileSize := word_of_nat (length contents)\<rparr>\<rparr>"

definition TrailerRecord :: Record where
  "TrailerRecord = StaticRecord [] (zero_info\<lparr>Name := Trailer\<rparr>)"

section \<open>LazyOpen\<close>

text \<open>
  The file is opened by the first \<^verbatim>\<open>Read\<close>. \<open>opn\<close> is \<^verbatim>\<open>os.Open\<close>: an
  error or the content of the file. \<open>lo_File\<close> holds what is left to read of the open
  file; a read at the end of the file returns \<^verbatim>\<open>io.EOF\<close>.
\<close>

record LazyOpen =
  lo_Name :: string
  lo_File :: "bytes option"

definition File_Read :: "bytes \<Rightarrow> nat \<Rightarrow> bytes \<times> goerr option \<times> bytes" where
  "File_Read d n = (take n d, if d = [] \<and> 0 < n then Some EOF else None, drop n d)"

definition LazyOpen_Read ::
    "(string \<Rightarrow> goerr + bytes) \<Rightarrow> LazyOpen \<Rightarrow> nat \<Rightarrow> (int \<times> bytes \<times> goerr option) \<times> LazyOpen" where
  "LazyOpen_Read opn r n =
     (let read = (\<lambda>d. case File_Read d n of (b, e, d') \<Rightarrow>
                        ((int (length b), b, e), r\<lparr>lo_File := Some d'\<rparr>))
      in case lo_File r of
           Some d \<Rightarrow> read d
         | None \<Rightarrow> (case opn (lo_Name r) of Inl e \<Rightarrow> ((-1, [], Some e), r) | Inr d \<Rightarrow> read d))"

text \<open>\<^verbatim>\<open>Close\<close> of a file that was never opened is \<^verbatim>\<open>Close\<close> on a nil
  \<^verbatim>\<open>*os.File\<close>, which returns \<^verbatim>\<open>os.ErrInvalid\<close>.\<close>

definition LazyOpen_Close :: "LazyOpen \<Rightarrow> goerr option" where
  "LazyOpen_Close r = (if lo_File r = None then Some (Errno ''invalid argument'') else None)"

text \<open>What a reader that fills its buffer of \<open>Suc n\<close> bytes receives from a \<^verbatim>\<open>LazyOpen\<close>.\<close>

fun lazy_drain ::
    "nat \<Rightarrow> (string \<Rightarrow> goerr + bytes) \<Rightarrow> LazyOpen \<Rightarrow> nat \<Rightarrow> (bytes \<times> goerr option \<times> LazyOpen) option"
  where
  "lazy_drain 0 opn r n = None"
| "lazy_drain (Suc fuel) opn r n =
     (case LazyOpen_Read opn r (Suc n) of
        ((_, b, Some EOF), r') \<Rightarrow> Some (b, None, r')
      | ((_, b, Some e), r') \<Rightarrow> Some (b, Some e, r')
      | ((_, b, None), r') \<Rightarrow>
          map_option (\<lambda>(d, e, r'). (b @ d, e, r')) (lazy_drain fuel opn r' n))"

definition NewDeferReadCloser :: "(string \<Rightarrow> goerr + bytes) \<Rightarrow> string \<Rightarrow> stream" where
  "NewDeferReadCloser opn name =
     (case opn name of
        Inl e \<Rightarrow> \<lparr>s_data = [], s_err = Some e, s_close = Some (Errno ''invalid argument'')\<rparr>
      | Inr d \<Rightarrow> \<lparr>s_data = d, s_err = None, s_close = None\<rparr>)"

lemma lazy_drain_open:
  "length d < fuel \<Longrightarrow>
   lazy_drain fuel opn \<lparr>lo_Name = name, lo_File = Some d\<rparr> n =
     Some (d, None, \<lparr>lo_Name = name, lo_File = Some []\<rparr>)"
proof (induction fuel arbitrary: d)
  case 0
  then show ?case by simp
next
  case (Suc fuel)
  show ?case
  proof (cases "d = []")
    case True
    then show ?thesis by (simp add: LazyOpen_Read_def File_Read_def)
  next
    case False
    with Suc.prems have "length (drop (Suc n) d) < fuel"
      by (cases d) auto
    from Suc.IH [OF this] False show ?thesis
      by (simp add: LazyOpen_Read_def File_Read_def)
  qed
qed

text \<open>
  The deferred stream is what draining a fresh \<^verbatim>\<open>LazyOpen\<close> gives, for any buffer size and
  enough steps, and its \<^verbatim>\<open>Close\<close> result is that of the drained reader.
\<close>

lemma NewDeferReadCloser_drains:
  assumes "\<And>d. opn name = Inr d \<Longrightarrow> Suc (length d) < fuel"
    and "\<And>e. opn name = Inl e \<Longrightarrow> e \<noteq> EOF \<and> 0 < fuel"
  shows "\<exists>r'. lazy_drain fuel opn \<lparr>lo_Name = name, lo_File = None\<rparr> n =
      Some (s_data (NewDeferReadCloser opn name), s_err (NewDeferReadCloser opn name), r') \<and>
    LazyOpen_Close r' = s_close (NewDeferReadCloser opn name)"
proof (cases "opn name")
  case (Inl e)
  with assms(2) obtain f where "fuel = Suc f" "e \<noteq> EOF" by (cases fuel) auto
  with Inl show ?thesis
    by (cases e) (simp_all add: LazyOpen_Read_def NewDeferReadCloser_def LazyOpen_Close_def)
next
  case (Inr d)
  with assms(1) obtain f where f: "fuel = Suc f" "length d < f" by (cases fuel) auto
  have step: "lazy_drain fuel opn \<lparr>lo_Name = name, lo_File = None\<rparr> n =
      lazy_drain fuel opn \<lparr>lo_Name = name, lo_File = Some d\<rparr> n"
    using f Inr by (simp add: LazyOpen_Read_def)
  from f have "length d < fuel" by simp
  from lazy_drain_open [OF this] Inr show ?thesis
    unfolding step by (simp add: NewDeferReadCloser_def LazyOpen_Close_def)
qed

end
