(* ===== verification/Newc.thy ===== *)
theory Newc
  imports Cpio_Types
begin

text \<open>
  \<^verbatim>\<open>src/pkg/cpio/newc/newc.go\<close>: the "new ASCII" cpio format. The header is thirteen
  32-bit big-endian integers in upper-case hexadecimal after the six-byte magic; header plus
  name and content are padded to four bytes.
\<close>

section \<open>encoding/hex\<close>

definition hexdigit :: "nat \<Rightarrow> char" where
  "hexdigit n = ''0123456789abcdef'' ! n"

definition hex_Encode :: "bytes \<Rightarrow> bytes" where
  "hex_Encode bs =
     concat (map (\<lambda>b. [hexdigit (of_char b div 16), hexdigit (of_char b mod 16)]) bs)"

definition fromHexChar :: "char \<Rightarrow> nat option" where
  "fromHexChar c =
     (let n = of_char c :: nat
      in if 48 \<le> n \<and> n \<le> 57 then Some (n - 48)
         else if 97 \<le> n \<and> n \<le> 102 then Some (n - 97 + 10)
         else if 65 \<le> n \<and> n \<le> 70 then Some (n - 65 + 10)
         else None)"

fun hex_Decode :: "bytes \<Rightarrow> bytes option" where
  "hex_Decode [] = Some []"
| "hex_Decode [x] = None"
| "hex_Decode (a # b # cs) =
     (case (fromHexChar a, fromHexChar b, hex_Decode cs) of
        (Some x, Some y, Some ds) \<Rightarrow> Some (char_of (16 * x + y) # ds)
      | _ \<Rightarrow> None)"

definition upper_char :: "char \<Rightarrow> char" where
  "upper_char c =
     (let n = of_char c :: nat in if 97 \<le> n \<and> n \<le> 122 then char_of (n - 32) else c)"

definition ToUpper :: "bytes \<Rightarrow> bytes" where
  "ToUpper bs = map upper_char bs"

lemma length_hex_Encode [simp]: "length (hex_Encode bs) = 2 * length bs"
  by (induction bs) (auto simp: hex_Encode_def)

lemma length_ToUpper [simp]: "length (ToUpper bs) = length bs"
  by (simp add: ToUpper_def)

lemma less_16_cases:
  "n < 16 \<Longrightarrow> n = 0 \<or> n = 1 \<or> n = 2 \<or> n = 3 \<or> n = 4 \<or> n = 5 \<or> n = 6 \<or> n = 7 \<or>
     n = 8 \<or> n = 9 \<or> n = 10 \<or> n = 11 \<or> n = 12 \<or> n = 13 \<or> n = 14 \<or> n = (15 :: nat)"
  by arith

lemma fromHexChar_upper_hexdigit:
  "n < 16 \<Longrightarrow> fromHexChar (upper_char (hexdigit n)) = Some n"
  by (drule less_16_cases)
     (elim disjE; simp add: hexdigit_def upper_char_def fromHexChar_def)

lemma hex_Decode_upper_Encode: "hex_Decode (ToUpper (hex_Encode bs)) = Some bs"
proof (induction bs)
  case Nil
  then show ?case by (simp add: hex_Encode_def ToUpper_def)
next
  case (Cons b bs)
  have "(of_char b :: nat) div 16 < 16"
    by (rule less_mult_imp_div_less) (simp add: of_char_less_256)
  with Cons show ?case
    by (simp add: hex_Encode_def ToUpper_def fromHexChar_upper_hexdigit)
qed

section \<open>Header\<close>

definition newcMagic :: bytes where "newcMagic = ''070701''"
definition magicLen :: nat where "magicLen = 6"

record header =
  hIno :: u32
  hMode :: u32
  hUID :: u32
  hGID :: u32
  hNLink :: u32
  hMTime :: u32
  hFileSize :: u32
  hMajor :: u32
  hMinor :: u32
  hRmajor :: u32
  hRminor :: u32
  hNameLength :: u32
  hCRC :: u32

definition headerFromInfo :: "Info \<Rightarrow> header" where
  "headerFromInfo i =
     \<lparr>hIno = ucast (Ino i), hMode = ucast (Mode i), hUID = ucast (UID i), hGID = ucast (GID i),
      hNLink = ucast (NLink i), hMTime = ucast (MTime i), hFileSize = ucast (FileSize i),
      hMajor = ucast (Major i), hMinor = ucast (Minor i), hRmajor = ucast (Rmajor i),
      hRminor = ucast (Rminor i), hNameLength = word_of_nat (length (Name i)) + 1, hCRC = 0\<rparr>"

definition header_Info :: "header \<Rightarrow> Info" where
  "header_Info h =
     \<lparr>Ino = ucast (hIno h), Mode = ucast (hMode h), UID = ucast (hUID h), GID = ucast (hGID h),
      NLink = ucast (hNLink h), MTime = ucast (hMTime h), FileSize = ucast (hFileSize h), Dev = 0,
      Major = ucast (hMajor h), Minor = ucast (hMinor h), Rmajor = ucast (hRmajor h),
      Rminor = ucast (hRminor h), Name = []\<rparr>"

definition header_fields :: "header \<Rightarrow> u32 list" where
  "header_fields h =
     [hIno h, hMode h, hUID h, hGID h, hNLink h, hMTime h, hFileSize h,
      hMajor h, hMinor h, hRmajor h, hRminor h, hNameLength h, hCRC h]"

definition headerSize :: nat where "headerSize = 52"

definition enc_header :: "header \<Rightarrow> bytes" where
  "enc_header h = concat (map (put_be 4) (header_fields h))"

definition dec_header :: "bytes \<Rightarrow> header" where
  "dec_header bs =
     \<lparr>hIno = get_be (field bs 0 4), hMode = get_be (field bs 4 4), hUID = get_be (field bs 8 4),
      hGID = get_be (field bs 12 4), hNLink = get_be (field bs 16 4),
      hMTime = get_be (field bs 20 4), hFileSize = get_be (field bs 24 4),
      hMajor = get_be (field bs 28 4), hMinor = get_be (field bs 32 4),
      hRmajor = get_be (field bs 36 4), hRminor = get_be (field bs 40 4),
      hNameLength = get_be (field bs 44 4), hCRC = get_be (field bs 48 4)\<rparr>"

interpretation newc_hdr: codec headerSize enc_header dec_header "\<lambda>_. True"
  by unfold_locales
     (simp_all add: enc_header_def dec_header_def header_fields_def headerSize_def field_def)

section \<open>Writer\<close>

text \<open>\<^verbatim>\<open>round4\<close>: \<^verbatim>\<open>(n + 3) &^ 0x3\<close>.\<close>

definition round4 :: "int \<Rightarrow> int" where
  "round4 n = (n + 3) AND NOT 3"

text \<open>The writer's state; the underlying \<^verbatim>\<open>io.Writer\<close> is the parameter \<open>wr\<close>.\<close>

record 's writer =
  w_magic :: bytes
  w_sink :: 's
  w_pos :: int

definition newWriter :: "bytes \<Rightarrow> 's \<Rightarrow> 's writer" where
  "newWriter magic s = \<lparr>w_magic = magic, w_sink = s, w_pos = 0\<rparr>"

definition Write :: "'s io_writer \<Rightarrow> bytes \<Rightarrow> 's writer \<Rightarrow> (goerr + nat) \<times> 's writer" where
  "Write wr b w =
     (case wr b (w_sink w) of
        ((n, Some e), s) \<Rightarrow> (Inl e, w\<lparr>w_sink := s\<rparr>)
      | ((n, None), s) \<Rightarrow> (Inr n, w\<lparr>w_sink := s, w_pos := w_pos w + int n\<rparr>))"

text \<open>Sequencing of calls that return an error: the first error ends the sequence.\<close>

definition and_then ::
    "(goerr + 'a) \<times> 'w \<Rightarrow> ('a \<Rightarrow> 'w \<Rightarrow> (goerr + 'b) \<times> 'w) \<Rightarrow> (goerr + 'b) \<times> 'w" where
  "and_then m f = (case m of (Inl e, w) \<Rightarrow> (Inl e, w) | (Inr x, w) \<Rightarrow> f x w)"

definition pad :: "'s io_writer \<Rightarrow> 's writer \<Rightarrow> (goerr + unit) \<times> 's writer" where
  "pad wr w =
     (let o4 = round4 (w_pos w)
      in if o4 \<noteq> w_pos w
         then and_then (Write wr (take (nat (o4 - w_pos w)) (replicate 3 CHR 0x00)) w)
                (\<lambda>_ w. (Inr (), w))
         else (Inr (), w))"

text \<open>\<^verbatim>\<open>io.Copy\<close> through a buffer of 32 KiB; the count and the first error.\<close>

definition copyBuf :: nat where "copyBuf = 32768"

function copy_data :: "'s io_writer \<Rightarrow> bytes \<Rightarrow> nat \<Rightarrow> 's writer \<Rightarrow> (goerr + nat) \<times> 's writer" where
  "copy_data wr d m w =
     (if d = [] then (Inr m, w)
      else and_then (Write wr (take copyBuf d) w)
        (\<lambda>n w. if n \<noteq> length (take copyBuf d) then (Inl ErrShortWrite, w)
               else copy_data wr (drop copyBuf d) (m + n) w))"
  by pat_completeness auto
termination
  by (relation "measure (\<lambda>(wr, d, m, w). length d)") (auto simp: copyBuf_def)

declare copy_data.simps [simp del]

definition io_Copy :: "'s io_writer \<Rightarrow> stream \<Rightarrow> 's writer \<Rightarrow> (goerr + nat) \<times> 's writer" where
  "io_Copy wr st w =
     and_then (copy_data wr (s_data st) 0 w)
       (\<lambda>m w. case s_err st of Some e \<Rightarrow> (Inl e, w) | None \<Rightarrow> (Inr m, w))"

definition record_header :: "Record \<Rightarrow> header" where
  "record_header f =
     (let hdr = headerFromInfo (rec_Info f);
          hdr = (if ReadCloser f = None then hdr\<lparr>hFileSize := 0\<rparr> else hdr)
      in hdr\<lparr>hCRC := 0\<rparr>)"

definition WriteRecord :: "'s io_writer \<Rightarrow> Record \<Rightarrow> 's writer \<Rightarrow> (goerr + unit) \<times> 's writer" where
  "WriteRecord wr f w =
     and_then (Write wr (w_magic w) w) (\<lambda>_ w.
     and_then (Write wr (ToUpper (hex_Encode (enc_header (record_header f)))) w) (\<lambda>_ w.
     and_then (Write wr (rec_Name f @ [CHR 0x00]) w) (\<lambda>_ w.
     and_then (pad wr w) (\<lambda>_ w.
       case ReadCloser f of
         None \<Rightarrow> (Inr (), w)
       | Some st \<Rightarrow>
           and_then (io_Copy wr st w) (\<lambda>m w.
             case s_close st of
               Some e \<Rightarrow> (Inl e, w)
             | None \<Rightarrow> if m > 0 then pad wr w else (Inr (), w))))))"

section \<open>Reader\<close>

record reader =
  r_magic :: bytes
  r_r :: reader_at
  r_pos :: int

definition newReader :: "bytes \<Rightarrow> reader_at \<Rightarrow> reader" where
  "newReader magic ra = \<lparr>r_magic = magic, r_r = ra, r_pos = 0\<rparr>"

definition Read :: "nat \<Rightarrow> reader \<Rightarrow> (goerr + bytes) \<times> reader" where
  "Read n r =
     (case r_r r n (r_pos r) of (p, err) \<Rightarrow>
        if err = Some EOF then (Inl EOF, r)
        else if err \<noteq> None \<or> length p \<noteq> n
        then (Inl (Errorf ''ReadAt(pos = %d): got %d, want %d bytes; error %v''), r)
        else (Inr p, r\<lparr>r_pos := r_pos r + int n\<rparr>))"

definition ReadAligned :: "nat \<Rightarrow> reader \<Rightarrow> (goerr + bytes) \<times> reader" where
  "ReadAligned n r = (case Read n r of (res, r') \<Rightarrow> (res, r'\<lparr>r_pos := round4 (r_pos r')\<rparr>))"

text \<open>\<^verbatim>\<open>io.NewSectionReader(r, off, n)\<close> read to its end.\<close>

definition section_reader :: "reader_at \<Rightarrow> int \<Rightarrow> nat \<Rightarrow> bytes \<times> goerr option" where
  "section_reader ra off n =
     (case ra n off of (p, err) \<Rightarrow> (p, if err = Some EOF then None else err))"

text \<open>
  \<^verbatim>\<open>ReadRecord\<close>. A name length of zero makes the slice bound
  \<^verbatim>\<open>hdr.NameLength-1\<close> wrap around and the slice expression panic.
\<close>

definition ReadRecord :: "reader \<Rightarrow> Record outcome \<times> reader" where
  "ReadRecord r =
     (case Read (2 * headerSize + magicLen) r of
        (Inl e, r) \<Rightarrow> (Fail e, r)
      | (Inr buf, r) \<Rightarrow>
          if take magicLen buf \<noteq> r_magic r then (Fail (Errorf ''reader: magic got %q, want %q''), r)
          else (case hex_Decode (drop magicLen buf) of
             None \<Rightarrow> (Fail (Errorf ''reader: error decoding hex: %v''), r)
           | Some dst \<Rightarrow>
               (case binary_read headerSize dec_header dst of
                  Inl e \<Rightarrow> (Fail e, r)
                | Inr (hdr, _) \<Rightarrow>
                    (case ReadAligned (unat (hNameLength hdr)) r of
                       (Inl e, r) \<Rightarrow> (Fail e, r)
                     | (Inr nameBuf, r) \<Rightarrow>
                         if unat (hNameLength hdr - 1) > length nameBuf
                         then (Panic ''slice bounds out of range'', r)
                         else
                           (let info = (header_Info hdr)
                                  \<lparr>Name := take (unat (hNameLength hdr - 1)) nameBuf\<rparr>;
                                content = section_reader (r_r r) (r_pos r) (unat (hFileSize hdr))
                            in (Ret \<lparr>ReadCloser = Some (NewReadCloser content), rec_Info = info\<rparr>,
                                r\<lparr>r_pos := round4 (r_pos r + int (unat (hFileSize hdr)))\<rparr>))))))"

section \<open>Alignment\<close>

lemma round4_eq: "round4 n = 4 * ((n + 3) div 4)"
proof -
  have 3: "(3 :: int) = mask 2" by (simp add: mask_eq_exp_minus_1)
  have "x AND NOT 3 = push_bit 2 (drop_bit 2 x)" for x :: int
    unfolding 3 by (rule bit_eqI) (auto simp: bit_simps simp del: add_2_eq_Suc)
  then show ?thesis
    by (simp add: round4_def push_bit_eq_mult drop_bit_eq_div)
qed

lemma round4_bounds: "n \<le> round4 n" "round4 n < n + 4" "4 dvd round4 n"
  unfolding round4_eq by presburger+

lemma round4_add: "4 dvd p \<Longrightarrow> round4 (p + k) = p + round4 k"
  unfolding round4_eq by presburger

lemma round4_aligned: "4 dvd p \<Longrightarrow> round4 p = p"
  unfolding round4_eq by presburger

definition padding :: "int \<Rightarrow> bytes" where
  "padding n = replicate (nat (round4 n - n)) CHR 0x00"

lemma length_padding: "int (length (padding n)) = round4 n - n"
  using round4_bounds(1) [of n] by (simp add: padding_def)

lemma padding_add: "4 dvd p \<Longrightarrow> padding (p + k) = padding k"
  by (simp add: padding_def round4_add)

lemma aligned_padded: "4 dvd int (n + length (padding (int n)))"
  using round4_bounds(3) [of "int n"] by (simp add: length_padding)

section \<open>Writing to a buffer\<close>

definition grown :: "bytes writer \<Rightarrow> bytes \<Rightarrow> bytes writer" where
  "grown w b = w\<lparr>w_sink := w_sink w @ b, w_pos := w_pos w + int (length b)\<rparr>"

lemma grown_simps [simp]:
  "w_magic (grown w b) = w_magic w"
  "w_sink (grown w b) = w_sink w @ b"
  "w_pos (grown w b) = w_pos w + int (length b)"
  "grown (grown w a) b = grown w (a @ b)"
  "grown w [] = w"
  by (simp_all add: grown_def)

lemma and_then_Inr [simp]: "and_then (Inr x, w) f = f x w"
  by (simp add: and_then_def)

lemma Write_buf [simp]: "Write buf_write b w = (Inr (length b), grown w b)"
  by (simp add: Write_def buf_write_def grown_def)

lemma pad_buf: "pad buf_write w = (Inr (), grown w (padding (w_pos w)))"
proof -
  have "nat (round4 (w_pos w) - w_pos w) \<le> 3"
    using round4_bounds(2) [of "w_pos w"] by simp
  then have "take (nat (round4 (w_pos w) - w_pos w)) (replicate 3 CHR 0x00) = padding (w_pos w)"
    by (simp add: padding_def min_def)
  then show ?thesis by (simp add: pad_def Let_def) (simp add: padding_def)
qed

lemma copy_data_buf: "copy_data buf_write d m w = (Inr (m + length d), grown w d)"
proof (induction "length d" arbitrary: d m w rule: less_induct)
  case less
  show ?case
  proof (cases "d = []")
    case True
    then show ?thesis by (simp add: copy_data.simps)
  next
    case False
    then have "length (drop copyBuf d) < length d" by (simp add: copyBuf_def)
    from less [OF this] False show ?thesis
      by (simp add: copy_data.simps [of _ d] del: length_drop length_take)
         (simp add: min_def)
  qed
qed

lemma io_Copy_buf:
  "s_err st = None \<Longrightarrow> io_Copy buf_write st w = (Inr (length (s_data st)), grown w (s_data st))"
  by (simp add: io_Copy_def copy_data_buf)

definition record_data :: "Record \<Rightarrow> bytes" where
  "record_data f = (case ReadCloser f of None \<Rightarrow> [] | Some st \<Rightarrow> s_data st)"

definition record_head :: "Record \<Rightarrow> bytes" where
  "record_head f =
     newcMagic @ ToUpper (hex_Encode (enc_header (record_header f))) @ rec_Name f @ [CHR 0x00]"

definition record_image :: "Record \<Rightarrow> bytes" where
  "record_image f =
     record_head f @ padding (int (length (record_head f))) @
     record_data f @ padding (int (length (record_data f)))"

definition readable :: "Record \<Rightarrow> bool" where
  "readable f = (case ReadCloser f of None \<Rightarrow> True | Some st \<Rightarrow> s_err st = None \<and> s_close st = None)"

lemma record_image_aligned: "4 dvd int (length (record_image f))"
proof -
  have "int (length (record_image f)) =
      int (length (record_head f) + length (padding (int (length (record_head f))))) +
      int (length (record_data f) + length (padding (int (length (record_data f)))))"
    by (simp add: record_image_def)
  then show ?thesis
    by (simp only: dvd_add [OF aligned_padded aligned_padded])
qed

lemma WriteRecord_buf:
  assumes "readable f" and "w_magic w = newcMagic" and "4 dvd w_pos w"
  shows "WriteRecord buf_write f w = (Inr (), grown w (record_image f))"
proof -
  let ?h = "record_head f" and ?d = "record_data f"
  let ?w = "grown w (?h @ padding (int (length ?h)))"
  have pad0: "padding (w_pos w + int (length ?h)) = padding (int (length ?h))"
    by (rule padding_add [OF assms(3)])
  have "4 dvd w_pos ?w"
    using assms(3) aligned_padded [of "length ?h"] by (simp add: add.assoc)
  then have pad1: "padding (w_pos ?w + int (length ?d)) = padding (int (length ?d))"
    by (rule padding_add)
  have [simp]: "padding 0 = []" by (simp add: padding_def round4_def)
  show ?thesis
    using assms pad0 pad1
    by (cases "ReadCloser f")
       (simp_all add: WriteRecord_def pad_buf io_Copy_buf record_image_def record_data_def
          record_head_def readable_def algebra_simps split: option.splits)
qed

section \<open>Reading back\<close>

definition fits32 :: "u64 \<Rightarrow> bool" where
  "fits32 x \<longleftrightarrow> unat x < 2 ^ 32"

definition info_fits :: "Info \<Rightarrow> bool" where
  "info_fits i \<longleftrightarrow>
     list_all fits32 [Ino i, Mode i, UID i, GID i, NLink i, MTime i, FileSize i,
       Major i, Minor i, Rmajor i, Rminor i] \<and> length (Name i) + 1 < 2 ^ 32"

text \<open>
  The records the format can represent: metadata in 32 bits and a declared size that is the
  size of the content.
\<close>

definition newc_ok :: "Record \<Rightarrow> bool" where
  "newc_ok f \<longleftrightarrow>
     info_fits (rec_Info f) \<and> readable f \<and>
     (ReadCloser f \<noteq> None \<longrightarrow> unat (FileSize (rec_Info f)) = length (record_data f))"

text \<open>The record as a reader sees it: the device number is not stored.\<close>

definition as_read :: "Record \<Rightarrow> Record" where
  "as_read f =
     \<lparr>ReadCloser = Some (NewBytesReadCloser (record_data f)),
      rec_Info = (rec_Info f)\<lparr>Dev := 0, FileSize := word_of_nat (length (record_data f))\<rparr>\<rparr>"

lemma ucast_fits32: "fits32 x \<Longrightarrow> ucast (ucast x :: u32) = x"
  by (simp add: fits32_def word_unat_eq_iff unsigned_ucast_eq unsigned_take_bit_eq
      take_bit_nat_eq_self)

lemma Read_file:
  assumes "r_r r = file_at d" and "r_pos r = int p" and "p + n \<le> length d"
  shows "Read n r = (Inr (take n (drop p d)), r\<lparr>r_pos := int (p + n)\<rparr>)"
  using assms by (simp add: Read_def file_at_def)

lemma Read_file_eof:
  assumes "r_r r = file_at d" and "r_pos r = int p" and "length d < p + n" and "0 < n"
  shows "Read n r = (Inl EOF, r)"
  using assms by (auto simp: Read_def file_at_def Let_def)

definition reader_on :: "bytes \<Rightarrow> nat \<Rightarrow> reader" where
  "reader_on d p = \<lparr>r_magic = newcMagic, r_r = file_at d, r_pos = int p\<rparr>"

lemma header_Info_record_header:
  assumes "newc_ok f"
  shows "(header_Info (record_header f))\<lparr>Name := rec_Name f\<rparr> = rec_Info (as_read f)"
    and "unat (hFileSize (record_header f)) = length (record_data f)"
    and "unat (hNameLength (record_header f)) = length (rec_Name f) + 1"
proof -
  have fs: "fits32 (FileSize (rec_Info f))" and nl: "length (rec_Name f) + 1 < 2 ^ 32"
    using assms by (auto simp: newc_ok_def info_fits_def)
  show 3: "unat (hNameLength (record_header f)) = length (rec_Name f) + 1"
    using nl by (auto simp: record_header_def headerFromInfo_def Let_def unat_word_ariths
       unsigned_of_nat take_bit_nat_eq_self)
  show 2: "unat (hFileSize (record_header f)) = length (record_data f)"
  proof (cases "ReadCloser f")
    case None
    then show ?thesis by (simp add: record_header_def record_data_def)
  next
    case (Some st)
    then have "unat (hFileSize (record_header f)) = unat (FileSize (rec_Info f))"
      using fs by (simp add: record_header_def headerFromInfo_def fits32_def
         unsigned_ucast_eq take_bit_nat_eq_self)
    with Some assms show ?thesis by (simp add: newc_ok_def)
  qed
  have "word_of_nat (length (record_data f)) = FileSize (rec_Info f)" if "ReadCloser f \<noteq> None"
    using assms that by (simp add: newc_ok_def) (metis of_nat_unat ucast_id)
  with assms 2 show "(header_Info (record_header f))\<lparr>Name := rec_Name f\<rparr> = rec_Info (as_read f)"
    by (auto simp: header_Info_def record_header_def headerFromInfo_def as_read_def Let_def
        newc_ok_def info_fits_def ucast_fits32 record_data_def)
qed


lemma file_at_mid: "file_at (a @ b @ c) (length b) (int (length a)) = (b, None)"
  by (simp add: file_at_def)

lemma Read_at:
  "Read (length b) (reader_on (a @ b @ c) (length a)) =
     (Inr b, reader_on (a @ b @ c) (length a + length b))"
  by (simp add: Read_def reader_on_def file_at_mid)

lemma ReadAligned_at:
  "ReadAligned (length b) (reader_on (a @ b @ c) (length a)) =
     (Inr b, reader_on (a @ b @ c) (nat (round4 (int (length a + length b)))))"
  using round4_bounds(1) [of "int (length a + length b)"]
  by (simp add: ReadAligned_def Read_at) (simp add: reader_on_def)

lemma nat_round4_padding: "nat (round4 (int n)) = n + length (padding (int n))"
  using length_padding [of "int n"] by simp

lemma reader_on_simps [simp]:
  "r_r (reader_on d p) = file_at d"
  "r_pos (reader_on d p) = int p"
  "r_magic (reader_on d p) = newcMagic"
  "(reader_on d p)\<lparr>r_pos := int m\<rparr> = reader_on d m"
  by (simp_all add: reader_on_def)

text \<open>A header at the reader's position: what is left of \<^verbatim>\<open>ReadRecord\<close> after decoding it.\<close>

lemma ReadRecord_header:
  fixes h pre post
  defines "hb \<equiv> newcMagic @ ToUpper (hex_Encode (enc_header h))"
  shows "ReadRecord (reader_on (pre @ hb @ post) (length pre)) =
    (case ReadAligned (unat (hNameLength h)) (reader_on (pre @ hb @ post) (length (pre @ hb))) of
       (Inl e, r) \<Rightarrow> (Fail e, r)
     | (Inr nameBuf, r) \<Rightarrow>
         if unat (hNameLength h - 1) > length nameBuf then (Panic ''slice bounds out of range'', r)
         else
           (Ret \<lparr>ReadCloser = Some (NewReadCloser
                   (section_reader (r_r r) (r_pos r) (unat (hFileSize h)))),
                 rec_Info = (header_Info h)\<lparr>Name := take (unat (hNameLength h - 1)) nameBuf\<rparr>\<rparr>,
            r\<lparr>r_pos := round4 (r_pos r + int (unat (hFileSize h)))\<rparr>))"
proof -
  have "2 * headerSize + magicLen = length hb"
    by (simp add: hb_def newc_hdr.enc_width magicLen_def newcMagic_def)
  then have "Read (2 * headerSize + magicLen) (reader_on (pre @ hb @ post) (length pre)) =
      (Inr hb, reader_on (pre @ hb @ post) (length (pre @ hb)))"
    by (simp only: Read_at length_append)
  moreover have "take magicLen hb = newcMagic"
    "drop magicLen hb = ToUpper (hex_Encode (enc_header h))"
    by (simp_all add: hb_def magicLen_def newcMagic_def)
  moreover have "binary_read headerSize dec_header (enc_header h) = Inr (h, [])"
    using newc_hdr.read_enc [of h "[]"] by simp
  ultimately show ?thesis
    unfolding ReadRecord_def Let_def by (simp add: hex_Decode_upper_Encode del: length_append)
qed

lemma ReadRecord_zero_name:
  assumes "hNameLength h = 0"
  shows "fst (ReadRecord (reader_on
      (pre @ (newcMagic @ ToUpper (hex_Encode (enc_header h))) @ post) (length pre))) =
    Panic ''slice bounds out of range''"
proof -
  have "ReadAligned 0 (reader_on d p) = (Inr [], (reader_on d p)\<lparr>r_pos := round4 (int p)\<rparr>)" for d p
    by (simp add: ReadAligned_def Read_def file_at_def)
  moreover have "0 < unat (- 1 :: u32)" by (simp add: unat_gt_0)
  ultimately show ?thesis
    using assms by (simp only: ReadRecord_header) simp
qed

lemma ReadRecord_eof:
  assumes "length d < p + (2 * headerSize + magicLen)"
  shows "ReadRecord (reader_on d p) = (Fail EOF, reader_on d p)"
  using assms Read_file_eof [of "reader_on d p" d p "2 * headerSize + magicLen"]
  by (simp add: ReadRecord_def magicLen_def)

lemma ReadRecord_image:
  assumes ok: "newc_ok f" and al: "4 dvd int (length pre)"
  shows "ReadRecord (reader_on (pre @ record_image f @ post) (length pre)) =
    (Ret (as_read f),
     reader_on (pre @ record_image f @ post) (length pre + length (record_image f)))"
proof -
  let ?d = "pre @ record_image f @ post" and ?c = "record_data f"
  let ?h = "newcMagic @ ToUpper (hex_Encode (enc_header (record_header f)))"
  let ?n = "rec_Name f @ [CHR 0x00]"
  let ?p1 = "padding (int (length (record_head f)))" and ?p2 = "padding (int (length ?c))"
  let ?a = "pre @ ?h @ ?n @ ?p1"
  have head: "record_head f = ?h @ ?n" by (simp add: record_head_def)
  have d: "?d = pre @ ?h @ ?n @ ?p1 @ ?c @ ?p2 @ post"
    by (simp add: record_image_def head)
  have p1: "nat (round4 (int (length (pre @ ?h) + length ?n))) = length ?a"
    using al padding_add [of "int (length pre)" "int (length (record_head f))"]
      nat_round4_padding [of "length pre + length (record_head f)"]
    by (simp add: head algebra_simps)
  have nl: "unat (hNameLength (record_header f)) = length ?n"
    by (simp add: header_Info_record_header(3) [OF ok])
  have name: "ReadAligned (unat (hNameLength (record_header f)))
      (reader_on ?d (length (pre @ ?h))) = (Inr ?n, reader_on ?d (length ?a))"
    using ReadAligned_at [of ?n "pre @ ?h" "?p1 @ ?c @ ?p2 @ post"]
    by (simp only: nl p1 d append_assoc)
  have content: "section_reader (file_at ?d) (int (length ?a))
      (unat (hFileSize (record_header f))) = (?c, None)"
    using file_at_mid [of ?a ?c "?p2 @ post"]
    by (simp only: section_reader_def header_Info_record_header(2) [OF ok] d append_assoc) simp
  have "int (length ?a) = int (length pre) + int (length (record_head f) + length ?p1)"
    by (simp add: head)
  then have "4 dvd int (length ?a)"
    by (simp only: dvd_add [OF al aligned_padded])
  then have pos: "round4 (int (length ?a) + int (length ?c)) =
      int (length pre + length (record_image f))"
    by (simp only: round4_add) (simp add: record_image_def head length_padding)
  have "unat (hNameLength (record_header f) - 1) = length (rec_Name f)"
    using nl by (subst unat_minus_one) auto
  then show ?thesis
    using ReadRecord_header [of pre "record_header f" "?n @ ?p1 @ ?c @ ?p2 @ post"]
      header_Info_record_header(1,2) [OF ok] name content pos
    unfolding d [symmetric]
    by (simp add: as_read_def NewReadCloser_def NewBytesReadCloser_def
        del: length_append append_assoc) simp
qed

end
