(* ===== verification/Cpio.thy ===== *)
theory Cpio
  imports Newc
begin

text \<open>
  \<^verbatim>\<open>src/pkg/cpio/cpio.go\<close>: the format registry, and the archive reader and writer over
  the \<^verbatim>\<open>RecordReader\<close> and \<^verbatim>\<open>RecordWriter\<close> interfaces. The interfaces are the
  locale \<open>record_format\<close>; the newc format of \<open>Newc\<close> is shown to implement it, and the archive
  round trip is proved once over the locale.
\<close>

section \<open>Format registry\<close>

record 'f registry =
  formatMap :: "string \<rightharpoonup> 'f"
  formats :: "string list"

text \<open>A second registration of a name is \<^verbatim>\<open>log.Fatalf\<close>.\<close>

definition AddFormat :: "string \<Rightarrow> 'f \<Rightarrow> 'f registry \<Rightarrow> 'f registry outcome" where
  "AddFormat name f g =
     (case formatMap g name of
        Some _ \<Rightarrow> Panic ''cpio: two requests for format %s''
      | None \<Rightarrow> Ret (g\<lparr>formatMap := (formatMap g)(name \<mapsto> f), formats := formats g @ [name]\<rparr>))"

definition Format :: "string \<Rightarrow> 'f registry \<Rightarrow> goerr + 'f" where
  "Format name g =
     (case formatMap g name of
        None \<Rightarrow> Inl (Errorf ''Format %v is not one of %v'')
      | Some op \<Rightarrow> Inr op)"

section \<open>Reader\<close>

definition Reader_ReadRecord ::
    "('r \<Rightarrow> Record outcome \<times> 'r) \<Rightarrow> 'r \<Rightarrow> Record outcome \<times> 'r" where
  "Reader_ReadRecord rd r =
     (case rd r of
        (Ret rec, r') \<Rightarrow> if rec_Name rec = Trailer then (Fail EOF, r') else (Ret rec, r')
      | (Fail e, r') \<Rightarrow> (Fail e, r')
      | (Panic s, r') \<Rightarrow> (Panic s, r'))"

text \<open>\<^verbatim>\<open>ReadRecords\<close>: \<open>None\<close> when the reader never reports an error or the end.\<close>

partial_function (option) ReadRecords ::
    "('r \<Rightarrow> Record outcome \<times> 'r) \<Rightarrow> 'r \<Rightarrow> Record list \<Rightarrow> (Record list outcome \<times> 'r) option" where
  "ReadRecords rd r files =
     (case Reader_ReadRecord rd r of
        (Ret f, r') \<Rightarrow> ReadRecords rd r' (files @ [f])
      | (Fail e, r') \<Rightarrow> Some (if e = EOF then Ret files else Fail e, r')
      | (Panic s, r') \<Rightarrow> Some (Panic s, r'))"

section \<open>Writer\<close>

record 'w Writer =
  rw :: 'w
  alreadyWritten :: "string set"

definition newArchive :: "'w \<Rightarrow> 'w Writer" where
  "newArchive w = \<lparr>rw = w, alreadyWritten = {}\<rparr>"

definition set_Name :: "string \<Rightarrow> Record \<Rightarrow> Record" where
  "set_Name n f = f\<lparr>rec_Info := (rec_Info f)\<lparr>Name := n\<rparr>\<rparr>"

definition Writer_WriteRecord ::
    "(Record \<Rightarrow> 'w \<Rightarrow> (goerr + unit) \<times> 'w) \<Rightarrow> Record \<Rightarrow> 'w Writer \<Rightarrow> (goerr + unit) \<times> 'w Writer"
  where
  "Writer_WriteRecord wr rec w =
     (case (if is_abs (rec_Name rec) then Rel ''/'' (rec_Name rec) else Inr (rec_Name rec)) of
        Inl _ \<Rightarrow> (Inl (Errorf ''Can't make %s relative to /?''), w)
      | Inr name \<Rightarrow>
          if name \<in> alreadyWritten w then (Inr (), w)
          else (case wr (set_Name name rec) (rw w) of
                  (res, s) \<Rightarrow> (res, w\<lparr>alreadyWritten := insert name (alreadyWritten w), rw := s\<rparr>)))"

fun WriteRecords ::
    "(Record \<Rightarrow> 'w \<Rightarrow> (goerr + unit) \<times> 'w) \<Rightarrow> Record list \<Rightarrow> 'w Writer \<Rightarrow> (goerr + unit) \<times> 'w Writer"
  where
  "WriteRecords wr [] w = (Inr (), w)"
| "WriteRecords wr (f # fs) w =
     (case Writer_WriteRecord wr f w of
        (Inl e, w') \<Rightarrow> (Inl (Errorf ''WriteRecords: writing %q got %v''), w')
      | (Inr _, w') \<Rightarrow> WriteRecords wr fs w')"

definition WriteTrailer ::
    "(Record \<Rightarrow> 'w \<Rightarrow> (goerr + unit) \<times> 'w) \<Rightarrow> 'w Writer \<Rightarrow> (goerr + unit) \<times> 'w Writer" where
  "WriteTrailer wr w = Writer_WriteRecord wr TrailerRecord w"

partial_function (option) Concat ::
    "(Record \<Rightarrow> 'w \<Rightarrow> (goerr + unit) \<times> 'w) \<Rightarrow> ('r \<Rightarrow> Record outcome \<times> 'r) \<Rightarrow> (Record \<Rightarrow> Record) option \<Rightarrow>
     'r \<Rightarrow> 'w Writer \<Rightarrow> (unit outcome \<times> 'w Writer) option" where
  "Concat wr rd transform r w =
     (case Reader_ReadRecord rd r of
        (Fail e, r') \<Rightarrow> Some (if e = EOF then Ret () else Fail e, w)
      | (Panic s, r') \<Rightarrow> Some (Panic s, w)
      | (Ret f, r') \<Rightarrow>
          (case Writer_WriteRecord wr (case transform of None \<Rightarrow> f | Some t \<Rightarrow> t f) w of
             (Inl e, w') \<Rightarrow> Some (Fail e, w')
           | (Inr _, w') \<Rightarrow> Concat wr rd transform r' w'))"

definition MakeReproducible :: "Record \<Rightarrow> Record" where
  "MakeReproducible file = file\<lparr>rec_Info := (rec_Info file)\<lparr>MTime := 0\<rparr>\<rparr>"

definition MakeAllReproducible :: "Record list \<Rightarrow> Record list" where
  "MakeAllReproducible files = map MakeReproducible files"

section \<open>What an archive holds\<close>

text \<open>
  The records \<^verbatim>\<open>WriteRecords\<close> stores: absolute names are made relative, and of the records
  with the same name only the first is kept.
\<close>

definition relative :: "Record \<Rightarrow> Record" where
  "relative f =
     (if is_abs (rec_Name f)
      then (case Rel ''/'' (rec_Name f) of Inl _ \<Rightarrow> f | Inr n \<Rightarrow> set_Name n f) else f)"

fun archived :: "string set \<Rightarrow> Record list \<Rightarrow> Record list" where
  "archived S [] = []"
| "archived S (f # fs) =
     (if rec_Name (relative f) \<in> S then archived S fs
      else relative f # archived (insert (rec_Name (relative f)) S) fs)"

lemma rec_Name_set_Name [simp]: "rec_Name (set_Name n f) = n"
  by (simp add: set_Name_def)

lemma set_Name_same: "set_Name (rec_Name f) f = f"
  by (simp add: set_Name_def)

lemma relative_not_abs: "\<not> is_abs (rec_Name (relative f))"
  using Rel_root [of "rec_Name f"]
  by (auto simp: relative_def local_path_def)

lemma Writer_WriteRecord_eq:
  "Writer_WriteRecord wr f w =
     (let g = relative f
      in if rec_Name g \<in> alreadyWritten w then (Inr (), w)
         else (case wr g (rw w) of
                 (res, s) \<Rightarrow>
                   (res, w\<lparr>alreadyWritten := insert (rec_Name g) (alreadyWritten w), rw := s\<rparr>)))"
proof (cases "is_abs (rec_Name f)")
  case True
  then obtain n where "Rel ''/'' (rec_Name f) = Inr n"
    using Rel_root by blast
  with True show ?thesis by (simp add: Writer_WriteRecord_def relative_def)
next
  case False
  then show ?thesis by (simp add: Writer_WriteRecord_def relative_def set_Name_same)
qed

lemma archived_names:
  "distinct (map rec_Name (archived S fs)) \<and> S \<inter> rec_Name ` set (archived S fs) = {}"
  by (induction S fs rule: archived.induct) auto

lemma archived_subset: "set (archived S fs) \<subseteq> relative ` set fs"
  by (induction S fs rule: archived.induct) auto

lemma archived_not_abs: "f \<in> set (archived S fs) \<Longrightarrow> \<not> is_abs (rec_Name f)"
  by (induction S fs rule: archived.induct) (auto simp: relative_not_abs split: if_splits)

section \<open>The record format interface\<close>

text \<open>
  What \<^verbatim>\<open>cpio.go\<close> relies on of a \<^verbatim>\<open>RecordFormat\<close>: writing an acceptable record
  succeeds and appends its image; reading at the start of an image gives the record as stored and
  leaves the reader behind the image; at the end of the data the reader reports
  \<^verbatim>\<open>io.EOF\<close>.
\<close>

locale record_format =
  fixes wr :: "Record \<Rightarrow> 'w \<Rightarrow> (goerr + unit) \<times> 'w"
    and rd :: "'r \<Rightarrow> Record outcome \<times> 'r"
    and image :: "Record \<Rightarrow> bytes"
    and stored :: "Record \<Rightarrow> Record"
    and ok :: "Record \<Rightarrow> bool"
    and out :: "'w \<Rightarrow> bytes"
    and winv :: "'w \<Rightarrow> bool"
    and on :: "bytes \<Rightarrow> nat \<Rightarrow> 'r"
    and boundary :: "bytes \<Rightarrow> bool"
  assumes write_ok:
      "ok f \<Longrightarrow> winv w \<Longrightarrow> \<exists>w'. wr f w = (Inr (), w') \<and> winv w' \<and> out w' = out w @ image f"
    and read_ok: "ok f \<Longrightarrow> boundary pre \<Longrightarrow>
      rd (on (pre @ image f @ post) (length pre)) =
        (Ret (stored f), on (pre @ image f @ post) (length pre + length (image f)))"
    and read_end: "rd (on d (length d)) = (Fail EOF, on d (length d))"
    and boundary_Nil: "boundary []"
    and boundary_image: "ok f \<Longrightarrow> boundary pre \<Longrightarrow> boundary (pre @ image f)"
    and stored_name: "rec_Name (stored f) = rec_Name f"
    and trailer_ok: "ok TrailerRecord"
begin

lemma WriteRecords_out:
  assumes "winv (rw w)" and "\<forall>f \<in> set (archived (alreadyWritten w) fs). ok f"
  shows "\<exists>w'. WriteRecords wr fs w = (Inr (), w') \<and> winv (rw w') \<and>
    out (rw w') = out (rw w) @ enc_list image (archived (alreadyWritten w) fs) \<and>
    alreadyWritten w' = alreadyWritten w \<union> rec_Name ` relative ` set fs"
  using assms
proof (induction fs arbitrary: w)
  case Nil
  then show ?case by simp
next
  case (Cons f fs)
  show ?case
  proof (cases "rec_Name (relative f) \<in> alreadyWritten w")
    case True
    with Cons.IH [of w] Cons.prems show ?thesis
      by (auto simp: Writer_WriteRecord_eq)
  next
    case False
    with Cons.prems write_ok [of "relative f" "rw w"] obtain s where
      s: "wr (relative f) (rw w) = (Inr (), s)" "winv s" "out s = out (rw w) @ image (relative f)"
      by auto
    let ?w = "w\<lparr>alreadyWritten := insert (rec_Name (relative f)) (alreadyWritten w), rw := s\<rparr>"
    have "Writer_WriteRecord wr f w = (Inr (), ?w)"
      using False s(1) by (simp add: Writer_WriteRecord_eq)
    moreover from False s(2) Cons.prems(2) obtain w' where
      "WriteRecords wr fs ?w = (Inr (), w')" "winv (rw w')"
      "out (rw w') = out s @ enc_list image (archived (alreadyWritten ?w) fs)"
      "alreadyWritten w' = alreadyWritten ?w \<union> rec_Name ` relative ` set fs"
      using Cons.IH [of ?w] by auto
    ultimately show ?thesis using False s(3) by auto
  qed
qed

lemma relative_trailer: "relative TrailerRecord = TrailerRecord"
  by (simp add: relative_def TrailerRecord_def StaticRecord_def Trailer_def)

lemma WriteTrailer_out:
  assumes "winv (rw w)" and "Trailer \<notin> alreadyWritten w"
  shows "\<exists>w'. WriteTrailer wr w = (Inr (), w') \<and> out (rw w') = out (rw w) @ image TrailerRecord"
proof -
  have name: "rec_Name TrailerRecord = Trailer"
    by (simp add: TrailerRecord_def StaticRecord_def)
  from write_ok [OF trailer_ok assms(1)] obtain s where
    "wr TrailerRecord (rw w) = (Inr (), s)" "out s = out (rw w) @ image TrailerRecord"
    by auto
  with assms(2) show ?thesis
    by (simp add: WriteTrailer_def Writer_WriteRecord_eq relative_trailer name)
qed

text \<open>Reading a sequence of images that ends with the trailer, whatever follows it.\<close>

lemma ReadRecords_images:
  assumes "\<forall>f \<in> set fs. ok f \<and> rec_Name f \<noteq> Trailer" and "boundary pre"
  shows "\<exists>r. ReadRecords rd (on (pre @ enc_list image fs @ image TrailerRecord @ post) (length pre)) acc =
    Some (Ret (acc @ map stored fs), r)"
  using assms
proof (induction fs arbitrary: pre acc)
  case Nil
  have "rec_Name (stored TrailerRecord) = Trailer"
    by (simp add: stored_name) (simp add: TrailerRecord_def StaticRecord_def)
  with read_ok [OF trailer_ok Nil.prems(2), of post] show ?case
    by (simp add: ReadRecords.simps Reader_ReadRecord_def)
next
  case (Cons f fs)
  let ?d = "pre @ image f @ enc_list image fs @ image TrailerRecord @ post"
  from Cons.prems have f: "ok f" "rec_Name (stored f) \<noteq> Trailer"
    by (auto simp: stored_name)
  from boundary_image [OF f(1) Cons.prems(2)] Cons.prems(1)
    Cons.IH [of "pre @ image f" "acc @ [stored f]"]
  have "\<exists>r. ReadRecords rd (on ?d (length pre + length (image f))) (acc @ [stored f]) =
      Some (Ret (acc @ map stored (f # fs)), r)"
    by simp
  with read_ok [OF f(1) Cons.prems(2), of "enc_list image fs @ image TrailerRecord @ post"] f(2)
  show ?case
    by (simp add: ReadRecords.simps [of _ "on ?d (length pre)"] Reader_ReadRecord_def)
qed

text \<open>Writing records and the trailer, then reading the bytes back.\<close>

lemma archive_roundtrip:
  assumes "winv w" and "out w = []"
    and "\<forall>f \<in> set (archived {} fs). ok f" and "Trailer \<notin> rec_Name ` relative ` set fs"
  shows "\<exists>w1 w2 r. WriteRecords wr fs (newArchive w) = (Inr (), w1) \<and>
    WriteTrailer wr w1 = (Inr (), w2) \<and>
    ReadRecords rd (on (out (rw w2) @ post) 0) [] = Some (Ret (map stored (archived {} fs)), r)"
proof -
  from WriteRecords_out [of "newArchive w" fs] assms obtain w1 where
    w1: "WriteRecords wr fs (newArchive w) = (Inr (), w1)" "winv (rw w1)"
      "out (rw w1) = enc_list image (archived {} fs)"
      "alreadyWritten w1 = rec_Name ` relative ` set fs"
    by (auto simp: newArchive_def)
  from WriteTrailer_out [OF w1(2)] w1(3,4) assms(4) obtain w2 where
    w2: "WriteTrailer wr w1 = (Inr (), w2)"
      "out (rw w2) = enc_list image (archived {} fs) @ image TrailerRecord"
    by auto
  have "\<forall>f \<in> set (archived {} fs). ok f \<and> rec_Name f \<noteq> Trailer"
    using assms(3,4) archived_subset [of "{}" fs] by (force simp: image_iff)
  from ReadRecords_images [OF this boundary_Nil, of post "[]"] w1(1) w2 show ?thesis
    by simp
qed

text \<open>\<^verbatim>\<open>Concat\<close> of such an archive writes the transformed records, one at a time.\<close>

lemma Concat_images:
  assumes "\<forall>f \<in> set fs. ok f \<and> rec_Name f \<noteq> Trailer" and "boundary pre"
    and "WriteRecords wr (map (\<lambda>f. case tr of None \<Rightarrow> stored f | Some t \<Rightarrow> t (stored f)) fs) w =
      (Inr (), w')"
  shows "Concat wr rd tr (on (pre @ enc_list image fs @ image TrailerRecord @ post) (length pre)) w =
    Some (Ret (), w')"
  using assms
proof (induction fs arbitrary: pre w)
  case Nil
  have "rec_Name (stored TrailerRecord) = Trailer"
    by (simp add: stored_name) (simp add: TrailerRecord_def StaticRecord_def)
  with read_ok [OF trailer_ok Nil.prems(2), of post] Nil.prems(3) show ?case
    by (simp add: Concat.simps Reader_ReadRecord_def)
next
  case (Cons f fs)
  let ?d = "pre @ image f @ enc_list image fs @ image TrailerRecord @ post"
  let ?g = "case tr of None \<Rightarrow> stored f | Some t \<Rightarrow> t (stored f)"
  from Cons.prems have f: "ok f" "rec_Name (stored f) \<noteq> Trailer"
    by (auto simp: stored_name)
  from Cons.prems(3) obtain w1 where w1: "Writer_WriteRecord wr ?g w = (Inr (), w1)"
    by (auto split: prod.splits sum.splits)
  with Cons.prems boundary_image [OF f(1) Cons.prems(2)] Cons.IH [of "pre @ image f" w1]
  have "Concat wr rd tr (on ?d (length pre + length (image f))) w1 = Some (Ret (), w')"
    by simp
  with read_ok [OF f(1) Cons.prems(2), of "enc_list image fs @ image TrailerRecord @ post"] f(2) w1
  show ?case
    by (simp add: Concat.simps [of _ _ _ "on ?d (length pre)"] Reader_ReadRecord_def)
qed

end

section \<open>newc implements the interface\<close>

definition newc_winv :: "bytes writer \<Rightarrow> bool" where
  "newc_winv w \<longleftrightarrow> w_magic w = newcMagic \<and> w_pos w = int (length (w_sink w)) \<and> 4 dvd w_pos w"

interpretation newc: record_format "WriteRecord buf_write" ReadRecord record_image as_read newc_ok
  w_sink newc_winv reader_on "\<lambda>pre. 4 dvd int (length pre)"
proof unfold_locales
  fix f :: Record and w :: "bytes writer"
  assume "newc_ok f" and "newc_winv w"
  then show "\<exists>w'. WriteRecord buf_write f w = (Inr (), w') \<and> newc_winv w' \<and>
      w_sink w' = w_sink w @ record_image f"
    using record_image_aligned [of f]
    by (auto simp: WriteRecord_buf newc_ok_def newc_winv_def)
next
  show "ReadRecord (reader_on d (length d)) = (Fail EOF, reader_on d (length d))" for d
    by (rule ReadRecord_eof) (simp add: magicLen_def)
next
  show "newc_ok TrailerRecord"
    by (simp add: newc_ok_def info_fits_def fits32_def readable_def record_data_def zero_info_def
        TrailerRecord_def StaticRecord_def NewBytesReadCloser_def Trailer_def)
next
  show "4 dvd int (length (pre @ record_image f))" if "4 dvd int (length pre)" for pre f
    using dvd_add [OF that record_image_aligned] by simp
qed (simp_all add: ReadRecord_image as_read_def)

section \<open>Properties\<close>

text \<open>The writer that keeps the records it is given, in order.\<close>

definition tape :: "Record \<Rightarrow> Record list \<Rightarrow> (goerr + unit) \<times> Record list" where
  "tape f fs = (Inr (), fs @ [f])"

lemma WriteRecords_tape:
  "\<exists>w'. WriteRecords tape fs w = (Inr (), w') \<and> rw w' = rw w @ archived (alreadyWritten w) fs"
proof (induction fs arbitrary: w)
  case Nil
  then show ?case by simp
next
  case (Cons f fs)
  let ?w = "w\<lparr>alreadyWritten := insert (rec_Name (relative f)) (alreadyWritten w),
               rw := rw w @ [relative f]\<rparr>"
  show ?case using Cons [of w] Cons [of ?w]
    by (auto simp: Writer_WriteRecord_eq tape_def Let_def)
qed

lemma relative_local: "is_abs (rec_Name f) \<Longrightarrow> local_path (rec_Name (relative f))"
  using Rel_root [of "rec_Name f"] by (auto simp: relative_def)

lemma relative_id: "\<not> is_abs (rec_Name f) \<Longrightarrow> relative f = f"
  by (simp add: relative_def)

text \<open>
  C1. Writing records with \<^verbatim>\<open>cpio.WriteRecords\<close> and \<^verbatim>\<open>cpio.WriteTrailer\<close> through the
  newc writer and reading the bytes with \<^verbatim>\<open>cpio.ReadRecords\<close> gives the records back: one
  record per name, in order, with metadata, name and content, whatever follows the trailer. The
  records must fit the format (metadata below \<open>2 ^ 32\<close>, declared size the size of the content) and
  none may be called like the trailer.
\<close>

theorem newc_archive_roundtrip:
  assumes "\<forall>f \<in> set (archived {} fs). newc_ok f" and "Trailer \<notin> rec_Name ` relative ` set fs"
  shows "\<exists>w1 w2 r.
    WriteRecords (WriteRecord buf_write) fs (newArchive (newWriter newcMagic [])) = (Inr (), w1) \<and>
    WriteTrailer (WriteRecord buf_write) w1 = (Inr (), w2) \<and>
    ReadRecords ReadRecord (newReader newcMagic (file_at (w_sink (rw w2) @ post))) [] =
      Some (Ret (map as_read (archived {} fs)), r)"
  using newc.archive_roundtrip [of "newWriter newcMagic []" fs post] assms
  by (simp add: newc_winv_def newWriter_def newReader_def reader_on_def)

definition sample_info :: Info where
  "sample_info = zero_info\<lparr>Ino := 7, Mode := 0x81A4, NLink := 1, MTime := 99, FileSize := 2, Name := ''/a//b''\<rparr>"

theorem newc_archive_roundtrip_witness:
  "let fs = [StaticRecord ''hi'' sample_info, StaticRecord ''no'' (sample_info\<lparr>Name := ''a/b''\<rparr>)]
   in \<exists>w1 w2 r.
    WriteRecords (WriteRecord buf_write) fs (newArchive (newWriter newcMagic [])) = (Inr (), w1) \<and>
    WriteTrailer (WriteRecord buf_write) w1 = (Inr (), w2) \<and>
    ReadRecords ReadRecord (newReader newcMagic (file_at (w_sink (rw w2) @ ''junk''))) [] =
      Some (Ret (map as_read [StaticRecord ''hi'' (sample_info\<lparr>Name := ''a/b''\<rparr>)]), r)"
proof -
  let ?fs = "[StaticRecord ''hi'' sample_info, StaticRecord ''no'' (sample_info\<lparr>Name := ''a/b''\<rparr>)]"
  have a: "archived {} ?fs = [StaticRecord ''hi'' (sample_info\<lparr>Name := ''a/b''\<rparr>)]" by code_simp
  have "\<forall>f \<in> set (archived {} ?fs). newc_ok f" unfolding a
    by (simp add: newc_ok_def info_fits_def fits32_def readable_def record_data_def zero_info_def
        sample_info_def StaticRecord_def NewBytesReadCloser_def)
  moreover have "Trailer \<notin> rec_Name ` relative ` set ?fs" by code_simp
  ultimately show ?thesis
    using newc_archive_roundtrip [of ?fs "''junk''"] unfolding a Let_def by blast
qed

text \<open>
  C3. Whatever records \<^verbatim>\<open>WriteRecords\<close> is given, the names it hands to the format are
  pairwise different and relative, each is the name of an input record made relative, and a name
  that was absolute has no \<^verbatim>\<open>..\<close> left that could leave the root.
\<close>

theorem archive_names:
  "\<exists>w'. WriteRecords tape fs (newArchive []) = (Inr (), w') \<and>
    distinct (map rec_Name (rw w')) \<and> \<not> list_ex (\<lambda>f. is_abs (rec_Name f)) (rw w') \<and>
    rec_Name ` set (rw w') = rec_Name ` relative ` set fs \<and>
    list_all (\<lambda>f. if is_abs (rec_Name f) then local_path (rec_Name (relative f))
                  else relative f = f) fs"
proof -
  have "rec_Name ` set (archived S fs) = rec_Name ` relative ` set fs - S" for S
    by (induction S fs rule: archived.induct) auto
  from this [of "{}"] WriteRecords_tape [of fs "newArchive []"] archived_names [of "{}" fs]
    archived_not_abs [of _ "{}" fs]
  show ?thesis
    by (auto simp: newArchive_def list_ex_iff list_all_iff relative_local relative_id)
qed

text \<open>
  A newc header whose name length is zero crashes the reader: \<^verbatim>\<open>ReadRecord\<close> slices
  the name with \<^verbatim>\<open>nameBuf[:hdr.NameLength-1]\<close>, and the subtraction wraps.
\<close>

lemma newc_zero_name_panics:
  assumes "hNameLength h = 0"
  shows "fst (ReadRecord (reader_on
      (pre @ (newcMagic @ ToUpper (hex_Encode (enc_header h))) @ post) (length pre))) =
    Panic ''slice bounds out of range''"
  using assms by (rule ReadRecord_zero_name)

definition zero_header :: header where
  "zero_header = (record_header TrailerRecord)\<lparr>hNameLength := 0\<rparr>"

end
