(* ===== verification/Go_Os.thy ===== *)
theory Go_Os
  imports Go_Strings
begin

text \<open>
  The operating system as the components see it. A call that changes the file system is a
  value of type \<open>call\<close>; the kernel is a parameter \<open>k\<close>, a function from a call and the world to
  the call's error and the new world, so every theorem holds for every behaviour of the kernel.
  \<open>log_kernel\<close> is a concrete kernel that records the calls and fails those of a given set.
\<close>

datatype call =
    Chmod string u32
  | Chtimes string int
  | Chown string int int
  | Lchown string int int
  | MkdirAll string u32
  | Mkdir string u32
  | Create string
  | OpenTrunc string u32
  | CopyTo string bytes
  | Mknod string u32 int
  | Symlink string string
  | Link string string
  | Remove string
  | Rename string string
  | Truncate string int
  | WriteFile string bytes u32
  | Chdir string
  | RemoveAll string
  | Mount string string string int string
  | LoopSetFd string string
  | Chroot string
  | Unmount string int
  | Kill int nat
  | InitModule bytes string
  | FinitModule string string nat
  | DeleteModule string nat
  | Sethostname string
  | Printf string "string list"

type_synonym 'w kernel = "call \<Rightarrow> 'w \<Rightarrow> goerr option \<times> 'w"

text \<open>A call whose error is returned at once by the caller.\<close>

definition sys :: "'w kernel \<Rightarrow> call \<Rightarrow> ('w \<Rightarrow> unit outcome \<times> 'w) \<Rightarrow> 'w \<Rightarrow> unit outcome \<times> 'w" where
  "sys k c f w = (case k c w of (Some e, w') \<Rightarrow> (Fail e, w') | (None, w') \<Rightarrow> f w')"

definition finish :: "'w \<Rightarrow> unit outcome \<times> 'w" where
  "finish w = (Ret (), w)"

definition log_kernel :: "call set \<Rightarrow> call list kernel" where
  "log_kernel bad c w = (if c \<in> bad then Some (Errno ''EIO'') else None, w @ [c])"

text \<open>A sequence of calls, stopped by the first error.\<close>

fun run_calls :: "'w kernel \<Rightarrow> call list \<Rightarrow> 'w \<Rightarrow> unit outcome \<times> 'w" where
  "run_calls k [] w = finish w"
| "run_calls k (c # cs) w = sys k c (run_calls k cs) w"

lemma run_calls_append:
  "run_calls k (as @ bs) w =
     (case run_calls k as w of (Ret _, w') \<Rightarrow> run_calls k bs w' | r \<Rightarrow> r)"
  by (induction as arbitrary: w) (auto simp: finish_def sys_def split: prod.splits option.splits)

lemma run_calls_log:
  "snd (run_calls (log_kernel bad) cs w) =
     w @ takeWhile (\<lambda>c. c \<notin> bad) cs @ take 1 (dropWhile (\<lambda>c. c \<notin> bad) cs)"
  by (induction cs arbitrary: w) (auto simp: finish_def sys_def log_kernel_def)

lemma run_calls_log_result:
  "fst (run_calls (log_kernel bad) cs w) =
     (if set cs \<inter> bad = {} then Ret () else Fail (Errno ''EIO''))"
  by (induction cs arbitrary: w) (auto simp: finish_def sys_def log_kernel_def)

section \<open>os.FileMode\<close>

definition ModeDir :: u32 where "ModeDir = 0x80000000"
definition ModeSymlink :: u32 where "ModeSymlink = 0x08000000"
definition ModeDevice :: u32 where "ModeDevice = 0x04000000"
definition ModeNamedPipe :: u32 where "ModeNamedPipe = 0x02000000"
definition ModeSocket :: u32 where "ModeSocket = 0x01000000"
definition ModeSetuid :: u32 where "ModeSetuid = 0x00800000"
definition ModeSetgid :: u32 where "ModeSetgid = 0x00400000"
definition ModeCharDevice :: u32 where "ModeCharDevice = 0x00200000"
definition ModeSticky :: u32 where "ModeSticky = 0x00100000"
definition ModePerm :: u32 where "ModePerm = 0x1FF"

definition ModeType :: u32 where
  "ModeType = ModeDir OR ModeSymlink OR ModeNamedPipe OR ModeSocket OR ModeDevice"

lemmas mode_defs =
  ModeDir_def ModeSymlink_def ModeDevice_def ModeNamedPipe_def ModeSocket_def ModeSetuid_def
  ModeSetgid_def ModeCharDevice_def ModeSticky_def ModePerm_def ModeType_def

definition S_IFBLK :: u32 where "S_IFBLK = 0x6000"
definition S_IFCHR :: u32 where "S_IFCHR = 0x2000"

text \<open>\<^verbatim>\<open>syscall.Stat_t\<close>, the fields the components read.\<close>

record Stat_t =
  st_Dev :: u64
  st_Ino :: u64
  st_Nlink :: u64
  st_Mode :: u32
  st_Uid :: u32
  st_Gid :: u32
  st_Rdev :: u64
  st_Size :: "64 word"
  st_Mtim :: "64 word"

text \<open>\<^verbatim>\<open>os.FileInfo.Mode\<close> of a stat buffer (\<^verbatim>\<open>os.fillFileStatFromSys\<close>).\<close>

definition stat_FileMode :: "Stat_t \<Rightarrow> u32" where
  "stat_FileMode s =
     (let m = st_Mode s;
          t = m AND 0xF000;
          ty = (if t = 0x6000 then ModeDevice
                else if t = 0x2000 then ModeDevice OR ModeCharDevice
                else if t = 0x4000 then ModeDir
                else if t = 0x1000 then ModeNamedPipe
                else if t = 0xA000 then ModeSymlink
                else if t = 0xC000 then ModeSocket
                else 0);
          sg = (if m AND 0x400 \<noteq> 0 then ModeSetgid else 0);
          su = (if m AND 0x800 \<noteq> 0 then ModeSetuid else 0);
          st = (if m AND 0x200 \<noteq> 0 then ModeSticky else 0)
      in (m AND 0x1FF) OR ty OR sg OR su OR st)"

end
