(* ===== verification/Cpio_Fs.thy ===== *)
theory Cpio_Fs
  imports Cpio Go_Os
begin

text \<open>
  \<^verbatim>\<open>src/pkg/cpio/fs_unix.go\<close>, \<^verbatim>\<open>src/pkg/cpio/sysinfo_linux.go\<close> and
  \<^verbatim>\<open>src/cmds/cpio/cpio.go\<close>: extracting records to the file system, collecting records from
  it with reproducible inode numbers, and the command's three modes.
\<close>

section \<open>Modes\<close>

definition modeTypeMask :: u64 where "modeTypeMask = 0xF000"
definition modeSocket :: u64 where "modeSocket = 0xC000"
definition modeSymlink :: u64 where "modeSymlink = 0xA000"
definition modeFile :: u64 where "modeFile = 0x8000"
definition modeBlock :: u64 where "modeBlock = 0x6000"
definition modeDir :: u64 where "modeDir = 0x4000"
definition modeChar :: u64 where "modeChar = 0x2000"
definition modeFIFO :: u64 where "modeFIFO = 0x1000"
definition modePermissions :: u32 where "modePermissions = 0x1FF"

lemmas linux_mode_defs =
  modeTypeMask_def modeSocket_def modeSymlink_def modeFile_def modeBlock_def modeDir_def
  modeChar_def modeFIFO_def modePermissions_def

definition modeMap :: "u64 \<rightharpoonup> u32" where
  "modeMap =
     [modeSocket \<mapsto> ModeSocket, modeSymlink \<mapsto> ModeSymlink, modeFile \<mapsto> 0,
      modeBlock \<mapsto> ModeDevice, modeDir \<mapsto> ModeDir, modeChar \<mapsto> ModeCharDevice,
      modeFIFO \<mapsto> ModeNamedPipe]"

definition perm :: "Record \<Rightarrow> u32" where
  "perm r = ucast (Mode (rec_Info r)) AND modePermissions"

definition dev :: "Record \<Rightarrow> int" where
  "dev r = sint (push_bit 8 (Rmajor (rec_Info r)) OR Rminor (rec_Info r))"

definition linuxModeToMode :: "u64 \<Rightarrow> goerr + u32" where
  "linuxModeToMode m =
     (case modeMap (m AND modeTypeMask) of
        Some t \<Rightarrow> Inr t
      | None \<Rightarrow> Inl (Errorf ''Invalid file type %#o''))"

section \<open>Extracting a record\<close>

definition setModes :: "'w kernel \<Rightarrow> Record \<Rightarrow> 'w \<Rightarrow> unit outcome \<times> 'w" where
  "setModes k r =
     sys k (Chmod (rec_Name r) (perm r))
       (sys k (Chtimes (rec_Name r) (sint (MTime (rec_Info r))))
         (sys k (Chown (rec_Name r) (sint (UID (rec_Info r))) (sint (GID (rec_Info r)))) finish))"

text \<open>
  \<^verbatim>\<open>CreateFile\<close>. Reading the content of a record whose \<^verbatim>\<open>ReadCloser\<close> is nil is a
  nil dereference. A read error ends the copy after the data delivered before it.
\<close>

definition CreateFile :: "'w kernel \<Rightarrow> Record \<Rightarrow> 'w \<Rightarrow> unit outcome \<times> 'w" where
  "CreateFile k f w =
     (case linuxModeToMode (Mode (rec_Info f)) of
        Inl e \<Rightarrow> (Fail e, w)
      | Inr m \<Rightarrow>
          let name = rec_Name f;
              dir = fst (path_Split name);
              body = (\<lambda>w.
                if m = ModeSocket \<or> m = ModeNamedPipe
                then (Fail (Errorf ''%q: type %v: cannot create IPC endpoints''), w)
                else if m = 0 then
                  sys k (Create name) (\<lambda>w.
                    case ReadCloser f of
                      None \<Rightarrow> (Panic ''nil pointer dereference'', w)
                    | Some st \<Rightarrow>
                        sys k (CopyTo name (s_data st)) (\<lambda>w.
                          case s_err st of Some e \<Rightarrow> (Fail e, w) | None \<Rightarrow> setModes k f w) w) w
                else if m = ModeDir then sys k (MkdirAll name (perm f)) (setModes k f) w
                else if m = ModeDevice
                then sys k (Mknod name (perm f OR S_IFBLK) (dev f)) (setModes k f) w
                else if m = ModeCharDevice
                then sys k (Mknod name (perm f OR S_IFCHR) (dev f)) (setModes k f) w
                else if m = ModeSymlink then
                  (case ReadCloser f of
                     None \<Rightarrow> (Panic ''nil pointer dereference'', w)
                   | Some st \<Rightarrow>
                       (case s_err st of
                          Some e \<Rightarrow> (Fail e, w)
                        | None \<Rightarrow> sys k (Symlink (s_data st) name) finish w))
                else (Fail (Errorf ''%v: Unknown type %#o''), w))
          in if dir \<noteq> [] \<and> (m = 0 \<or> m = ModeDevice \<or> m = ModeCharDevice \<or> m = ModeSymlink)
             then sys k (MkdirAll dir 0x1ED) body w
             else body w)"

section \<open>Inode numbers\<close>

record inode_state =
  inodeMap :: "(u64 \<times> u64) \<rightharpoonup> Info"
  inumber :: u64

definition init_inodes :: inode_state where
  "init_inodes = \<lparr>inodeMap = Map.empty, inumber = 0\<rparr>"

definition inode :: "Info \<Rightarrow> inode_state \<Rightarrow> (Info \<times> bool) \<times> inode_state" where
  "inode i s =
     (let d = (Dev i, Ino i); i = i\<lparr>Dev := 0\<rparr>
      in case inodeMap s d of
           Some j \<Rightarrow> ((i\<lparr>Ino := Ino j\<rparr>, True), s)
         | None \<Rightarrow>
             let i = i\<lparr>Ino := inumber s\<rparr>
             in ((i, False), \<lparr>inodeMap = (inodeMap s)(d \<mapsto> i), inumber = inumber s + 1\<rparr>))"

definition sysInfo :: "string \<Rightarrow> Stat_t \<Rightarrow> Info" where
  "sysInfo n s =
     \<lparr>Ino = st_Ino s, Mode = ucast (st_Mode s), UID = ucast (st_Uid s), GID = ucast (st_Gid s),
      NLink = st_Nlink s, MTime = st_Mtim s, FileSize = st_Size s, Dev = st_Dev s,
      Major = drop_bit 8 (st_Dev s), Minor = st_Dev s AND 0xFF,
      Rmajor = drop_bit 8 (st_Rdev s), Rminor = st_Rdev s AND 0xFF, Name = n\<rparr>"

text \<open>
  The file system that \<^verbatim>\<open>GetRecord\<close> reads: \<^verbatim>\<open>os.Lstat\<close>,
  \<^verbatim>\<open>os.Readlink\<close> and \<^verbatim>\<open>os.Open\<close>.
\<close>

record fs_view =
  v_Lstat :: "string \<Rightarrow> goerr + Stat_t"
  v_Readlink :: "string \<Rightarrow> goerr + string"
  v_Open :: "string \<Rightarrow> goerr + bytes"

definition GetRecord ::
    "fs_view \<Rightarrow> string \<Rightarrow> inode_state \<Rightarrow> (goerr + Record) \<times> inode_state" where
  "GetRecord v path s =
     (case v_Lstat v path of
        Inl e \<Rightarrow> (Inl e, s)
      | Inr st \<Rightarrow>
          (case inode (sysInfo path st) s of ((info, seen), s') \<Rightarrow>
             let t = stat_FileMode st AND ModeType
             in if t = 0 then
                  (Inr \<lparr>ReadCloser = (if seen then None else Some (NewDeferReadCloser (v_Open v) path)),
                        rec_Info = info\<rparr>, s')
                else if t = ModeSymlink then
                  (case v_Readlink v path of
                     Inl e \<Rightarrow> (Inl e, s')
                   | Inr l \<Rightarrow> (Inr (StaticRecord l info), s'))
                else (Inr (StaticRecord [] info), s')))"

section \<open>The command\<close>

text \<open>
  \<^verbatim>\<open>cpio i\<close>: every record is created; a failure is logged and the loop goes on. The
  result is the world, the names whose creation failed, and how the loop ended.
\<close>

partial_function (option) extract_loop ::
    "('r \<Rightarrow> Record outcome \<times> 'r) \<Rightarrow> 'w kernel \<Rightarrow> 'r \<Rightarrow> 'w \<Rightarrow> string list \<Rightarrow>
     (unit outcome \<times> 'w \<times> string list) option" where
  "extract_loop rd k r w failed =
     (case Reader_ReadRecord rd r of
        (Fail e, r') \<Rightarrow>
          Some (if e = EOF then Ret () else Fail (Errorf ''error reading records: %v''), w, failed)
      | (Panic s, r') \<Rightarrow> Some (Panic s, w, failed)
      | (Ret rec, r') \<Rightarrow>
          (case CreateFile k rec w of
             (Ret _, w') \<Rightarrow> extract_loop rd k r' w' failed
           | (Fail e, w') \<Rightarrow> extract_loop rd k r' w' (failed @ [rec_Name rec])
           | (Panic s, w') \<Rightarrow> Some (Panic s, w', failed)))"

text \<open>
  \<^verbatim>\<open>cpio o\<close>: one record per name the scanner delivers from standard input, the
  scanner's own error \<open>serr\<close>, then the trailer.
\<close>

fun create_loop ::
    "fs_view \<Rightarrow> (Record \<Rightarrow> 'w \<Rightarrow> (goerr + unit) \<times> 'w) \<Rightarrow> goerr option \<Rightarrow> string list \<Rightarrow> inode_state \<Rightarrow> 'w Writer \<Rightarrow>
     (goerr + unit) \<times> inode_state \<times> 'w Writer" where
  "create_loop v wr serr [] s w =
     (case serr of
        Some e \<Rightarrow> (Inl (Errorf ''Error reading stdin: %v''), s, w)
      | None \<Rightarrow>
          (case WriteTrailer wr w of
             (Inl e, w') \<Rightarrow> (Inl (Errorf ''Error writing trailer record: %v''), s, w')
           | (Inr _, w') \<Rightarrow> (Inr (), s, w')))"
| "create_loop v wr serr (name # names) s w =
     (case GetRecord v name s of
        (Inl e, s') \<Rightarrow> (Inl (Errorf ''Getting record of %q failed: %v''), s', w)
      | (Inr rec, s') \<Rightarrow>
          (case Writer_WriteRecord wr rec w of
             (Inl e, w') \<Rightarrow> (Inl (Errorf ''Writing record %q failed: %v''), s', w')
           | (Inr _, w') \<Rightarrow> create_loop v wr serr names s' w'))"

text \<open>\<^verbatim>\<open>cpio t\<close>: the records printed, in order.\<close>

partial_function (option) list_loop ::
    "('r \<Rightarrow> Record outcome \<times> 'r) \<Rightarrow> 'r \<Rightarrow> Info list \<Rightarrow> (unit outcome \<times> Info list) option" where
  "list_loop rd r acc =
     (case Reader_ReadRecord rd r of
        (Fail e, r') \<Rightarrow>
          Some (if e = EOF then Ret () else Fail (Errorf ''error reading records: %v''), acc)
      | (Panic s, r') \<Rightarrow> Some (Panic s, acc)
      | (Ret rec, r') \<Rightarrow> list_loop rd r' (acc @ [rec_Info rec]))"

section \<open>Extraction follows a plan of system calls\<close>

text \<open>
  The calls that extract a record of type \<open>m\<close>, in order: the parent directory when the
  archive may not hold it, the object itself, then mode, time and owner (never for a symbolic
  link, whose target they would change).
\<close>

definition extract_plan :: "u32 \<Rightarrow> Record \<Rightarrow> call list" where
  "extract_plan m f =
     (let name = rec_Name f; dir = fst (path_Split name);
          data = (case ReadCloser f of None \<Rightarrow> [] | Some st \<Rightarrow> s_data st)
      in (if dir \<noteq> [] \<and> m \<noteq> ModeDir then [MkdirAll dir 0x1ED] else []) @
         (if m = 0 then [Create name, CopyTo name data]
          else if m = ModeDir then [MkdirAll name (perm f)]
          else if m = ModeDevice then [Mknod name (perm f OR S_IFBLK) (dev f)]
          else if m = ModeCharDevice then [Mknod name (perm f OR S_IFCHR) (dev f)]
          else [Symlink data name]) @
         (if m = ModeSymlink then []
          else [Chmod name (perm f), Chtimes name (sint (MTime (rec_Info f))),
                Chown name (sint (UID (rec_Info f))) (sint (GID (rec_Info f)))]))"

lemma run_calls_Cons: "run_calls k (c # cs) = sys k c (run_calls k cs)"
  by (rule ext) simp

lemma run_calls_Nil: "run_calls k [] = finish"
  by (rule ext) simp

lemmas plan_unfold = run_calls_Cons run_calls_Nil

lemma linuxModeToMode_range:
  "linuxModeToMode m = Inr t \<Longrightarrow>
     t \<in> {0, ModeSocket, ModeSymlink, ModeDevice, ModeDir, ModeCharDevice, ModeNamedPipe}"
  by (auto simp: linuxModeToMode_def modeMap_def split: option.splits if_splits)

lemma CreateFile_runs_plan:
  assumes m: "linuxModeToMode (Mode (rec_Info f)) = Inr m"
    and "m \<noteq> ModeSocket" "m \<noteq> ModeNamedPipe"
    and st: "ReadCloser f = Some st" "s_err st = None"
  shows "CreateFile k f w = run_calls k (extract_plan m f) w"
proof -
  have "m = 0 \<or> m = ModeSymlink \<or> m = ModeDevice \<or> m = ModeDir \<or> m = ModeCharDevice"
    using linuxModeToMode_range [OF m] assms(2,3) by auto
  then show ?thesis
    by (elim disjE)
       (simp_all add: CreateFile_def m st extract_plan_def Let_def setModes_def plan_unfold mode_defs)
qed

lemma CreateFile_rejects:
  assumes "linuxModeToMode (Mode (rec_Info f)) = Inl e \<or>
    linuxModeToMode (Mode (rec_Info f)) = Inr ModeSocket \<or>
    linuxModeToMode (Mode (rec_Info f)) = Inr ModeNamedPipe"
  shows "\<exists>e. CreateFile k f w = (Fail e, w)"
  using assms by (elim disjE) (simp_all add: CreateFile_def Let_def mode_defs)

section \<open>Inode numbers are reproducible\<close>

abbreviation key :: "Info \<Rightarrow> u64 \<times> u64" where
  "key i \<equiv> (Dev i, Ino i)"

fun inodes :: "Info list \<Rightarrow> inode_state \<Rightarrow> (Info \<times> bool) list" where
  "inodes [] s = []"
| "inodes (i # is) s = (case inode i s of (r, s') \<Rightarrow> r # inodes is s')"

text \<open>\<open>one_to_one P\<close>: the pairs of \<open>P\<close> relate keys one to one.\<close>

definition one_to_one :: "('a \<times> 'b) set \<Rightarrow> bool" where
  "one_to_one P \<longleftrightarrow> (\<forall>p \<in> P. \<forall>q \<in> P. fst p = fst q \<longleftrightarrow> snd p = snd q)"

text \<open>
  What of the metadata comes from the host: the device with its parts \<^verbatim>\<open>Major\<close> and \<^verbatim>\<open>Minor\<close>, and the
  inode number. \<^verbatim>\<open>inode\<close> replaces the device and the number, but keeps the two parts; \<open>off_host\<close> drops them.
\<close>

definition erased :: "Info \<Rightarrow> Info" where
  "erased i = i\<lparr>Dev := 0, Ino := 0, Major := 0, Minor := 0\<rparr>"

definition off_host :: "Info \<times> bool \<Rightarrow> Info \<times> bool" where
  "off_host = (\<lambda>(i, seen). (i\<lparr>Major := 0, Minor := 0\<rparr>, seen))"

lemma erased_upd: "erased i = erased j \<Longrightarrow> off_host (i\<lparr>Dev := 0, Ino := n\<rparr>, b) = off_host (j\<lparr>Dev := 0, Ino := n\<rparr>, b)"
  by (cases i; cases j) (simp add: erased_def off_host_def)

definition numbered_alike :: "((u64 \<times> u64) \<times> (u64 \<times> u64)) set \<Rightarrow> inode_state \<Rightarrow> inode_state \<Rightarrow> bool" where
  "numbered_alike P s t \<longleftrightarrow>
     inumber s = inumber t \<and> dom (inodeMap s) = fst ` P \<and> dom (inodeMap t) = snd ` P \<and>
     (\<forall>p \<in> P. map_option Ino (inodeMap s (fst p)) = map_option Ino (inodeMap t (snd p)))"

lemma inode_alike:
  assumes "numbered_alike P s t" and "one_to_one (insert (key i, key j) P)"
    and "erased i = erased j"
  shows "off_host (fst (inode i s)) = off_host (fst (inode j t))"
    and "numbered_alike (insert (key i, key j) P) (snd (inode i s)) (snd (inode j t))"
proof -
  have doms: "fst ` P = dom (inodeMap s)" "snd ` P = dom (inodeMap t)"
    using assms(1) by (simp_all add: numbered_alike_def)
  have "key i \<in> fst ` P \<longleftrightarrow> key j \<in> snd ` P"
    using assms(2) by (force simp: one_to_one_def)
  then have mem: "inodeMap s (key i) = None \<longleftrightarrow> inodeMap t (key j) = None"
    unfolding doms by (simp only: domIff) blast
  show "off_host (fst (inode i s)) = off_host (fst (inode j t))"
    "numbered_alike (insert (key i, key j) P) (snd (inode i s)) (snd (inode j t))"
  proof (atomize (full), cases "inodeMap s (key i)")
    case None
    let ?a = "i\<lparr>Dev := 0, Ino := inumber s\<rparr>" and ?b = "j\<lparr>Dev := 0, Ino := inumber t\<rparr>"
    have num: "inumber s = inumber t" using assms(1) by (simp add: numbered_alike_def)
    have i: "inode i s = ((?a, False), \<lparr>inodeMap = (inodeMap s)(key i \<mapsto> ?a), inumber = inumber s + 1\<rparr>)"
      using None by (simp add: inode_def Let_def)
    have j: "inode j t = ((?b, False), \<lparr>inodeMap = (inodeMap t)(key j \<mapsto> ?b), inumber = inumber t + 1\<rparr>)"
      using None mem by (simp add: inode_def Let_def)
    have "off_host (?a, False) = off_host (?b, False)" by (simp only: num erased_upd [OF assms(3)])
    then have out: "off_host (fst (inode i s)) = off_host (fst (inode j t))" unfolding i j by (simp only: fst_conv)
    have "key i \<notin> fst ` P" "key j \<notin> snd ` P"
      unfolding doms using None mem by (simp_all add: domIff)
    then have new: "fst p \<noteq> key i" "snd p \<noteq> key j" if "p \<in> P" for p using that by force+
    have "map_option Ino (inodeMap s (fst p)) = map_option Ino (inodeMap t (snd p))" if "p \<in> P" for p
      using assms(1) that by (simp add: numbered_alike_def del: split_paired_All)
    then have "numbered_alike (insert (key i, key j) P) (snd (inode i s)) (snd (inode j t))"
      unfolding i j numbered_alike_def
      by (simp add: num new flip: doms del: split_paired_All)
    with out show "off_host (fst (inode i s)) = off_host (fst (inode j t)) \<and>
        numbered_alike (insert (key i, key j) P) (snd (inode i s)) (snd (inode j t))" by blast
  next
    case (Some a)
    with mem obtain b where b: "inodeMap t (key j) = Some b" by auto
    from Some have "key i \<in> fst ` P" unfolding doms by blast
    then obtain p where p: "p \<in> P" "fst p = key i" by auto
    with assms(2) have "snd p = key j" by (auto simp: one_to_one_def)
    with p have "(key i, key j) \<in> P" by (cases p) auto
    then have P: "insert (key i, key j) P = P" by blast
    from \<open>(key i, key j) \<in> P\<close> assms(1)
    have "map_option Ino (inodeMap s (key i)) = map_option Ino (inodeMap t (key j))"
      unfolding numbered_alike_def by fastforce
    with Some b have "Ino a = Ino b" by simp
    then have eq: "off_host (i\<lparr>Dev := 0, Ino := Ino a\<rparr>, True) = off_host (j\<lparr>Dev := 0, Ino := Ino b\<rparr>, True)"
      by (simp only: erased_upd [OF assms(3)])
    have "inode i s = ((i\<lparr>Dev := 0, Ino := Ino a\<rparr>, True), s)"
      using Some by (simp add: inode_def Let_def)
    moreover have "inode j t = ((j\<lparr>Dev := 0, Ino := Ino b\<rparr>, True), t)"
      using b by (simp add: inode_def Let_def)
    ultimately show "off_host (fst (inode i s)) = off_host (fst (inode j t)) \<and>
        numbered_alike (insert (key i, key j) P) (snd (inode i s)) (snd (inode j t))"
      using assms(1) P eq by (simp only: fst_conv snd_conv)
  qed
qed

lemma inodes_alike:
  assumes "numbered_alike P s t" and "one_to_one (P \<union> (\<lambda>(i, j). (key i, key j)) ` set ps)"
    and "\<forall>(i, j) \<in> set ps. erased i = erased j"
  shows "map off_host (inodes (map fst ps) s) = map off_host (inodes (map snd ps) t)"
  using assms
proof (induction ps arbitrary: P s t)
  case Nil
  then show ?case by simp
next
  case (Cons p ps)
  obtain i j where p: "p = (i, j)" by force
  have "one_to_one (insert (key i, key j) P)" "erased i = erased j"
    using Cons.prems(2,3) by (auto simp: p one_to_one_def)
  note step = inode_alike [OF Cons.prems(1) this]
  have "map off_host (inodes (map fst ps) (snd (inode i s))) = map off_host (inodes (map snd ps) (snd (inode j t)))"
    using Cons.prems(2,3) by (intro Cons.IH [OF step(2)]) (auto simp: p)
  with step(1) show ?case by (simp add: p case_prod_beta)
qed

lemma inodes_devices:
  "map (\<lambda>(i, seen). (Dev i, Major i, Minor i)) (inodes is s) = map (\<lambda>i. (0, Major i, Minor i)) is"
proof (induction "is" arbitrary: s)
  case (Cons i "is")
  have "(case fst (inode i s) of (i, seen) \<Rightarrow> (Dev i, Major i, Minor i)) = (0, Major i, Minor i)"
    by (simp add: inode_def Let_def split: option.split)
  with Cons show ?case by (simp add: case_prod_beta)
qed simp

lemma off_host_eq:
  assumes "map off_host as = map off_host bs"
    and "map (\<lambda>(i, seen). (Dev i, Major i, Minor i)) as = map (\<lambda>(i, seen). (Dev i, Major i, Minor i)) bs"
  shows "as = bs"
  using assms
proof (induction as arbitrary: bs)
  case (Cons a as)
  then obtain b bs' where bs: "bs = b # bs'" by (cases bs) auto
  have "a = b" using Cons.prems
    by (cases a; cases b; cases "fst a"; cases "fst b") (simp add: bs off_host_def)
  with Cons bs show ?case by simp
qed simp

text \<open>The two parts determine the device.\<close>

lemma device_parts: "drop_bit 8 a = drop_bit 8 b \<and> a AND 0xFF = b AND 0xFF \<longleftrightarrow> a = (b :: u64)"
proof -
  have "x AND 0xFF = take_bit 8 x" for x :: u64
    by (simp add: take_bit_eq_mask mask_eq_exp_minus_1)
  then show ?thesis by (metis bits_ident)
qed

lemma sysInfo_sel [simp]:
  "key (sysInfo n s) = (st_Dev s, st_Ino s)" "Major (sysInfo n s) = drop_bit 8 (st_Dev s)" "Minor (sysInfo n s) = st_Dev s AND 0xFF"
  by (simp_all add: sysInfo_def)


section \<open>Inode numbers identify files\<close>

definition numbers_distinct :: "inode_state \<Rightarrow> bool" where
  "numbers_distinct s \<longleftrightarrow>
     (\<forall>d a. inodeMap s d = Some a \<longrightarrow> unat (Ino a) < unat (inumber s)) \<and>
     (\<forall>d a d' a'. inodeMap s d = Some a \<longrightarrow> inodeMap s d' = Some a' \<longrightarrow> Ino a = Ino a' \<longrightarrow> d = d')"

lemma inode_distinct:
  assumes "numbers_distinct s" and "unat (inumber s) + 1 < 2 ^ 64"
  shows "numbers_distinct (snd (inode i s))"
    and "unat (inumber (snd (inode i s))) \<le> unat (inumber s) + 1"
    and "\<exists>a. inodeMap (snd (inode i s)) (key i) = Some a \<and> Ino (fst (fst (inode i s))) = Ino a"
    and "inodeMap s \<subseteq>\<^sub>m inodeMap (snd (inode i s))"
proof -
  have plus: "unat (inumber s + 1) = unat (inumber s) + 1"
    using assms(2) by (simp add: unat_word_ariths)
  show "numbers_distinct (snd (inode i s))"
  proof (cases "inodeMap s (key i)")
    case None
    have "Ino a \<noteq> inumber s" if "inodeMap s d = Some a" for d a
      using assms(1) that unfolding numbers_distinct_def by (metis less_irrefl)
    moreover have "unat (Ino a) < unat (inumber s) + 1" if "inodeMap s d = Some a" for d a
      using assms(1) that unfolding numbers_distinct_def by (metis trans_less_add1)
    ultimately show ?thesis
      using None assms(1)
      by (simp add: inode_def Let_def numbers_distinct_def plus del: split_paired_All) metis
  next
    case (Some a)
    with assms(1) show ?thesis by (simp add: inode_def)
  qed
  show "unat (inumber (snd (inode i s))) \<le> unat (inumber s) + 1"
    by (simp add: inode_def Let_def plus split: option.splits)
  show "\<exists>a. inodeMap (snd (inode i s)) (key i) = Some a \<and> Ino (fst (fst (inode i s))) = Ino a"
    by (simp add: inode_def Let_def split: option.splits)
  show "inodeMap s \<subseteq>\<^sub>m inodeMap (snd (inode i s))"
    by (auto simp: inode_def Let_def map_le_def split: option.splits)
qed

lemma map_le_Some: "m \<subseteq>\<^sub>m m' \<Longrightarrow> m d = Some a \<Longrightarrow> m' d = Some a"
  unfolding map_le_def by (drule bspec [of _ _ d]) (auto intro: domI)

lemma inodes_sound:
  assumes "numbers_distinct s" and "unat (inumber s) + length is < 2 ^ 64"
  shows "\<exists>t. numbers_distinct t \<and> inodeMap s \<subseteq>\<^sub>m inodeMap t \<and> length (inodes is s) = length is \<and>
    (\<forall>n < length is. \<exists>a. inodeMap t (key (is ! n)) = Some a \<and> Ino (fst (inodes is s ! n)) = Ino a)"
  using assms
proof (induction "is" arbitrary: s)
  case Nil
  then show ?case by (auto intro: exI [of _ s])
next
  case (Cons i "is")
  have b: "unat (inumber s) + 1 < 2 ^ 64" using Cons.prems(2) by simp
  note step = inode_distinct [OF Cons.prems(1) b, of i]
  have "unat (inumber (snd (inode i s))) + length is < 2 ^ 64"
    using step(2) Cons.prems(2) by (simp del: numeral_power_less_of_nat_cancel_iff)
  from Cons.IH [OF step(1) this] obtain t where
    t: "numbers_distinct t" "inodeMap (snd (inode i s)) \<subseteq>\<^sub>m inodeMap t"
       "length (inodes is (snd (inode i s))) = length is"
       "\<forall>n < length is. \<exists>a. inodeMap t (key (is ! n)) = Some a \<and>
          Ino (fst (inodes is (snd (inode i s)) ! n)) = Ino a"
    by blast
  from step(3) obtain a where a': "inodeMap (snd (inode i s)) (key i) = Some a"
    and a: "Ino (fst (fst (inode i s))) = Ino a" by blast
  from t(2) a' have "inodeMap t (key i) = Some a" by (simp only: map_le_Some)
  then have "\<exists>a. inodeMap t (key ((i # is) ! n)) = Some a \<and>
      Ino (fst (inodes (i # is) s ! n)) = Ino a" if "n < length (i # is)" for n
    using a t(4) that by (cases n) (simp_all add: case_prod_beta)
  moreover have "inodeMap s \<subseteq>\<^sub>m inodeMap t" using step(4) t(2) by (rule map_le_trans)
  ultimately show ?case using t(1,3) by (intro exI [of _ t]) (simp add: case_prod_beta)
qed

section \<open>Extraction of an archive\<close>

text \<open>The records of an archive created in order; failures are collected, a panic ends the run.\<close>

fun extract_all ::
    "'w kernel \<Rightarrow> Record list \<Rightarrow> 'w \<Rightarrow> string list \<Rightarrow> unit outcome \<times> 'w \<times> string list" where
  "extract_all k [] w failed = (Ret (), w, failed)"
| "extract_all k (f # fs) w failed =
     (case CreateFile k f w of
        (Ret _, w') \<Rightarrow> extract_all k fs w' failed
      | (Fail e, w') \<Rightarrow> extract_all k fs w' (failed @ [rec_Name f])
      | (Panic s, w') \<Rightarrow> (Panic s, w', failed))"

context record_format
begin

lemma extract_images:
  assumes "\<forall>f \<in> set fs. ok f \<and> rec_Name f \<noteq> Trailer" and "boundary pre"
  shows "extract_loop rd k (on (pre @ enc_list image fs @ image TrailerRecord @ post) (length pre)) w
      failed = Some (extract_all k (map stored fs) w failed)"
  using assms
proof (induction fs arbitrary: pre w failed)
  case Nil
  have "rec_Name (stored TrailerRecord) = Trailer"
    by (simp add: stored_name) (simp add: TrailerRecord_def StaticRecord_def)
  with read_ok [OF trailer_ok Nil.prems(2), of post] show ?case
    by (simp add: extract_loop.simps Reader_ReadRecord_def)
next
  case (Cons f fs)
  let ?d = "pre @ image f @ enc_list image fs @ image TrailerRecord @ post"
  from Cons.prems have f: "ok f" "rec_Name (stored f) \<noteq> Trailer"
    by (auto simp: stored_name)
  have "extract_loop rd k (on ?d (length pre + length (image f))) w' failed' =
      Some (extract_all k (map stored fs) w' failed')" for w' failed'
    using Cons.IH [of "pre @ image f"] Cons.prems boundary_image [OF f(1) Cons.prems(2)] by simp
  with read_ok [OF f(1) Cons.prems(2), of "enc_list image fs @ image TrailerRecord @ post"] f(2)
  show ?case
    by (simp add: extract_loop.simps [of _ _ "on ?d (length pre)"] Reader_ReadRecord_def
        split: prod.split outcome.split)
qed

end

definition extractable :: "Record \<Rightarrow> bool" where
  "extractable f \<longleftrightarrow>
     (case linuxModeToMode (Mode (rec_Info f)) of
        Inl _ \<Rightarrow> False | Inr m \<Rightarrow> m \<noteq> ModeSocket \<and> m \<noteq> ModeNamedPipe)"

definition record_plan :: "Record \<Rightarrow> call list" where
  "record_plan f = (case linuxModeToMode (Mode (rec_Info f)) of Inl _ \<Rightarrow> [] | Inr m \<Rightarrow> extract_plan m f)"

lemma CreateFile_as_read:
  assumes "extractable f"
  shows "CreateFile k (as_read f) w = run_calls k (record_plan (as_read f)) w"
proof -
  from assms obtain m where m: "linuxModeToMode (Mode (rec_Info f)) = Inr m"
      "m \<noteq> ModeSocket" "m \<noteq> ModeNamedPipe"
    by (auto simp: extractable_def split: sum.splits)
  then have r: "linuxModeToMode (Mode (rec_Info (as_read f))) = Inr m" by (simp add: as_read_def)
  have "CreateFile k (as_read f) w = run_calls k (extract_plan m (as_read f)) w"
    using r m(2,3)
    by (rule CreateFile_runs_plan [where st = "NewBytesReadCloser (record_data f)"])
       (simp_all add: as_read_def NewBytesReadCloser_def)
  with r show ?thesis by (simp add: record_plan_def)
qed

lemma extract_all_log:
  "\<forall>f \<in> set fs. extractable f \<Longrightarrow>
   extract_all (log_kernel {}) (map as_read fs) w failed =
     (Ret (), w @ concat (map (\<lambda>f. record_plan (as_read f)) fs), failed)"
proof (induction fs arbitrary: w)
  case Nil
  then show ?case by simp
next
  case (Cons f fs)
  have "run_calls (log_kernel {}) cs w = (Ret (), w @ cs)" for cs
    by (rule prod_eqI) (simp_all add: run_calls_log run_calls_log_result takeWhile_eq_all_conv [THEN iffD2]
        dropWhile_eq_Nil_conv [THEN iffD2])
  with Cons show ?case by (simp add: CreateFile_as_read)
qed

text \<open>
  C2. \<^verbatim>\<open>cpio i\<close> on an archive that \<^verbatim>\<open>cpio.WriteRecords\<close> and
  \<^verbatim>\<open>cpio.WriteTrailer\<close> wrote in newc format, on a kernel whose calls succeed: the loop ends,
  nothing is reported as failed, and the system calls are those of the plans of the stored records
  in archive order (parents, then the object, then mode, time and owner).
\<close>

theorem cpio_extract_calls:
  assumes "\<forall>f \<in> set (archived {} fs). newc_ok f \<and> extractable f"
    and "Trailer \<notin> rec_Name ` relative ` set fs"
  shows "\<exists>w1 w2.
    WriteRecords (WriteRecord buf_write) fs (newArchive (newWriter newcMagic [])) = (Inr (), w1) \<and>
    WriteTrailer (WriteRecord buf_write) w1 = (Inr (), w2) \<and>
    extract_loop ReadRecord (log_kernel {}) (newReader newcMagic (file_at (w_sink (rw w2)))) [] [] =
      Some (Ret (), concat (map (\<lambda>f. record_plan (as_read f)) (archived {} fs)), [])"
proof -
  have start: "newc_winv (rw (newArchive (newWriter newcMagic [])))"
    by (simp add: newArchive_def newWriter_def newc_winv_def)
  from newc.WriteRecords_out [OF start, of fs] assms obtain w1 where
    w1: "WriteRecords (WriteRecord buf_write) fs (newArchive (newWriter newcMagic [])) = (Inr (), w1)"
      "newc_winv (rw w1)" "w_sink (rw w1) = enc_list record_image (archived {} fs)"
      "alreadyWritten w1 = rec_Name ` relative ` set fs"
    by (auto simp: newArchive_def newWriter_def)
  from newc.WriteTrailer_out [OF w1(2)] w1(3,4) assms(2) obtain w2 where
    w2: "WriteTrailer (WriteRecord buf_write) w1 = (Inr (), w2)"
      "w_sink (rw w2) = enc_list record_image (archived {} fs) @ record_image TrailerRecord"
    by auto
  have "\<forall>f \<in> set (archived {} fs). newc_ok f \<and> rec_Name f \<noteq> Trailer"
    using assms archived_subset [of "{}" fs] by (force simp: image_iff)
  from newc.extract_images [OF this, of "[]" "log_kernel {}" "[]"] w1(1) w2
    extract_all_log [of "archived {} fs"] assms(1)
  show ?thesis by (simp add: newReader_def reader_on_def)
qed

theorem cpio_extract_calls_witness:
  "let fs = [StaticRecord ''hi'' sample_info]
   in \<exists>w1 w2.
    WriteRecords (WriteRecord buf_write) fs (newArchive (newWriter newcMagic [])) = (Inr (), w1) \<and>
    WriteTrailer (WriteRecord buf_write) w1 = (Inr (), w2) \<and>
    extract_loop ReadRecord (log_kernel {}) (newReader newcMagic (file_at (w_sink (rw w2)))) [] [] =
      Some (Ret (), [MkdirAll ''a/'' 0x1ED, Create ''a/b'', CopyTo ''a/b'' ''hi'', Chmod ''a/b'' 0x1A4,
                     Chtimes ''a/b'' 99, Chown ''a/b'' 0 0], [])"
proof -
  let ?fs = "[StaticRecord ''hi'' sample_info]"
  have a: "archived {} ?fs = [StaticRecord ''hi'' (sample_info\<lparr>Name := ''a/b''\<rparr>)]" by code_simp
  have "\<forall>f \<in> set (archived {} ?fs). newc_ok f \<and> extractable f" unfolding a
    by (simp add: newc_ok_def info_fits_def fits32_def readable_def record_data_def zero_info_def
        sample_info_def StaticRecord_def NewBytesReadCloser_def extractable_def linuxModeToMode_def
        modeMap_def linux_mode_defs mode_defs)
  moreover have "Trailer \<notin> rec_Name ` relative ` set ?fs" by code_simp
  moreover have "concat (map (\<lambda>f. record_plan (as_read f)) (archived {} ?fs)) =
      [MkdirAll ''a/'' 0x1ED, Create ''a/b'', CopyTo ''a/b'' ''hi'', Chmod ''a/b'' 0x1A4,
       Chtimes ''a/b'' 99, Chown ''a/b'' 0 0]"
    unfolding a by code_simp
  ultimately show ?thesis
    using cpio_extract_calls [of ?fs] unfolding Let_def by simp
qed

text \<open>
  C4. For every kernel, \<^verbatim>\<open>CreateFile\<close> of a record that is a regular file, directory,
  device or symbolic link runs exactly the calls of its plan and stops at the first that fails.
\<close>

theorem CreateFile_plan:
  assumes "linuxModeToMode (Mode (rec_Info f)) = Inr m" and "m \<noteq> ModeSocket" and "m \<noteq> ModeNamedPipe"
    and "ReadCloser f = Some st" and "s_err st = None"
  shows "CreateFile k f w = run_calls k (extract_plan m f) w"
  using assms by (rule CreateFile_runs_plan)

theorem CreateFile_plan_witness:
  "CreateFile (log_kernel {Create ''/a//b''}) (StaticRecord ''hi'' sample_info) [] =
     (Fail (Errno ''EIO''), [MkdirAll ''/a//'' 0x1ED, Create ''/a//b''])"
proof -
  have "CreateFile (log_kernel {Create ''/a//b''}) (StaticRecord ''hi'' sample_info) [] =
    run_calls (log_kernel {Create ''/a//b''}) (extract_plan 0 (StaticRecord ''hi'' sample_info)) []"
    by (rule CreateFile_plan [where st = "NewBytesReadCloser ''hi''"]) code_simp+
  also have "\<dots> = (Fail (Errno ''EIO''), [MkdirAll ''/a//'' 0x1ED, Create ''/a//b''])" by code_simp
  finally show ?thesis .
qed

text \<open>
  A record of unknown type, a socket or a named pipe is refused with an error and without a
  single system call.
\<close>

lemma CreateFile_refused:
  assumes "\<not> extractable f"
  shows "\<exists>e. CreateFile k f w = (Fail e, w)"
proof (cases "linuxModeToMode (Mode (rec_Info f))")
  case (Inl e)
  then show ?thesis by (intro CreateFile_rejects [of f e]) simp
next
  case (Inr m)
  with assms show ?thesis
    by (intro CreateFile_rejects [of f undefined]) (auto simp: extractable_def)
qed

text \<open>\<open>twins fs\<close>: files with their metadata on two hosts, the same but for the device and inode numbers.\<close>

definition twins :: "(string \<times> Stat_t \<times> Stat_t) list \<Rightarrow> bool" where
  "twins fs \<longleftrightarrow>
     list_all (\<lambda>(n, s, t). s\<lparr>st_Dev := 0, st_Ino := 0\<rparr> = t\<lparr>st_Dev := 0, st_Ino := 0\<rparr>) fs \<and>
     one_to_one ((\<lambda>(n, s, t). ((st_Dev s, st_Ino s), (st_Dev t, st_Ino t))) ` set fs)"

lemma sysInfo_erased:
  "s\<lparr>st_Dev := 0, st_Ino := 0\<rparr> = t\<lparr>st_Dev := 0, st_Ino := 0\<rparr> \<Longrightarrow> erased (sysInfo n s) = erased (sysInfo n t)"
  by (cases s; cases t) (simp add: erased_def sysInfo_def)

lemma twins_alike:
  assumes "twins fs"
  shows "map off_host (inodes (map (\<lambda>(n, s, t). sysInfo n s) fs) init_inodes) =
    map off_host (inodes (map (\<lambda>(n, s, t). sysInfo n t) fs) init_inodes)"
proof -
  let ?ps = "map (\<lambda>(n, s, t). (sysInfo n s, sysInfo n t)) fs"
  have "(\<lambda>(i, j). (key i, key j)) ` set ?ps = (\<lambda>(n, s, t). ((st_Dev s, st_Ino s), (st_Dev t, st_Ino t))) ` set fs"
    by (simp add: image_image case_prod_beta)
  then have "one_to_one ({} \<union> (\<lambda>(i, j). (key i, key j)) ` set ?ps)" "\<forall>(i, j) \<in> set ?ps. erased i = erased j"
    using assms by (auto simp: twins_def list_all_iff intro!: sysInfo_erased)
  from inodes_alike [OF _ this, of init_inodes init_inodes] show ?thesis
    by (simp add: numbered_alike_def init_inodes_def comp_def case_prod_unfold)
qed

text \<open>
  C5. What \<^verbatim>\<open>inode\<close> makes of the metadata of the same files on two hosts. The files correspond one to one
  and their metadata is equal apart from the device and inode numbers. Then the numbers handed out, the links
  recognized and every other field are equal, but the fields \<^verbatim>\<open>Major\<close> and \<^verbatim>\<open>Minor\<close> keep the device of the host: the results
  are the same on both hosts only if every file has the same device number on both.
\<close>

theorem inode_reproducible:
  assumes "twins fs"
  shows "map off_host (inodes (map (\<lambda>(n, s, t). sysInfo n s) fs) init_inodes) =
      map off_host (inodes (map (\<lambda>(n, s, t). sysInfo n t) fs) init_inodes) \<and>
    map (\<lambda>(i, seen). (Dev i, Major i, Minor i)) (inodes (map (\<lambda>(n, s, t). sysInfo n s) fs) init_inodes) =
      map (\<lambda>(n, s, t). (0, drop_bit 8 (st_Dev s), st_Dev s AND 0xFF)) fs \<and>
    (inodes (map (\<lambda>(n, s, t). sysInfo n s) fs) init_inodes = inodes (map (\<lambda>(n, s, t). sysInfo n t) fs) init_inodes \<longleftrightarrow>
      list_all (\<lambda>(n, s, t). st_Dev s = st_Dev t) fs)"
    (is "?alike \<and> ?dev = ?dev1 \<and> (?a = ?b \<longleftrightarrow> ?same)")
proof (intro conjI)
  let ?d = "map (\<lambda>(i :: Info, seen :: bool). (Dev i, Major i, Minor i))"
  show ?alike using assms by (rule twins_alike)
  have a: "?d ?a = map (\<lambda>(n, s, t). (0, drop_bit 8 (st_Dev s), st_Dev s AND 0xFF)) fs"
    and b: "?d ?b = map (\<lambda>(n, s, t). (0, drop_bit 8 (st_Dev t), st_Dev t AND 0xFF)) fs"
    unfolding inodes_devices by (simp_all add: case_prod_unfold)
  from a show "?dev = ?dev1" .
  have "?a = ?b \<longleftrightarrow> ?d ?a = ?d ?b" 
    by (rule iffI [OF arg_cong [of _ _ ?d] off_host_eq [OF twins_alike [OF assms]]])
  also have "\<dots> \<longleftrightarrow> ?same" unfolding a b map_eq_conv by (simp add: list_all_iff case_prod_unfold device_parts)
  finally show "?a = ?b \<longleftrightarrow> ?same" .
qed

definition a_stat :: "u64 \<Rightarrow> u64 \<Rightarrow> Stat_t" where
  "a_stat d i = \<lparr>st_Dev = d, st_Ino = i, st_Nlink = 2, st_Mode = 0x81A4, st_Uid = 0, st_Gid = 0, st_Rdev = 0, st_Size = 0, st_Mtim = 0\<rparr>"

theorem inode_reproducible_witness:
  "map (\<lambda>(i, seen). (Ino i, seen)) (inodes [sysInfo ''a'' (a_stat 0x801 5), sysInfo ''b'' (a_stat 0x802 5), sysInfo ''c'' (a_stat 0x801 5)] init_inodes) =
     [(0, False), (1, False), (0, True)] \<and>
   map off_host (inodes [sysInfo ''a'' (a_stat 0x801 5), sysInfo ''b'' (a_stat 0x802 5), sysInfo ''c'' (a_stat 0x801 5)] init_inodes) =
     map off_host (inodes [sysInfo ''a'' (a_stat 0xFD00 7), sysInfo ''b'' (a_stat 0xFD00 8), sysInfo ''c'' (a_stat 0xFD00 7)] init_inodes) \<and>
   inodes [sysInfo ''a'' (a_stat 0x801 5), sysInfo ''b'' (a_stat 0x802 5), sysInfo ''c'' (a_stat 0x801 5)] init_inodes \<noteq>
     inodes [sysInfo ''a'' (a_stat 0xFD00 7), sysInfo ''b'' (a_stat 0xFD00 8), sysInfo ''c'' (a_stat 0xFD00 7)] init_inodes"
proof -
  have "twins [(''a'', a_stat 0x801 5, a_stat 0xFD00 7), (''b'', a_stat 0x802 5, a_stat 0xFD00 8), (''c'', a_stat 0x801 5, a_stat 0xFD00 7)]"
    by (simp add: twins_def one_to_one_def a_stat_def)
  from inode_reproducible [OF this] show ?thesis
    by (simp add: a_stat_def sysInfo_def inode_def init_inodes_def Let_def)
qed

text \<open>
  The numbers identify files: two of the files processed get the same number if and only if
  they have the same device and inode number.
\<close>

lemma inode_identifies:
  assumes "length is < 2 ^ 64" and "m < length is" and "n < length is"
  shows "Ino (fst (inodes is init_inodes ! m)) = Ino (fst (inodes is init_inodes ! n)) \<longleftrightarrow>
    key (is ! m) = key (is ! n)"
proof -
  have "numbers_distinct init_inodes" by (simp add: numbers_distinct_def init_inodes_def)
  then obtain t where "numbers_distinct t"
    "\<And>n. n < length is \<Longrightarrow>
      \<exists>a. inodeMap t (key (is ! n)) = Some a \<and> Ino (fst (inodes is init_inodes ! n)) = Ino a"
    using inodes_sound [of init_inodes "is"] assms(1) by (force simp: init_inodes_def)
  with assms(2,3) show ?thesis
    unfolding numbers_distinct_def by (metis option.inject)
qed

end
