(* ===== verification/Gpt.thy ===== *)
theory Gpt
  imports Prelude
begin

text \<open>
  \<^verbatim>\<open>src/pkg/gpt/gpt.go\<close> and \<^verbatim>\<open>src/cmds/gpt/gpt.go\<close>: GUID partition
  tables. Header and entry are fixed-width structures (interpretations of the locale \<open>codec\<close>); the
  disk is read through \<^verbatim>\<open>io.ReaderAt\<close> and written through \<^verbatim>\<open>io.WriterAt\<close>.
  Offsets are computed in the 64-bit arithmetic of the source.
\<close>

section \<open>hash/crc32\<close>

definition crc_bit :: "u32 \<Rightarrow> u32" where
  "crc_bit c = (if c AND 1 \<noteq> 0 then drop_bit 1 c XOR 0xEDB88320 else drop_bit 1 c)"

definition crc_byte :: "u32 \<Rightarrow> char \<Rightarrow> u32" where
  "crc_byte c b = (crc_bit ^^ 8) (c XOR of_char b)"

definition ChecksumIEEE :: "bytes \<Rightarrow> u32" where
  "ChecksumIEEE bs = NOT (foldl crc_byte 0xFFFFFFFF bs)"

section \<open>Structures\<close>

definition BlockSize :: nat where "BlockSize = 512"
definition HeaderOff :: int where "HeaderOff = 0x200"
definition HeaderSize :: nat where "HeaderSize = 0x5c"
definition Signature :: u64 where "Signature = 0x5452415020494645"
definition Revision :: u32 where "Revision = 0x10000"
definition MaxNPart :: u32 where "MaxNPart = 0x80"

lemmas gpt_consts =
  BlockSize_def HeaderOff_def HeaderSize_def Signature_def Revision_def MaxNPart_def

record Header =
  h_Signature :: u64
  h_Revision :: u32
  h_HeaderSize :: u32
  h_CRC :: u32
  h_Reserved :: u32
  h_CurrentLBA :: u64
  h_BackupLBA :: u64
  h_FirstLBA :: u64
  h_LastLBA :: u64
  h_DiskGUID :: bytes
  h_PartStart :: u64
  h_NPart :: u32
  h_PartSize :: u32
  h_PartCRC :: u32

record Part =
  p_PartGUID :: bytes
  p_UniqueGUID :: bytes
  p_FirstLBA :: u64
  p_LastLBA :: u64
  p_Attribute :: u64
  p_Name :: bytes

record GPT =
  g_Header :: Header
  Parts :: "Part list"

definition enc_Header :: "Header \<Rightarrow> bytes" where
  "enc_Header h =
     put_le 8 (h_Signature h) @ put_le 4 (h_Revision h) @ put_le 4 (h_HeaderSize h) @
     put_le 4 (h_CRC h) @ put_le 4 (h_Reserved h) @ put_le 8 (h_CurrentLBA h) @
     put_le 8 (h_BackupLBA h) @ put_le 8 (h_FirstLBA h) @ put_le 8 (h_LastLBA h) @
     h_DiskGUID h @ put_le 8 (h_PartStart h) @ put_le 4 (h_NPart h) @ put_le 4 (h_PartSize h) @
     put_le 4 (h_PartCRC h)"

definition dec_Header :: "bytes \<Rightarrow> Header" where
  "dec_Header b =
     \<lparr>h_Signature = get_le (field b 0 8), h_Revision = get_le (field b 8 4),
      h_HeaderSize = get_le (field b 12 4), h_CRC = get_le (field b 16 4),
      h_Reserved = get_le (field b 20 4), h_CurrentLBA = get_le (field b 24 8),
      h_BackupLBA = get_le (field b 32 8), h_FirstLBA = get_le (field b 40 8),
      h_LastLBA = get_le (field b 48 8), h_DiskGUID = field b 56 16,
      h_PartStart = get_le (field b 72 8), h_NPart = get_le (field b 80 4),
      h_PartSize = get_le (field b 84 4), h_PartCRC = get_le (field b 88 4)\<rparr>"

definition partWidth :: nat where "partWidth = 128"

definition enc_Part :: "Part \<Rightarrow> bytes" where
  "enc_Part p =
     p_PartGUID p @ p_UniqueGUID p @ put_le 8 (p_FirstLBA p) @ put_le 8 (p_LastLBA p) @
     put_le 8 (p_Attribute p) @ p_Name p"

definition dec_Part :: "bytes \<Rightarrow> Part" where
  "dec_Part b =
     \<lparr>p_PartGUID = field b 0 16, p_UniqueGUID = field b 16 16, p_FirstLBA = get_le (field b 32 8),
      p_LastLBA = get_le (field b 40 8), p_Attribute = get_le (field b 48 8),
      p_Name = field b 56 72\<rparr>"

text \<open>The array fields have the lengths of their Go types.\<close>

definition wf_Header :: "Header \<Rightarrow> bool" where
  "wf_Header h \<longleftrightarrow> length (h_DiskGUID h) = 16"

definition wf_Part :: "Part \<Rightarrow> bool" where
  "wf_Part p \<longleftrightarrow>
     length (p_PartGUID p) = 16 \<and> length (p_UniqueGUID p) = 16 \<and> length (p_Name p) = 72"

interpretation gpt_hdr: codec HeaderSize enc_Header dec_Header wf_Header
  by unfold_locales
     (simp_all add: enc_Header_def dec_Header_def wf_Header_def HeaderSize_def field_def)

interpretation gpt_part: codec partWidth enc_Part dec_Part wf_Part
  by unfold_locales
     (simp_all add: enc_Part_def dec_Part_def wf_Part_def partWidth_def field_def)

section \<open>Comparison\<close>

definition EqualHeader :: "Header \<Rightarrow> Header \<Rightarrow> bool" where
  "EqualHeader p b \<longleftrightarrow>
     h_Signature p = h_Signature b \<and> h_Revision p = h_Revision b \<and>
     h_HeaderSize p = h_HeaderSize b \<and> h_CurrentLBA p = h_BackupLBA b \<and>
     h_BackupLBA p = h_CurrentLBA b \<and> h_FirstLBA p = h_FirstLBA b \<and>
     h_LastLBA p = h_LastLBA b \<and> h_DiskGUID p = h_DiskGUID b \<and> h_NPart p = h_NPart b \<and>
     h_PartSize p = h_PartSize b \<and> h_PartCRC p = h_PartCRC b"

section \<open>Reading\<close>

text \<open>
  \<^verbatim>\<open>binary.Read(io.NewSectionReader(r, off, lim), ...)\<close> of a value of \<open>w\<close> bytes. A
  \<^verbatim>\<open>ReaderAt\<close> that returns fewer bytes than asked for returns an error.
\<close>

definition read_section :: "reader_at \<Rightarrow> int \<Rightarrow> nat \<Rightarrow> nat \<Rightarrow> (bytes \<Rightarrow> 'a) \<Rightarrow> goerr + 'a" where
  "read_section r off lim w dec =
     (if lim = 0 then Inl EOF
      else (case r (min lim w) off of (b, err) \<Rightarrow>
        if length b = w then Inr (dec b)
        else (case err of
                Some EOF \<Rightarrow> Inl (if b = [] then EOF else ErrUnexpectedEOF)
              | Some e \<Rightarrow> Inl e
              | None \<Rightarrow> Inl ErrUnexpectedEOF)))"

text \<open>\<^verbatim>\<open>copy(dst[off:], src)\<close> where \<^verbatim>\<open>off <= len(dst)\<close>.\<close>

definition copy_at :: "bytes \<Rightarrow> nat \<Rightarrow> bytes \<Rightarrow> bytes" where
  "copy_at dst off src =
     take off dst @ take (length dst - off) src @ drop (off + length src) dst"

fun read_parts :: "reader_at \<Rightarrow> u64 \<Rightarrow> nat \<Rightarrow> nat \<Rightarrow> nat \<Rightarrow> goerr + Part list" where
  "read_parts r base s i 0 = Inr []"
| "read_parts r base s i (Suc n) =
     (case read_section r (sint (base + of_nat (i * s))) s partWidth dec_Part of
        Inl e \<Rightarrow> Inl (Errorf ''%s GPT partition %d failed: %v'')
      | Inr p \<Rightarrow> map_sum id (Cons p) (read_parts r base s (Suc i) n))"

definition lba_off :: "u64 \<Rightarrow> u64" where
  "lba_off lba = lba * of_nat BlockSize"

definition zap_crc :: "bytes \<Rightarrow> bytes" where
  "zap_crc hdr = copy_at hdr 16 (replicate 4 CHR 0x00)"

text \<open>
  \<^verbatim>\<open>Table\<close>: an error comes with the table as far as it was read (\<^verbatim>\<open>return g, err\<close>)
  or with nil.
\<close>

definition Table :: "reader_at \<Rightarrow> int \<Rightarrow> (GPT option \<times> goerr) + GPT" where
  "Table r off =
     (case read_section r off HeaderSize HeaderSize dec_Header of
        Inl e \<Rightarrow> Inl (None, e)
      | Inr h \<Rightarrow>
          let g = \<lparr>g_Header = h, Parts = []\<rparr>
          in if h_Signature h \<noteq> Signature
             then Inl (None, Errorf ''%s GPT signature invalid (%x), needs to be %x'')
             else if h_Revision h \<noteq> Revision
             then Inl (None, Errorf ''%s GPT revision (%x) is not supported value (%x)'')
             else if unat (h_HeaderSize h) \<noteq> HeaderSize
             then Inl (None, Errorf ''%s GPT HeaderSize (%x) is not supported value (%x)'')
             else if h_NPart h > MaxNPart
             then Inl (None, Errorf ''%s GPT MaxNPart (%x) is above maximum of %x'')
             else
               let s = unat (h_PartSize h); len = unat (h_NPart h) * s
               in case r len (sint (lba_off (h_PartStart h))) of (partBlocks, err) \<Rightarrow>
                 if length partBlocks \<noteq> len \<or> err \<noteq> None
                 then Inl (None, Errorf ''%s Reading partitions: Wanted %d bytes, got %d: %v'')
                 else if ChecksumIEEE partBlocks \<noteq> h_PartCRC h
                 then Inl (Some g, Errorf ''%s Partition CRC: Header %v, computed checksum is %08x, header has %08x'')
                 else (case r (unat (h_HeaderSize h)) off of (hdr, err) \<Rightarrow>
                   if length hdr \<noteq> unat (h_HeaderSize h) \<or> err \<noteq> None
                   then Inl (None, Errorf ''%s Reading Header: Wanted %d bytes, got %d: %v'')
                   else if ChecksumIEEE (zap_crc hdr) \<noteq> h_CRC h
                   then Inl (Some g, Errorf ''%s Header CRC: computed checksum is %08x, header has %08x'')
                   else (case read_parts r (lba_off (h_PartStart h)) s 0 (unat (h_NPart h)) of
                           Inl e \<Rightarrow> Inl (None, e)
                         | Inr ps \<Rightarrow> Inr (g\<lparr>Parts := ps\<rparr>))))"

definition gpt_New :: "reader_at \<Rightarrow> GPT option \<times> GPT option \<times> goerr option" where
  "gpt_New r =
     (case Table r HeaderOff of
        Inl (_, e) \<Rightarrow> (None, None, Some e)
      | Inr g \<Rightarrow>
          (case Table r (sint (lba_off (h_BackupLBA (g_Header g)))) of
             Inl (_, e) \<Rightarrow> (Some g, None, Some e)
           | Inr b \<Rightarrow>
               if \<not> EqualHeader (g_Header g) (g_Header b)
               then (Some g, Some b, Some (Errorf ''Primary GPT(%s) and backup GPT(%s) Header differ''))
               else if h_CRC (g_Header g) = h_CRC (g_Header b)
               then (Some g, Some b, Some (Errorf ''Primary (%v) and Backup (%v) Header CRC (%x) are the same and should differ''))
               else if Parts g \<noteq> Parts b
               then (Some b, Some g, Some (Errorf ''Primary GPT(%s) and backup GPT(%s) Parts differ''))
               else (Some g, Some b, None)))"

section \<open>Writing\<close>

fun marshal_parts :: "Part list \<Rightarrow> nat \<Rightarrow> nat \<Rightarrow> nat \<Rightarrow> bytes \<Rightarrow> bytes outcome" where
  "marshal_parts ps s i 0 h = Ret h"
| "marshal_parts ps s i (Suc n) h =
     (if length ps \<le> i then Panic ''index out of range''
      else if length h < i * s then Panic ''slice bounds out of range''
      else marshal_parts ps s (Suc i) n (copy_at h (i * s) (enc_Part (ps ! i))))"

definition gpt_Write :: "'d writer_at \<Rightarrow> GPT \<Rightarrow> 'd \<Rightarrow> unit outcome \<times> GPT \<times> 'd" where
  "gpt_Write w g d =
     (let hd0 = g_Header g; s = unat (h_PartSize hd0)
      in case marshal_parts (Parts g) s 0 (unat (h_NPart hd0))
                (replicate (unat (h_NPart hd0 * h_PartSize hd0)) CHR 0x00) of
           Panic m \<Rightarrow> (Panic m, g, d)
         | Fail e \<Rightarrow> (Fail e, g, d)
         | Ret h \<Rightarrow>
             (case w h (sint (lba_off (h_PartStart hd0))) d of
                (Some e, d1) \<Rightarrow> (Fail (Errorf ''Writing %d bytes of partition table at %v: %v''), g, d1)
              | (None, d1) \<Rightarrow>
                  let hd1 = hd0\<lparr>h_PartCRC := ChecksumIEEE h, h_CRC := 0\<rparr>;
                      h = copy_at (replicate (unat (h_HeaderSize hd1)) CHR 0x00) 0 (enc_Header hd1);
                      hd2 = hd1\<lparr>h_CRC := ChecksumIEEE h\<rparr>;
                      g2 = g\<lparr>g_Header := hd2\<rparr>
                  in if length h < 16 then (Panic ''slice bounds out of range'', g2, d1)
                     else (case w (copy_at h 16 (put_le 4 (h_CRC hd2)))
                                  (sint (lba_off (h_CurrentLBA hd2))) d1 of
                             (Some e, d2) \<Rightarrow> (Fail e, g2, d2)
                           | (None, d2) \<Rightarrow> (Ret (), g2, d2))))"

text \<open>
  The command's \<^verbatim>\<open>-w\<close>: the two tables decoded from standard input are written in turn.
  The decoder replaces the slice, so an array of fewer than two tables is an index out of range.
\<close>

definition gpt_cmd_write :: "'d writer_at \<Rightarrow> GPT list \<Rightarrow> 'd \<Rightarrow> unit outcome \<times> 'd" where
  "gpt_cmd_write w gs d =
     (case gs of
        [] \<Rightarrow> (Panic ''index out of range'', d)
      | g0 # gs' \<Rightarrow>
          (case gpt_Write w g0 d of
             (Ret _, _, d1) \<Rightarrow>
               (case gs' of
                  [] \<Rightarrow> (Panic ''index out of range'', d1)
                | g1 # _ \<Rightarrow>
                    (case gpt_Write w g1 d1 of
                       (Ret _, _, d2) \<Rightarrow> (Ret (), d2)
                     | (Fail e, _, d2) \<Rightarrow> (Fail (Errorf ''Writing %v: %v''), d2)
                     | (Panic m, _, d2) \<Rightarrow> (Panic m, d2)))
           | (Fail e, _, d1) \<Rightarrow> (Fail (Errorf ''Writing %v: %v''), d1)
           | (Panic m, _, d1) \<Rightarrow> (Panic m, d1)))"

section \<open>The layout on disk\<close>

text \<open>Entry \<open>p\<close> in a slot of \<open>s\<close> bytes, and the header with its checksums filled in.\<close>

definition slot :: "nat \<Rightarrow> Part \<Rightarrow> bytes" where
  "slot s p = enc_Part p @ replicate (s - partWidth) CHR 0x00"

definition table_image :: "GPT \<Rightarrow> bytes" where
  "table_image g = enc_list (slot (unat (h_PartSize (g_Header g)))) (Parts g)"

definition seal :: "GPT \<Rightarrow> GPT" where
  "seal g =
     (let h = (g_Header g)\<lparr>h_PartCRC := ChecksumIEEE (table_image g), h_CRC := 0\<rparr>
      in g\<lparr>g_Header := h\<lparr>h_CRC := ChecksumIEEE (enc_Header h)\<rparr>\<rparr>)"

lemma length_slot: "wf_Part p \<Longrightarrow> partWidth \<le> s \<Longrightarrow> length (slot s p) = s"
  by (simp add: slot_def gpt_part.enc_width)

lemma length_slots:
  "\<forall>p \<in> set ps. wf_Part p \<Longrightarrow> partWidth \<le> s \<Longrightarrow> length (enc_list (slot s) ps) = length ps * s"
  by (induction ps) (auto simp: length_slot)

lemma length_copy_at: "off \<le> length dst \<Longrightarrow> length (copy_at dst off src) = length dst"
  by (simp add: copy_at_def min_def)

lemma copy_at_middle:
  "length src \<le> length mid \<Longrightarrow>
   copy_at (pre @ mid) (length pre) src = pre @ src @ drop (length src) mid"
  by (simp add: copy_at_def)

lemma marshal_parts_image:
  assumes "\<forall>p \<in> set ps. wf_Part p" and "partWidth \<le> s" and "length ps = i + n" and "length pre = i * s"
  shows "marshal_parts ps s i n (pre @ replicate (n * s) CHR 0x00) =
    Ret (pre @ enc_list (slot s) (drop i ps))"
  using assms(3,4)
proof (induction n arbitrary: i pre)
  case 0
  then show ?case by simp
next
  case (Suc n)
  from Suc.prems(1) have i: "drop i ps = ps ! i # drop (Suc i) ps" by (simp add: Cons_nth_drop_Suc)
  have wf: "wf_Part (ps ! i)" using Suc.prems(1) assms(1) by simp
  have zeros: "replicate (Suc n * s) CHR 0x00 = replicate s CHR 0x00 @ replicate (n * s) CHR 0x00"
    by (simp flip: replicate_add)
  have "copy_at (pre @ replicate (Suc n * s) CHR 0x00) (i * s) (enc_Part (ps ! i)) =
      (pre @ slot s (ps ! i)) @ replicate (n * s) CHR 0x00"
    using copy_at_middle [of "enc_Part (ps ! i)" "replicate (Suc n * s) CHR 0x00" pre]
      gpt_part.enc_width [OF wf] assms(2) Suc.prems(2)
    unfolding zeros by (simp add: slot_def)
  then show ?case
    using Suc.IH [of "Suc i" "pre @ slot s (ps ! i)"] Suc.prems length_slot [OF wf assms(2)]
    by (simp add: i del: replicate_Suc)
qed

lemma unat_lba_off: "unat l * BlockSize < 2 ^ 63 \<Longrightarrow> unat (lba_off l) = unat l * BlockSize"
  by (simp add: lba_off_def BlockSize_def unat_word_ariths)

lemma sint_lba_off: "unat l * BlockSize < 2 ^ 63 \<Longrightarrow> sint (lba_off l) = int (unat l * BlockSize)"
  by (simp add: sint_small unat_lba_off)

lemma sint_base_plus:
  assumes "unat (base :: u64) + k < 2 ^ 63"
  shows "sint (base + of_nat k) = int (unat base + k)"
proof -
  have "unat (base + of_nat k) = unat base + k"
    using assms by (simp add: unat_word_ariths unat_of_nat)
  with assms show ?thesis by (simp add: sint_small)
qed

section \<open>Reading a stored table\<close>

lemma read_section_holds:
  assumes "holds d off (b @ c)" and "length b = w" and "w \<le> lim" and "0 < w"
  shows "read_section (file_at d) (int off) lim w dec = Inr (dec b)"
  using assms file_at_holds [of d off b w]
  by (simp add: read_section_def holds_append min_def)

lemma read_parts_holds:
  assumes "\<forall>p \<in> set ps. wf_Part p" and "partWidth \<le> s"
    and "unat base + (i + length ps) * s < 2 ^ 63"
    and "holds d (unat base + i * s) (enc_list (slot s) ps)"
  shows "read_parts (file_at d) base s i (length ps) = Inr ps"
  using assms
proof (induction ps arbitrary: i)
  case Nil
  then show ?case by simp
next
  case (Cons p ps)
  have wf: "wf_Part p" using Cons.prems(1) by simp
  have "unat base + i * s < 2 ^ 63"
    using Cons.prems(3) by (auto simp: algebra_simps)
  from sint_base_plus [OF this] have "sint (base + of_nat (i * s)) = int (unat base + i * s)" .
  moreover have "read_section (file_at d) (int (unat base + i * s)) s partWidth dec_Part = Inr p"
    using read_section_holds [of d "unat base + i * s" "enc_Part p" _ partWidth s dec_Part]
      Cons.prems(2,4) gpt_part.enc_width [OF wf] gpt_part.dec_enc [OF wf]
    by (auto simp: slot_def holds_append partWidth_def)
  moreover have "read_parts (file_at d) base s (Suc i) (length ps) = Inr ps"
    using Cons.prems Cons.IH [of "Suc i"] length_slot [OF wf Cons.prems(2)]
    by (simp add: holds_append algebra_simps)
  ultimately show ?case by simp
qed

lemma zap_crc_enc: "wf_Header h \<Longrightarrow> zap_crc (enc_Header h) = enc_Header (h\<lparr>h_CRC := 0\<rparr>)"
  by (simp add: zap_crc_def copy_at_def enc_Header_def wf_Header_def put_le_0)

text \<open>
  What a table must satisfy to be stored: the constants of the format, at most
  \<^verbatim>\<open>MaxNPart\<close> entries in slots that hold them, an array whose size does not wrap in 32
  bits, and offsets below \<open>2 ^ 63\<close>.
\<close>

definition storable :: "GPT \<Rightarrow> bool" where
  "storable g \<longleftrightarrow>
     (let h = g_Header g
      in wf_Header h \<and> list_all wf_Part (Parts g) \<and>
         h_Signature h = Signature \<and> h_Revision h = Revision \<and> unat (h_HeaderSize h) = HeaderSize \<and>
         h_NPart h \<le> MaxNPart \<and> length (Parts g) = unat (h_NPart h) \<and>
         partWidth \<le> unat (h_PartSize h) \<and> unat (h_NPart h) * unat (h_PartSize h) < 2 ^ 32 \<and>
         unat (h_PartStart h) * BlockSize + unat (h_NPart h) * unat (h_PartSize h) < 2 ^ 63 \<and>
         unat (h_CurrentLBA h) * BlockSize < 2 ^ 63)"

abbreviation table_off :: "GPT \<Rightarrow> nat" where
  "table_off g \<equiv> unat (h_PartStart (g_Header g)) * BlockSize"

abbreviation header_off :: "GPT \<Rightarrow> nat" where
  "header_off g \<equiv> unat (h_CurrentLBA (g_Header g)) * BlockSize"

lemma length_table_image:
  "storable g \<Longrightarrow>
   length (table_image g) = unat (h_NPart (g_Header g)) * unat (h_PartSize (g_Header g))"
  by (simp add: storable_def table_image_def Let_def length_slots list_all_iff)

lemma Table_stored:
  assumes g: "storable g"
    and hdr_at: "holds d off (enc_Header (g_Header g))"
    and table: "holds d (table_off g) (table_image g)"
    and crc: "h_PartCRC (g_Header g) = ChecksumIEEE (table_image g)"
      "h_CRC (g_Header g) = ChecksumIEEE (enc_Header ((g_Header g)\<lparr>h_CRC := 0\<rparr>))"
  shows "Table (file_at d) (int off) = Inr g"
proof -
  let ?h = "g_Header g" and ?n = "unat (h_NPart (g_Header g))" and ?s = "unat (h_PartSize (g_Header g))"
  have wf: "wf_Header ?h" and ps: "\<forall>p \<in> set (Parts g). wf_Part p"
    and fmt: "h_Signature ?h = Signature" "h_Revision ?h = Revision"
      "unat (h_HeaderSize ?h) = HeaderSize" "\<not> h_NPart ?h > MaxNPart"
    and n: "?n = length (Parts g)" and s: "partWidth \<le> ?s"
    and fits: "table_off g + ?n * ?s < 2 ^ 63"
    using g by (simp_all add: storable_def Let_def list_all_iff not_less)
  have hdr: "read_section (file_at d) (int off) HeaderSize HeaderSize dec_Header = Inr ?h"
    using read_section_holds [of d off "enc_Header ?h" "[]" HeaderSize HeaderSize dec_Header] hdr_at gpt_hdr.enc_width [OF wf]
      gpt_hdr.dec_enc [OF wf] by (simp add: HeaderSize_def)
  have base: "unat (lba_off (h_PartStart ?h)) = table_off g" "sint (lba_off (h_PartStart ?h)) = int (table_off g)"
    using fits by (simp_all add: unat_lba_off sint_lba_off)
  have blocks: "file_at d (?n * ?s) (sint (lba_off (h_PartStart ?h))) = (table_image g, None)"
    unfolding base using table by (rule file_at_holds) (simp add: length_table_image [OF g])
  have raw: "file_at d HeaderSize (int off) = (enc_Header ?h, None)"
    using hdr_at by (rule file_at_holds) (simp add: gpt_hdr.enc_width [OF wf])
  have parts: "read_parts (file_at d) (lba_off (h_PartStart ?h)) ?s 0 ?n = Inr (Parts g)"
    unfolding n using ps s fits table
    by (intro read_parts_holds) (simp_all add: base n table_image_def)
  show ?thesis
    unfolding Table_def Let_def
    by (simp add: hdr fmt blocks raw parts crc zap_crc_enc [OF wf] length_table_image [OF g]
        gpt_hdr.enc_width [OF wf])
qed

section \<open>Writing a table\<close>

text \<open>Bytes written at the two places of a table, and what else on the disk survives.\<close>

definition clear_of :: "nat \<Rightarrow> bytes \<Rightarrow> GPT \<Rightarrow> bool" where
  "clear_of off b g \<longleftrightarrow>
     (off + length b \<le> table_off g \<or> table_off g + length (table_image g) \<le> off) \<and>
     (off + length b \<le> header_off g \<or> header_off g + HeaderSize \<le> off)"

lemma seal_simps [simp]:
  "Parts (seal g) = Parts g" "table_off (seal g) = table_off g" "header_off (seal g) = header_off g"
  "table_image (seal g) = table_image g" "storable (seal g) = storable g"
  "h_PartCRC (g_Header (seal g)) = ChecksumIEEE (table_image g)"
  "h_CRC (g_Header (seal g)) = ChecksumIEEE (enc_Header ((g_Header (seal g))\<lparr>h_CRC := 0\<rparr>))"
  "h_BackupLBA (g_Header (seal g)) = h_BackupLBA (g_Header g)"
  by (simp_all add: seal_def Let_def table_image_def storable_def wf_Header_def)

lemma wf_seal: "storable g \<Longrightarrow> wf_Header (g_Header (seal g))"
  by (simp add: storable_def seal_def Let_def wf_Header_def)

lemma crc_patch:
  "wf_Header h \<Longrightarrow> copy_at (enc_Header (h\<lparr>h_CRC := 0\<rparr>)) 16 (put_le 4 c) = enc_Header (h\<lparr>h_CRC := c\<rparr>)"
  by (simp add: copy_at_def enc_Header_def wf_Header_def)

lemma gpt_Write_stores:
  assumes g: "storable g"
    and sep: "header_off g + HeaderSize \<le> table_off g \<or> table_off g + length (table_image g) \<le> header_off g"
  shows "\<exists>d'. gpt_Write file_write_at g d = (Ret (), seal g, d') \<and>
    holds d' (table_off g) (table_image g) \<and> holds d' (header_off g) (enc_Header (g_Header (seal g))) \<and>
    (\<forall>off b. holds d off b \<longrightarrow> clear_of off b g \<longrightarrow> holds d' off b)"
proof -
  let ?h = "g_Header g" and ?n = "unat (h_NPart (g_Header g))" and ?s = "unat (h_PartSize (g_Header g))"
  have wf: "wf_Header ?h" and ps: "\<forall>p \<in> set (Parts g). wf_Part p"
    and hs: "unat (h_HeaderSize ?h) = HeaderSize" and n: "length (Parts g) = ?n"
    and s: "partWidth \<le> ?s" and small: "?n * ?s < 2 ^ 32"
    and offs: "table_off g + ?n * ?s < 2 ^ 63" "header_off g < 2 ^ 63"
    using g by (simp_all add: storable_def Let_def list_all_iff)
  have size: "unat (h_NPart ?h * h_PartSize ?h) = ?n * ?s"
    using small by (simp add: unat_word_ariths)
  have marshal: "marshal_parts (Parts g) ?s 0 ?n (replicate (?n * ?s) CHR 0x00) = Ret (table_image g)"
    using marshal_parts_image [OF ps s, of 0 ?n "[]"] n by (simp add: table_image_def)
  have off: "sint (lba_off (h_PartStart ?h)) = int (table_off g)" "sint (lba_off (h_CurrentLBA ?h)) = int (header_off g)"
    using offs by (simp_all add: sint_lba_off)
  define d1 where "d1 = (if table_image g = [] then d else put_at d (table_off g) (table_image g))"
  let ?hs = "enc_Header (g_Header (seal g))"
  have len: "length ?hs = HeaderSize" by (rule gpt_hdr.enc_width [OF wf_seal [OF g]])
  have lens: "length (enc_Header (?h\<lparr>h_PartCRC := c, h_CRC := 0\<rparr>)) = HeaderSize" for c
    using wf by (intro gpt_hdr.enc_width) (simp add: wf_Header_def)
  then have copy: "copy_at (replicate HeaderSize CHR 0x00) 0 (enc_Header (?h\<lparr>h_PartCRC := c, h_CRC := 0\<rparr>)) =
      enc_Header (?h\<lparr>h_PartCRC := c, h_CRC := 0\<rparr>)" for c
    by (simp add: copy_at_def)
  define d2 where "d2 = put_at d1 (header_off g) ?hs"
  have patch: "copy_at (enc_Header (?h\<lparr>h_PartCRC := c, h_CRC := 0\<rparr>)) 16 (put_le 4 x) =
      enc_Header (?h\<lparr>h_PartCRC := c, h_CRC := x\<rparr>)" for c x
    using crc_patch [of "?h\<lparr>h_PartCRC := c\<rparr>" x] wf by (simp add: wf_Header_def)
  have w1: "file_write_at (table_image g) (sint (lba_off (h_PartStart ?h))) d = (None, d1)"
    unfolding off d1_def by (rule file_write_at_ok)
  have "?hs \<noteq> []" using len by (auto simp: HeaderSize_def)
  then have w2: "file_write_at ?hs (sint (lba_off (h_CurrentLBA ?h))) d1 = (None, d2)"
    unfolding off d2_def by (simp add: file_write_at_ok del: of_nat_mult)
  have "\<not> HeaderSize < 16" by (simp add: HeaderSize_def)
  then have "gpt_Write file_write_at g d = (Ret (), seal g, d2)"
    unfolding gpt_Write_def Let_def size marshal
    using w2 by (simp add: w1 hs copy lens patch seal_def Let_def)
  moreover have "holds d1 (table_off g) (table_image g)" by (simp add: d1_def holds_put_same)
  then have "holds d2 (table_off g) (table_image g)"
    unfolding d2_def using sep len by (intro holds_put_other) auto
  moreover have "holds d2 (header_off g) ?hs" unfolding d2_def by (rule holds_put_same)
  moreover have "holds d2 off b" if "holds d off b" "clear_of off b g" for off b
  proof -
    have "holds d1 off b" using that by (auto simp: d1_def clear_of_def intro: holds_put_other)
    then show ?thesis
      unfolding d2_def using that(2) len by (intro holds_put_other) (auto simp: clear_of_def)
  qed
  ultimately show ?thesis by blast
qed

lemma Table_seal:
  assumes "storable g" and "holds d (table_off g) (table_image g)"
    and "holds d (header_off g) (enc_Header (g_Header (seal g)))"
  shows "Table (file_at d) (int (header_off g)) = Inr (seal g)"
  using assms by (intro Table_stored) simp_all

lemma sint_header_off: "storable g \<Longrightarrow> sint (lba_off (h_CurrentLBA (g_Header g))) = int (header_off g)"
  by (rule sint_lba_off) (simp add: storable_def Let_def)

section \<open>Properties\<close>

text \<open>
  A table that \<^verbatim>\<open>Write\<close> stores is read back by \<^verbatim>\<open>Table\<close> at its header's
  offset: the same header with both checksums filled in and the same entries, whatever else is on
  the disk, when header and entry array do not overlap.
\<close>

lemma gpt_write_read:
  assumes "storable g"
    and "header_off g + HeaderSize \<le> table_off g \<or> table_off g + length (table_image g) \<le> header_off g"
  shows "\<exists>d'. gpt_Write file_write_at g d = (Ret (), seal g, d') \<and>
    Table (file_at d') (sint (lba_off (h_CurrentLBA (g_Header g)))) = Inr (seal g)"
  using gpt_Write_stores [OF assms, of d] Table_seal [OF assms(1)] sint_header_off [OF assms(1)]
  by metis

definition sample_part :: Part where
  "sample_part = \<lparr>p_PartGUID = replicate 16 CHR ''t'', p_UniqueGUID = replicate 16 CHR ''u'',
     p_FirstLBA = 34, p_LastLBA = 37, p_Attribute = 1, p_Name = replicate 72 CHR 0x00\<rparr>"

definition sample_gpt :: "u64 \<Rightarrow> u64 \<Rightarrow> u64 \<Rightarrow> GPT" where
  "sample_gpt cur bak start =
     \<lparr>g_Header = \<lparr>h_Signature = Signature, h_Revision = Revision, h_HeaderSize = 92, h_CRC = 0,
        h_Reserved = 0, h_CurrentLBA = cur, h_BackupLBA = bak, h_FirstLBA = 34, h_LastLBA = 37,
        h_DiskGUID = replicate 16 CHR ''d'', h_PartStart = start, h_NPart = 1, h_PartSize = 128,
        h_PartCRC = 0\<rparr>, Parts = [sample_part]\<rparr>"

lemmas sample_simps =
  sample_gpt_def sample_part_def storable_def wf_Header_def wf_Part_def gpt_consts partWidth_def

lemma sample_storable:
  "unat cur * 512 < 2 ^ 63 \<Longrightarrow> unat start * 512 + 128 < 2 ^ 63 \<Longrightarrow> storable (sample_gpt cur bak start)"
  by (simp add: sample_simps Let_def)

lemma sample_table: "table_image (sample_gpt cur bak start) = enc_Part sample_part"
  by (simp add: sample_gpt_def table_image_def slot_def partWidth_def)

lemma length_sample_table: "length (table_image (sample_gpt cur bak start)) = 128"
  unfolding sample_table by (simp add: enc_Part_def sample_part_def)

text \<open>
  C6. The command \<^verbatim>\<open>gpt -w\<close> followed by \<^verbatim>\<open>gpt.New\<close>: primary and backup tables
  that mirror each other and whose four areas do not overlap are written and read back without an
  error, primary first. (\<^verbatim>\<open>New\<close> insists that the two header checksums differ.)
\<close>

theorem gpt_disk_roundtrip:
  assumes "storable g" and "storable b" and "int (header_off g) = HeaderOff"
    and "EqualHeader (g_Header (seal g)) (g_Header (seal b))" and "Parts g = Parts b"
    and "h_CRC (g_Header (seal g)) \<noteq> h_CRC (g_Header (seal b))"
    and "header_off g + HeaderSize \<le> table_off g \<or> table_off g + length (table_image g) \<le> header_off g"
    and "header_off b + HeaderSize \<le> table_off b \<or> table_off b + length (table_image b) \<le> header_off b"
    and "clear_of (table_off g) (table_image g) b"
    and "clear_of (header_off g) (enc_Header (g_Header (seal g))) b"
  shows "\<exists>d'. gpt_cmd_write file_write_at [g, b] d = (Ret (), d') \<and>
    gpt_New (file_at d') = (Some (seal g), Some (seal b), None)"
proof -
  obtain d1 where d1: "gpt_Write file_write_at g d = (Ret (), seal g, d1)"
      "holds d1 (table_off g) (table_image g)" "holds d1 (header_off g) (enc_Header (g_Header (seal g)))"
    using gpt_Write_stores [OF assms(1,7), of d] by blast
  obtain d2 where d2: "gpt_Write file_write_at b d1 = (Ret (), seal b, d2)"
      "holds d2 (table_off b) (table_image b)" "holds d2 (header_off b) (enc_Header (g_Header (seal b)))"
    and keep: "\<And>off x. holds d1 off x \<Longrightarrow> clear_of off x b \<Longrightarrow> holds d2 off x"
    using gpt_Write_stores [OF assms(2,8), of d1] by blast
  have g: "Table (file_at d2) HeaderOff = Inr (seal g)"
    using Table_seal [OF assms(1) keep [OF d1(2) assms(9)] keep [OF d1(3) assms(10)]]
    by (simp only: assms(3))
  have "h_BackupLBA (g_Header (seal g)) = h_CurrentLBA (g_Header b)"
    using assms(4) by (simp add: EqualHeader_def seal_def Let_def)
  then have b: "Table (file_at d2) (sint (lba_off (h_BackupLBA (g_Header (seal g))))) = Inr (seal b)"
    using Table_seal [OF assms(2) d2(2,3)] sint_header_off [OF assms(2)] by simp
  from d1(1) d2(1) have "gpt_cmd_write file_write_at [g, b] d = (Ret (), d2)"
    by (simp add: gpt_cmd_write_def)
  moreover have "gpt_New (file_at d2) = (Some (seal g), Some (seal b), None)"
    unfolding gpt_New_def using g b assms(4-6) by simp
  ultimately show ?thesis by blast
qed

section \<open>Evaluating checksums\<close>

lemma crc_byte_unroll:
  "crc_byte c b =
     crc_bit (crc_bit (crc_bit (crc_bit (crc_bit (crc_bit (crc_bit (crc_bit (c XOR of_char b))))))))"
  by (simp add: crc_byte_def numeral_eq_Suc)

lemma drop_bit_1_of_nat: "n < 2 ^ 32 \<Longrightarrow> drop_bit 1 (word_of_nat n :: u32) = word_of_nat (n div 2)"
  by (simp add: word_unat_eq_iff unat_drop_bit_eq unsigned_of_nat take_bit_nat_eq_self drop_bit_eq_div
      unat_div_distrib)

lemma crc_bit_numeral:
  "crc_bit 0 = 0" "crc_bit 1 = 0xEDB88320"
  "(numeral k :: nat) < 2 ^ 31 \<Longrightarrow> crc_bit (numeral (Num.Bit0 k)) = numeral k"
  "(numeral k :: nat) < 2 ^ 31 \<Longrightarrow> crc_bit (numeral (Num.Bit1 k)) = numeral k XOR 0xEDB88320"
  using drop_bit_1_of_nat [of "numeral (Num.Bit0 k)"] drop_bit_1_of_nat [of "numeral (Num.Bit1 k)"]
  by (simp_all add: crc_bit_def)

lemmas crc_eval = ChecksumIEEE_def crc_byte_unroll crc_bit_numeral
lemma crc_check: "ChecksumIEEE ''123456789'' = 0xCBF43926"
  by (simp add: crc_eval)

lemma sample_table_crc: "ChecksumIEEE (enc_Part sample_part) = 0x5C8916C6"
  by (simp add: enc_Part_def sample_part_def bytes_eval) (simp add: crc_eval)

lemma sample_header_crc:
  "h_CRC (g_Header (seal (sample_gpt 1 40 2))) = 0x501D689E"
  "h_CRC (g_Header (seal (sample_gpt 40 1 38))) = 0xF32AFF33"
  unfolding seal_def Let_def sample_table sample_table_crc
  by (simp_all add: sample_gpt_def gpt_consts enc_Header_def bytes_eval) (simp_all add: crc_eval)

theorem gpt_disk_roundtrip_witness:
  "\<exists>d'. gpt_cmd_write file_write_at [sample_gpt 1 40 2, sample_gpt 40 1 38] [] = (Ret (), d') \<and>
    gpt_New (file_at d') = (Some (seal (sample_gpt 1 40 2)), Some (seal (sample_gpt 40 1 38)), None)"
proof (rule gpt_disk_roundtrip)
  show "storable (sample_gpt 1 40 2)" "storable (sample_gpt 40 1 38)"
    by (simp_all add: sample_storable)
  show "h_CRC (g_Header (seal (sample_gpt 1 40 2))) \<noteq> h_CRC (g_Header (seal (sample_gpt 40 1 38)))"
    unfolding sample_header_crc by simp
  show "EqualHeader (g_Header (seal (sample_gpt 1 40 2))) (g_Header (seal (sample_gpt 40 1 38)))"
    unfolding EqualHeader_def seal_def Let_def sample_table by (simp add: sample_gpt_def)
  have len: "length (enc_Header (g_Header (seal (sample_gpt 1 40 2)))) = 92"
    by (simp add: sample_gpt_def enc_Header_def seal_def Let_def)
  show "clear_of (header_off (sample_gpt 1 40 2)) (enc_Header (g_Header (seal (sample_gpt 1 40 2))))
      (sample_gpt 40 1 38)"
    unfolding clear_of_def len length_sample_table by (simp add: sample_gpt_def gpt_consts)
  show "clear_of (table_off (sample_gpt 1 40 2)) (table_image (sample_gpt 1 40 2)) (sample_gpt 40 1 38)"
    unfolding clear_of_def length_sample_table by (simp add: sample_gpt_def gpt_consts)
qed (simp_all add: length_sample_table, simp_all add: sample_gpt_def gpt_consts)

lemma read_section_file:
  assumes "read_section (file_at d) off w w dec = Inr x" and "0 < w"
  shows "0 \<le> off \<and> x = dec (field d (nat off) w)"
  using assms by (auto simp: read_section_def file_at_def field_def Let_def split: if_splits)

lemma map_sum_Cons_Inr: "map_sum id (Cons p) x = Inr ps \<longleftrightarrow> (\<exists>qs. x = Inr qs \<and> ps = p # qs)"
  by (cases x) auto

lemma length_read_parts: "read_parts r base s i n = Inr ps \<Longrightarrow> length ps = n"
  by (induction n arbitrary: i ps) (auto simp: map_sum_Cons_Inr split: sum.splits)

lemma file_at_ok: "file_at d n off = (b, None) \<Longrightarrow> b = field d (nat off) n"
  by (auto simp: file_at_def field_def Let_def split: if_splits)

text \<open>
  C7. What \<^verbatim>\<open>Table\<close> accepts, on any disk: the header decoded at the offset has the
  signature, revision and size of the format and at most \<^verbatim>\<open>MaxNPart\<close> entries; both
  checksums match the bytes on the disk; and there are \<^verbatim>\<open>NPart\<close> entries.
\<close>

theorem gpt_Table_sound:
  assumes "Table (file_at d) off = Inr g"
  defines "h \<equiv> g_Header g"
  shows "0 \<le> off \<and> h = dec_Header (field d (nat off) HeaderSize) \<and>
    h_Signature h = Signature \<and> h_Revision h = Revision \<and> unat (h_HeaderSize h) = HeaderSize \<and>
    h_NPart h \<le> MaxNPart \<and> length (Parts g) = unat (h_NPart h) \<and>
    ChecksumIEEE (zap_crc (field d (nat off) HeaderSize)) = h_CRC h \<and>
    ChecksumIEEE (field d (nat (sint (lba_off (h_PartStart h))))
      (unat (h_NPart h) * unat (h_PartSize h))) = h_PartCRC h"
proof -
  obtain h' where r: "read_section (file_at d) off HeaderSize HeaderSize dec_Header = Inr h'"
    using assms(1) by (auto simp: Table_def split: sum.splits)
  have off: "0 \<le> off" and h': "h' = dec_Header (field d (nat off) HeaderSize)"
    using read_section_file [OF r] by (auto simp: HeaderSize_def)
  have h: "h = h'"
    using assms(1) by (auto simp: Table_def r h_def Let_def split: sum.splits prod.splits if_splits)
  show ?thesis
    using assms(1) off unfolding h_def [symmetric]
    by (auto simp: Table_def r Let_def h h' dest!: length_read_parts file_at_ok
        split: sum.splits prod.splits if_splits)
qed

theorem gpt_Table_sound_witness:
  "let g = sample_gpt 1 40 2; d = put_at (put_at [] 1024 (table_image g)) 512 (enc_Header (g_Header (seal g)))
   in ChecksumIEEE (zap_crc (field d 512 HeaderSize)) = h_CRC (g_Header (seal g))"
proof -
  let ?g = "sample_gpt 1 40 2"
  let ?d = "put_at (put_at [] 1024 (table_image ?g)) 512 (enc_Header (g_Header (seal ?g)))"
  have off: "table_off ?g = 1024" "header_off ?g = 512" by (simp_all add: sample_gpt_def gpt_consts)
  have "length (enc_Header (g_Header (seal ?g))) = 92"
    by (simp add: sample_gpt_def enc_Header_def seal_def Let_def)
  then have "holds ?d 1024 (table_image ?g)" by (intro holds_put_other holds_put_same) simp
  moreover have "holds ?d 512 (enc_Header (g_Header (seal ?g)))" by (rule holds_put_same)
  ultimately have "Table (file_at ?d) 512 = Inr (seal ?g)"
    using Table_seal [of ?g ?d] unfolding off by (simp add: sample_storable)
  from gpt_Table_sound [OF this] show ?thesis unfolding Let_def by simp
qed

end
