(* ===== verification/Go_Strconv.thy ===== *)
theory Go_Strconv
  imports Go_Strings
begin

text \<open>
  The parts of Go's \<^verbatim>\<open>strconv\<close> the components call: digits in a base, integers with a
  sign and a range, and the round trip between printing and parsing.
\<close>

section \<open>Digits\<close>

definition digit_char :: "nat \<Rightarrow> char" where
  "digit_char d = (if d < 10 then char_of (48 + d) else char_of (87 + d))"

definition digit_value :: "char \<Rightarrow> nat option" where
  "digit_value c =
     (let n = of_char c :: nat
      in if 48 \<le> n \<and> n \<le> 57 then Some (n - 48)
         else if 97 \<le> n \<and> n \<le> 122 then Some (n - 87)
         else if 65 \<le> n \<and> n \<le> 90 then Some (n - 55)
         else None)"

lemma digit_value_char: "d < 36 \<Longrightarrow> digit_value (digit_char d) = Some d"
  by (simp add: digit_value_def digit_char_def Let_def)

definition is_digit :: "char \<Rightarrow> bool" where
  "is_digit c \<longleftrightarrow> 48 \<le> (of_char c :: nat) \<and> (of_char c :: nat) \<le> 57"

text \<open>Printing in base \<open>b\<close> (\<^verbatim>\<open>strconv.FormatUint\<close>).\<close>

function (sequential) format_nat :: "nat \<Rightarrow> nat \<Rightarrow> string" where
  "format_nat b n =
     (if n < b \<or> b < 2 then [digit_char n] else format_nat b (n div b) @ [digit_char (n mod b)])"
  by pat_completeness auto
termination
  by (relation "measure snd") (auto intro!: div_less_dividend)

declare format_nat.simps [simp del]

text \<open>Parsing in base \<open>b\<close>: \<open>None\<close> on a character that is not a digit of the base.\<close>

fun parse_digits :: "nat \<Rightarrow> string \<Rightarrow> nat \<Rightarrow> nat option" where
  "parse_digits b [] acc = Some acc"
| "parse_digits b (c # cs) acc =
     (case digit_value c of
        None \<Rightarrow> None
      | Some d \<Rightarrow> if d < b then parse_digits b cs (acc * b + d) else None)"

definition parse_nat :: "nat \<Rightarrow> string \<Rightarrow> nat option" where
  "parse_nat b s = (if s = [] then None else parse_digits b s 0)"

lemma format_nat_nonempty [simp]: "format_nat b n \<noteq> []"
  by (subst format_nat.simps) simp

lemma parse_digits_append:
  "parse_digits b (s @ t) acc =
     (case parse_digits b s acc of None \<Rightarrow> None | Some a \<Rightarrow> parse_digits b t a)"
  by (induction s arbitrary: acc) (auto split: option.splits)

lemma parse_digits_format:
  assumes "2 \<le> b" and "b \<le> 36"
  shows "parse_digits b (format_nat b n) 0 = Some n"
proof (induction n rule: less_induct)
  case (less n)
  show ?case
  proof (cases "n < b")
    case True
    with assms show ?thesis by (subst format_nat.simps) (simp add: digit_value_char)
  next
    case False
    have "n mod b < b" using assms by simp
    then have d: "digit_value (digit_char (n mod b)) = Some (n mod b)"
      using assms(2) by (intro digit_value_char) (rule less_le_trans)
    have "parse_digits b (format_nat b (n div b)) 0 = Some (n div b)"
      using less False assms by simp
    then show ?thesis
      using False assms d by (subst format_nat.simps) (simp add: parse_digits_append)
  qed
qed

lemma parse_format: "2 \<le> b \<Longrightarrow> b \<le> 36 \<Longrightarrow> parse_nat b (format_nat b n) = Some n"
  by (simp add: parse_nat_def parse_digits_format)

lemma format_nat_hd: "2 \<le> b \<Longrightarrow> b \<le> 36 \<Longrightarrow> hd (format_nat b n) \<noteq> CHR ''-'' \<and> hd (format_nat b n) \<noteq> CHR ''+''"
proof (induction n rule: less_induct)
  case (less n)
  show ?case
  proof (cases "n < b")
    case True
    with less.prems have "digit_value (digit_char n) = Some n" by (intro digit_value_char) simp
    then have "digit_char n \<noteq> CHR ''-''" "digit_char n \<noteq> CHR ''+''"
      by (auto simp: digit_value_def)
    with True show ?thesis by (subst (1 2) format_nat.simps) simp
  next
    case False
    with less show ?thesis by (subst (1 2) format_nat.simps) simp
  qed
qed

section \<open>Integers\<close>

definition Itoa :: "int \<Rightarrow> string" where
  "Itoa i = (if i < 0 then ''-'' @ format_nat 10 (nat (- i)) else format_nat 10 (nat i))"

text \<open>
  \<^verbatim>\<open>strconv.ParseInt(s, b, n)\<close> for \<open>2 \<le> b\<close>: an optional sign, digits, and a
  value that fits a signed integer of \<open>n\<close> bits. \<^verbatim>\<open>strconv.Atoi\<close> is base 10, 64 bits.
\<close>

definition ErrSyntax :: goerr where "ErrSyntax = Errorf ''invalid syntax''"
definition ErrRange :: goerr where "ErrRange = Errorf ''value out of range''"

definition parse_sign :: "string \<Rightarrow> bool \<times> string" where
  "parse_sign s =
     (case s of
        [] \<Rightarrow> (False, [])
      | c # cs \<Rightarrow> if c = CHR ''-'' then (True, cs) else if c = CHR ''+'' then (False, cs) else (False, s))"

definition ParseInt :: "nat \<Rightarrow> nat \<Rightarrow> string \<Rightarrow> goerr + int" where
  "ParseInt b w s =
     (case parse_sign s of (neg, ds) \<Rightarrow>
        (case parse_nat b ds of
           None \<Rightarrow> Inl ErrSyntax
         | Some n \<Rightarrow>
             if neg then (if n \<le> 2 ^ (w - 1) then Inr (- int n) else Inl ErrRange)
             else (if n < 2 ^ (w - 1) then Inr (int n) else Inl ErrRange)))"

definition ParseUint :: "nat \<Rightarrow> nat \<Rightarrow> string \<Rightarrow> goerr + nat" where
  "ParseUint b w s =
     (case parse_nat b s of
        None \<Rightarrow> Inl ErrSyntax
      | Some n \<Rightarrow> if n < 2 ^ w then Inr n else Inl ErrRange)"

definition Atoi :: "string \<Rightarrow> goerr + int" where
  "Atoi s = ParseInt 10 64 s"

lemma parse_sign_format: "2 \<le> b \<Longrightarrow> b \<le> 36 \<Longrightarrow> parse_sign (format_nat b n) = (False, format_nat b n)"
  using format_nat_hd [of b n] format_nat_nonempty [of b n]
  by (cases "format_nat b n") (auto simp: parse_sign_def)

lemma Atoi_Itoa: "- (2 ^ 63) \<le> i \<Longrightarrow> i < 2 ^ 63 \<Longrightarrow> Atoi (Itoa i) = Inr i"
proof (cases "i < 0")
  case True
  assume "- (2 ^ 63) \<le> i" "i < 2 ^ 63"
  with True have "nat (- i) \<le> 2 ^ 63" by simp
  with True show ?thesis
    by (simp add: Atoi_def Itoa_def ParseInt_def parse_sign_def parse_format)
next
  case False
  assume "- (2 ^ 63) \<le> i" "i < 2 ^ 63"
  with False have "nat i < 2 ^ 63" by (simp add: nat_less_iff)
  with False show ?thesis
    by (simp add: Atoi_def Itoa_def ParseInt_def parse_sign_format parse_format)
qed

lemma ParseUint_format: "2 \<le> b \<Longrightarrow> b \<le> 36 \<Longrightarrow> n < 2 ^ w \<Longrightarrow> ParseUint b w (format_nat b n) = Inr n"
  by (simp add: ParseUint_def parse_format)

lemma Atoi_range: "Atoi s = Inr i \<Longrightarrow> - (2 ^ 63) \<le> i \<and> i < 2 ^ 63"
proof -
  assume "Atoi s = Inr i"
  then obtain n where "(i = - int n \<and> n \<le> 2 ^ 63) \<or> (i = int n \<and> n < 2 ^ 63)"
    by (auto simp: Atoi_def ParseInt_def split: prod.splits option.splits if_splits)
  then show ?thesis by auto
qed

lemma format_nat_digits: "list_all is_digit (format_nat 10 n)"
proof (induction n rule: less_induct)
  case (less n)
  have d: "is_digit (digit_char k)" if "k < 10" for k
    using that by (simp add: is_digit_def digit_char_def)
  show ?case
  proof (cases "n < 10")
    case True
    then show ?thesis using d by (subst format_nat.simps) simp
  next
    case False
    then have "list_all is_digit (format_nat 10 (n div 10))" using less by simp
    with False d [of "n mod 10"] show ?thesis by (subst format_nat.simps) simp
  qed
qed

text \<open>\<^verbatim>\<open>ParseInt\<close> with base 0 (Go 1.9): the prefixes \<^verbatim>\<open>0x\<close> and \<^verbatim>\<open>0\<close> choose base 16 and 8.\<close>

definition parse_base0 :: "string \<Rightarrow> nat option" where
  "parse_base0 s =
     (case s of
        [] \<Rightarrow> None
      | c # cs \<Rightarrow>
          if c = CHR ''0'' \<and> cs \<noteq> [] \<and> (hd cs = CHR ''x'' \<or> hd cs = CHR ''X'') then parse_nat 16 (tl cs)
          else if c = CHR ''0'' then parse_digits 8 cs 0
          else parse_digits 10 s 0)"

definition ParseInt0 :: "string \<Rightarrow> goerr + int" where
  "ParseInt0 s =
     (case parse_sign s of (neg, ds) \<Rightarrow>
        (case parse_base0 ds of
           None \<Rightarrow> Inl ErrSyntax
         | Some n \<Rightarrow>
             if neg then (if n \<le> 2 ^ 63 then Inr (- int n) else Inl ErrRange)
             else (if n < 2 ^ 63 then Inr (int n) else Inl ErrRange)))"

lemma ParseInt0_range: "ParseInt0 s = Inr i \<Longrightarrow> - (2 ^ 63) \<le> i \<and> i < 2 ^ 63"
proof -
  assume "ParseInt0 s = Inr i"
  then obtain n where "(i = - int n \<and> n \<le> 2 ^ 63) \<or> (i = int n \<and> n < 2 ^ 63)"
    by (auto simp: ParseInt0_def split: prod.splits option.splits if_splits)
  then show ?thesis by auto
qed

lemma format_hd_nonzero: "n \<noteq> 0 \<Longrightarrow> hd (format_nat 10 n) \<noteq> CHR ''0''"
proof (induction n rule: less_induct)
  case (less n)
  show ?case
  proof (cases "n < 10")
    case True
    then have "(of_char (digit_char n) :: nat) = 48 + n" by (simp add: digit_char_def)
    with True less.prems show ?thesis by (subst format_nat.simps) auto
  next
    case False
    then show ?thesis using less.IH [of "n div 10"] by (subst format_nat.simps) simp
  qed
qed

lemma ParseInt0_Itoa: "0 \<le> i \<Longrightarrow> i < 2 ^ 63 \<Longrightarrow> ParseInt0 (Itoa i) = Inr i"
proof (cases "i = 0")
  case True
  have "parse_sign (Itoa 0) = (False, ''0'')" by code_simp
  then have "ParseInt0 (Itoa 0) = Inr 0" by (simp add: ParseInt0_def parse_base0_def)
  with True show ?thesis by simp
next
  case False
  assume i: "0 \<le> i" "i < 2 ^ 63"
  then have n: "nat i < 2 ^ 63" "nat i \<noteq> 0" using False by auto
  obtain c cs where f: "format_nat 10 (nat i) = c # cs" using format_nat_nonempty by (meson list.exhaust)
  have "c \<noteq> CHR ''0''" using format_hd_nonzero [OF n(2)] f by simp
  then have "parse_base0 (format_nat 10 (nat i)) = Some (nat i)"
    using parse_digits_format [of 10 "nat i"] f by (simp add: parse_base0_def)
  with n i show ?thesis by (simp add: ParseInt0_def Itoa_def parse_sign_format)
qed

definition ParseUint0 :: "nat \<Rightarrow> string \<Rightarrow> goerr + nat" where
  "ParseUint0 w s =
     (case parse_base0 s of
        None \<Rightarrow> Inl ErrSyntax
      | Some n \<Rightarrow> if n < 2 ^ w then Inr n else Inl ErrRange)"

lemma ParseUint0_range: "ParseUint0 w s = Inr n \<Longrightarrow> n < 2 ^ w"
  by (auto simp: ParseUint0_def split: option.splits if_splits)

end
