(* ===== verification/Fmap.thy ===== *)
theory Fmap
  imports Go_Strconv
begin

text \<open>
  \<^verbatim>\<open>src/cmds/fmap/lib/fmap.go\<close> and \<^verbatim>\<open>src/cmds/fmap/fmap.go\<close>: flash maps.
  The map is found in a flash image by its signature; header and areas are fixed-width structures
  without padding (locale \<open>exact_codec\<close>).
\<close>

section \<open>Searching bytes\<close>

text \<open>\<^verbatim>\<open>bytes.Index\<close>, and \<^verbatim>\<open>bytes.Count\<close>, which skips each match it counts.\<close>

fun bytes_Index :: "bytes \<Rightarrow> bytes \<Rightarrow> nat option" where
  "bytes_Index s sep =
     (if take (length sep) s = sep then Some 0
      else (case s of [] \<Rightarrow> None | _ # s' \<Rightarrow> map_option Suc (bytes_Index s' sep)))"

declare bytes_Index.simps [simp del]

lemma bytes_Index_match: "bytes_Index s sep = Some i \<Longrightarrow> take (length sep) (drop i s) = sep"
proof (induction s arbitrary: i)
  case Nil
  then show ?case by (simp add: bytes_Index.simps split: if_splits)
next
  case (Cons c s)
  then show ?case
    by (cases "take (length sep) (c # s) = sep") (auto simp: bytes_Index.simps [of "c # s"])
qed

lemma bytes_Index_bound:
  assumes "bytes_Index s sep = Some i" and "sep \<noteq> []"
  shows "i + length sep \<le> length s"
proof -
  have "holds s i sep" using bytes_Index_match [OF assms(1)] by (simp add: holds_def)
  then show ?thesis using assms(2) by (rule holds_bound)
qed

lemma bytes_Index_less:
  "bytes_Index s sep = Some i \<Longrightarrow> sep \<noteq> [] \<Longrightarrow> length s - (i + length sep) < length s"
  using bytes_Index_bound [of s sep i] by (cases sep) auto

function bytes_Count :: "bytes \<Rightarrow> bytes \<Rightarrow> nat" where
  "bytes_Count s sep =
     (if sep = [] then length s + 1
      else (case bytes_Index s sep of
              None \<Rightarrow> 0
            | Some i \<Rightarrow> Suc (bytes_Count (drop (i + length sep) s) sep)))"
  by pat_completeness auto
termination
  by (relation "measure (\<lambda>(s, _). length s)") (auto intro: bytes_Index_less)

declare bytes_Count.simps [simp del]

section \<open>Structures\<close>

definition signature :: bytes where "signature = ''__FMAP__''"

definition FmapAreaStatic :: u16 where "FmapAreaStatic = 1"
definition FmapAreaCompressed :: u16 where "FmapAreaCompressed = 2"
definition FmapAreaReadOnly :: u16 where "FmapAreaReadOnly = 4"

record FMapHeader =
  f_Signature :: bytes
  f_VerMajor :: u8
  f_VerMinor :: u8
  f_Base :: u64
  f_Size :: u32
  f_Name :: bytes
  f_NAreas :: u16

record Area =
  a_Offset :: u32
  a_Size :: u32
  a_Name :: bytes
  a_Flags :: u16

record FMap =
  fm_Header :: FMapHeader
  Areas :: "Area list"

definition String_String :: "bytes \<Rightarrow> string" where
  "String_String v = trim_right v {CHR 0x00}"

text \<open>
  \<^verbatim>\<open>UnmarshalJSON\<close> after \<^verbatim>\<open>strconv.Unquote\<close>: the text is copied over the
  value's first bytes.
\<close>

definition String_set :: "string \<Rightarrow> bytes \<Rightarrow> goerr + bytes" where
  "String_set str v =
     (if length str > length v then Inl (Errorf ''String %#v is longer than 32 bytes'')
      else Inr (str @ drop (length str) v))"

definition fmapHeaderSize :: nat where "fmapHeaderSize = 56"
definition areaSize :: nat where "areaSize = 42"

definition enc_fmap_header :: "FMapHeader \<Rightarrow> bytes" where
  "enc_fmap_header h =
     f_Signature h @ put_le 1 (f_VerMajor h) @ put_le 1 (f_VerMinor h) @ put_le 8 (f_Base h) @
     put_le 4 (f_Size h) @ f_Name h @ put_le 2 (f_NAreas h)"

definition dec_fmap_header :: "bytes \<Rightarrow> FMapHeader" where
  "dec_fmap_header b =
     \<lparr>f_Signature = field b 0 8, f_VerMajor = get_le (field b 8 1), f_VerMinor = get_le (field b 9 1),
      f_Base = get_le (field b 10 8), f_Size = get_le (field b 18 4), f_Name = field b 22 32,
      f_NAreas = get_le (field b 54 2)\<rparr>"

definition wf_fmap_header :: "FMapHeader \<Rightarrow> bool" where
  "wf_fmap_header h \<longleftrightarrow> length (f_Signature h) = 8 \<and> length (f_Name h) = 32"

definition enc_area :: "Area \<Rightarrow> bytes" where
  "enc_area a = put_le 4 (a_Offset a) @ put_le 4 (a_Size a) @ a_Name a @ put_le 2 (a_Flags a)"

definition dec_area :: "bytes \<Rightarrow> Area" where
  "dec_area b =
     \<lparr>a_Offset = get_le (field b 0 4), a_Size = get_le (field b 4 4), a_Name = field b 8 32,
      a_Flags = get_le (field b 40 2)\<rparr>"

definition wf_area :: "Area \<Rightarrow> bool" where
  "wf_area a \<longleftrightarrow> length (a_Name a) = 32"

lemma field_steps:
  "field b 0 8 @ field b 8 1 @ field b 9 1 @ field b 10 8 @ field b 18 4 @ field b 22 32 @ field b 54 2 =
     field b 0 56"
  "field b 0 4 @ field b 4 4 @ field b 8 32 @ field b 40 2 = field b 0 42"
  using field_append [of b 0 8 1] field_append [of b 0 9 1] field_append [of b 0 10 8]
    field_append [of b 0 18 4] field_append [of b 0 22 32] field_append [of b 0 54 2]
    field_append [of b 0 4 4] field_append [of b 0 8 32] field_append [of b 0 40 2]
  by (simp_all flip: append_assoc)

interpretation fmap_hdr: exact_codec fmapHeaderSize enc_fmap_header dec_fmap_header wf_fmap_header
proof unfold_locales
  fix b :: bytes
  assume b: "length b = fmapHeaderSize"
  then have "enc_fmap_header (dec_fmap_header b) = field b 0 56"
    unfolding field_steps(1) [symmetric]
    by (simp add: enc_fmap_header_def dec_fmap_header_def length_field fmapHeaderSize_def
        put_get_words put_get_words [simplified])
  with b show "enc_fmap_header (dec_fmap_header b) = b"
    by (simp add: fmapHeaderSize_def field_def)
qed (simp_all add: enc_fmap_header_def dec_fmap_header_def wf_fmap_header_def fmapHeaderSize_def field_def)

interpretation fmap_area: exact_codec areaSize enc_area dec_area wf_area
proof unfold_locales
  fix b :: bytes
  assume b: "length b = areaSize"
  then have "enc_area (dec_area b) = field b 0 42"
    unfolding field_steps(2) [symmetric]
    by (simp add: enc_area_def dec_area_def length_field areaSize_def put_get_words)
  with b show "enc_area (dec_area b) = b" by (simp add: areaSize_def field_def)
qed (simp_all add: enc_area_def dec_area_def wf_area_def areaSize_def field_def)

section \<open>Flags\<close>

fun flag_loop :: "(u16 \<times> string) list \<Rightarrow> u16 \<Rightarrow> string list \<Rightarrow> u16 \<times> string list" where
  "flag_loop [] flags names = (flags, names)"
| "flag_loop ((v, name) # m) flags names =
     (if v AND flags \<noteq> 0 then flag_loop m (flags - v) (names @ [name]) else flag_loop m flags names)"

definition flag_table :: "(u16 \<times> string) list" where
  "flag_table =
     [(FmapAreaStatic, ''STATIC''), (FmapAreaCompressed, ''COMPRESSED''), (FmapAreaReadOnly, ''READ_ONLY'')]"

definition FlagNames :: "u16 \<Rightarrow> string" where
  "FlagNames flags =
     (case flag_loop flag_table flags [] of (rest, names) \<Rightarrow>
        join_with ''|''
          (if rest \<noteq> 0 \<or> names = [] then names @ [''0x'' @ format_nat 16 (unat rest)] else names))"

section \<open>Reading and writing\<close>

definition readField :: "nat \<Rightarrow> (bytes \<Rightarrow> 'a) \<Rightarrow> bytes \<Rightarrow> goerr + ('a \<times> bytes)" where
  "readField w dec r =
     (case binary_read w dec r of
        Inl _ \<Rightarrow> Inl (Errorf ''Unexpected EOF while parsing fmap'')
      | Inr x \<Rightarrow> Inr x)"

text \<open>\<^verbatim>\<open>Read\<close> of a stream that delivers \<open>data\<close> and then \<open>err\<close> (none at the end of the file).\<close>

definition fmap_Read :: "bytes \<Rightarrow> goerr option \<Rightarrow> goerr + (FMap \<times> nat)" where
  "fmap_Read data err =
     (case err of
        Some e \<Rightarrow> Inl e
      | None \<Rightarrow>
          if 2 \<le> bytes_Count data signature then Inl (Errorf ''Found multiple signatures'')
          else (case bytes_Index data signature of
                  None \<Rightarrow> Inl (Errorf ''Cannot find fmap signature'')
                | Some start \<Rightarrow>
                    (case readField fmapHeaderSize dec_fmap_header (drop start data) of
                       Inl e \<Rightarrow> Inl e
                     | Inr (h, r) \<Rightarrow>
                         (case readField (unat (f_NAreas h) * areaSize)
                                 (dec_list areaSize dec_area (unat (f_NAreas h))) r of
                            Inl e \<Rightarrow> Inl e
                          | Inr (areas, _) \<Rightarrow> Inr (\<lparr>fm_Header = h, Areas = areas\<rparr>, start)))))"

text \<open>
  \<^verbatim>\<open>Write\<close>: a seek to the start followed by two writes. \<open>wa\<close> is the file's write at an
  offset; the offset after a write is the sum.
\<close>

definition fmap_Write :: "'d writer_at \<Rightarrow> FMap \<Rightarrow> u64 \<Rightarrow> 'd \<Rightarrow> goerr option \<times> 'd" where
  "fmap_Write wa f start d =
     (if sint start < 0 then (Some (Errno ''invalid argument''), d)
      else (case wa (enc_fmap_header (fm_Header f)) (sint start) d of
              (Some e, d1) \<Rightarrow> (Some e, d1)
            | (None, d1) \<Rightarrow>
                wa (enc_list enc_area (Areas f))
                  (sint start + int (length (enc_fmap_header (fm_Header f)))) d1))"

definition ReadArea :: "FMap \<Rightarrow> bytes \<Rightarrow> int \<Rightarrow> bytes outcome" where
  "ReadArea f d i =
     (if i < 0 \<or> int (unat (f_NAreas (fm_Header f))) \<le> i then Fail (Errorf ''Area index out of range'')
      else if length (Areas f) \<le> nat i then Panic ''index out of range''
      else let a = Areas f ! nat i in Ret (take (unat (a_Size a)) (drop (unat (a_Offset a)) d)))"

text \<open>
  \<^verbatim>\<open>Checksum\<close>: the hash is a parameter, \<open>hw\<close> its \<^verbatim>\<open>Write\<close> and \<open>hsum\<close> its
  \<^verbatim>\<open>Sum\<close>.
\<close>

fun checksum_loop ::
    "FMap \<Rightarrow> bytes \<Rightarrow> (bytes \<Rightarrow> 'h \<Rightarrow> 'h) \<Rightarrow> int \<Rightarrow> Area list \<Rightarrow> 'h \<Rightarrow> 'h outcome" where
  "checksum_loop f d hw i [] h = Ret h"
| "checksum_loop f d hw i (v # vs) h =
     (if a_Flags v AND FmapAreaStatic = 0 then checksum_loop f d hw (i + 1) vs h
      else bind_outcome (ReadArea f d i) (\<lambda>b. checksum_loop f d hw (i + 1) vs (hw b h)))"

definition Checksum ::
    "FMap \<Rightarrow> bytes \<Rightarrow> (bytes \<Rightarrow> 'h \<Rightarrow> 'h) \<Rightarrow> ('h \<Rightarrow> bytes) \<Rightarrow> 'h \<Rightarrow> bytes outcome" where
  "Checksum f d hw hsum h = bind_outcome (checksum_loop f d hw 0 (Areas f) h) (\<lambda>h. Ret (hsum h))"

section \<open>The command\<close>

definition fmap_cmds :: "(string \<times> nat \<times> bool) list" where
  "fmap_cmds =
     [(''checksum'', 1, True), (''extract'', 1, True), (''jget'', 1, True), (''jput'', 1, False),
      (''summary'', 0, True), (''usage'', 0, True), (''verify'', 0, True)]"

text \<open>
  \<^verbatim>\<open>main\<close> up to the call of the command: the exit code of \<^verbatim>\<open>printUsage\<close>, or the
  command, its arguments, whether the map is parsed first, and the file.
\<close>

definition fmap_main :: "string list \<Rightarrow> nat + (string \<times> string list \<times> bool \<times> string)" where
  "fmap_main args =
     (if length args \<le> 2 then Inl 2
      else (case map_of fmap_cmds (args ! 1) of
              None \<Rightarrow> Inl 2
            | Some (nArgs, parseFMap) \<Rightarrow>
                if length args \<noteq> nArgs + 3 then Inl 2
                else Inr (args ! 1, drop 2 (butlast args), parseFMap, last args)))"

definition hashFuncs :: "string list" where
  "hashFuncs = [''md5'', ''sha1'', ''sha256'']"

text \<open>\<^verbatim>\<open>checksum\<close>; \<open>hash name\<close> is the library's hash: its write, its sum and its start.\<close>

definition checksum ::
    "(string \<Rightarrow> (bytes \<Rightarrow> 'h \<Rightarrow> 'h) \<times> ('h \<Rightarrow> bytes) \<times> 'h) \<Rightarrow> string list \<Rightarrow> FMap \<Rightarrow> bytes \<Rightarrow> bytes outcome" where
  "checksum hash args f d =
     (case args of
        [] \<Rightarrow> Panic ''index out of range''
      | a # _ \<Rightarrow>
          if a \<notin> set hashFuncs then Fail (Errorf ''Not a valid hash function. Must be one of:'')
          else (case hash a of (hw, hsum, h) \<Rightarrow> Checksum f d hw hsum h))"

definition fmap_extract :: "string list \<Rightarrow> FMap \<Rightarrow> bytes \<Rightarrow> bytes outcome" where
  "fmap_extract args f d =
     (case args of
        [] \<Rightarrow> Panic ''index out of range''
      | a # _ \<Rightarrow> (case Atoi a of Inl e \<Rightarrow> Fail e | Inr i \<Rightarrow> ReadArea f d i))"

text \<open>\<^verbatim>\<open>verify\<close>: the error and the indices logged as out of range.\<close>

fun verify_loop :: "u32 \<Rightarrow> nat \<Rightarrow> Area list \<Rightarrow> goerr option \<times> nat list \<Rightarrow> goerr option \<times> nat list" where
  "verify_loop sz i [] r = r"
| "verify_loop sz i (a # as) r =
     verify_loop sz (Suc i) as
       (if a_Offset a + a_Size a > sz then (Some (Errorf ''Invalid flash map''), snd r @ [i]) else r)"

definition verify :: "FMap \<Rightarrow> goerr option \<times> nat list" where
  "verify f = verify_loop (f_Size (fm_Header f)) 0 (Areas f) (None, [])"

subsection \<open>usage\<close>

definition blockSize :: nat where "blockSize = 4 * 1024"
definition rowLength :: nat where "rowLength = 32"

record usage_stats =
  numBlocks :: nat
  numFull :: nat
  numZero :: nat
  usage_out :: string

definition fmt_08x :: "nat \<Rightarrow> string" where
  "fmt_08x n = (let h = format_nat 16 n in ''0x'' @ replicate (6 - length h) CHR ''0'' @ h)"

definition usage_block :: "bytes \<Rightarrow> usage_stats \<Rightarrow> usage_stats" where
  "usage_block b st =
     (let st = st\<lparr>numBlocks := numBlocks st + 1\<rparr>
      in if b = replicate blockSize CHR 0xFF
         then st\<lparr>numFull := numFull st + 1, usage_out := usage_out st @ ''.''\<rparr>
         else if b = replicate blockSize CHR 0x00
         then st\<lparr>numZero := numZero st + 1, usage_out := usage_out st @ ''0''\<rparr>
         else st\<lparr>usage_out := usage_out st @ ''#''\<rparr>)"

text \<open>
  The block loop at column \<open>col\<close> over the rest of the flash; \<open>rerr\<close> is an error of the device that
  comes after its data.
\<close>

function usage_loop :: "goerr option \<Rightarrow> nat \<Rightarrow> bytes \<Rightarrow> usage_stats \<Rightarrow> usage_stats outcome" where
  "usage_loop rerr col d st =
     (let st = (if col = 0
                then st\<lparr>usage_out := usage_out st @ fmt_08x (numBlocks st * blockSize) @ '': ''\<rparr> else st)
      in if length d < blockSize then
           (case rerr of
              Some e \<Rightarrow> Fail e
            | None \<Rightarrow>
                if d = [] then Ret (st\<lparr>usage_out := usage_out st @ [newline]\<rparr>)
                else Ret (st\<lparr>usage_out := usage_out st @ [newline] @ ''Warning: flash is not a multiple of 4096''\<rparr>))
         else
           let st = usage_block (take blockSize d) st;
               last_col = (col + 1 = rowLength);
               st = (if last_col then st\<lparr>usage_out := usage_out st @ [newline]\<rparr> else st)
           in usage_loop rerr (if last_col then 0 else col + 1) (drop blockSize d) st)"
  by pat_completeness auto
termination
  by (relation "measure (\<lambda>(_, _, d, _). length d)") (auto simp: blockSize_def)

declare usage_loop.simps [simp del]

definition usage :: "goerr option \<Rightarrow> bytes \<Rightarrow> usage_stats outcome" where
  "usage rerr d = usage_loop rerr 0 d \<lparr>numBlocks = 0, numFull = 0, numZero = 0, usage_out = []\<rparr>"

section \<open>Properties\<close>

lemma put_at_self: "off + n \<le> length d \<Longrightarrow> put_at d off (field d off n) = d"
proof -
  assume "off + n \<le> length d"
  moreover have "take off d @ take n (drop off d) @ drop (off + n) d = d"
    by (metis append_take_drop_id drop_drop add.commute)
  ultimately show ?thesis by (simp add: put_at_def field_def length_field min_def)
qed

lemma file_write_self:
  "off + n \<le> length d \<Longrightarrow> file_write_at (field d off n) (int off) d = (None, d)"
  by (simp add: file_write_at_ok put_at_self)

lemma readField_Inr:
  "readField w dec r = Inr (x, r') \<longleftrightarrow> w \<le> length r \<and> x = dec (take w r) \<and> r' = drop w r"
  by (auto simp: readField_def binary_read_def split: if_splits)

lemma fmap_Read_Inr:
  assumes "fmap_Read d None = Inr (f, start)"
  defines "n \<equiv> unat (f_NAreas (fm_Header f))"
  shows "fm_Header f = dec_fmap_header (field d start fmapHeaderSize)"
    and "Areas f = dec_list areaSize dec_area n (field d (start + fmapHeaderSize) (n * areaSize))"
    and "bytes_Index d signature = Some start"
    and "start + fmapHeaderSize + n * areaSize \<le> length d"
proof -
  show h: "fm_Header f = dec_fmap_header (field d start fmapHeaderSize)"
    and "Areas f = dec_list areaSize dec_area n (field d (start + fmapHeaderSize) (n * areaSize))"
    and "bytes_Index d signature = Some start"
    using assms
    by (auto simp: fmap_Read_def readField_Inr field_def add.commute
        split: if_splits option.splits sum.splits)
  have "fmapHeaderSize \<le> length d - start" and "n * areaSize \<le> length d - start - fmapHeaderSize"
    using assms
    by (auto simp: fmap_Read_def readField_Inr field_def split: if_splits option.splits sum.splits)
  then show "start + fmapHeaderSize + n * areaSize \<le> length d"
    by (simp add: fmapHeaderSize_def)
qed

lemma fmap_Write_back:
  assumes "fmap_Read d None = Inr (f, start)" and "length d < 2 ^ 63"
  shows "fmap_Write file_write_at f (of_nat start) d = (None, d)"
proof -
  note r = fmap_Read_Inr [OF assms(1)]
  let ?n = "unat (f_NAreas (fm_Header f))"
  have hdr: "enc_fmap_header (fm_Header f) = field d start fmapHeaderSize"
    unfolding r(1) using r(4) by (intro fmap_hdr.enc_dec) (simp add: length_field)
  have len: "length (field d (start + fmapHeaderSize) (?n * areaSize)) = ?n * areaSize"
    using r(4) by (intro length_field) simp
  have areas: "enc_list enc_area (Areas f) = field d (start + fmapHeaderSize) (?n * areaSize)"
    unfolding r(2) by (subst fmap_area.enc_dec_list) (simp_all add: len)
  have "start < 2 ^ 63" using r(4) assms(2) by (simp add: fmapHeaderSize_def)
  then have off: "sint (word_of_nat start :: u64) = int start" by (rule sint_of_nat)
  have "length (field d start fmapHeaderSize) = fmapHeaderSize" using r(4) by (simp add: length_field)
  then show ?thesis
    using r(4) file_write_self [of start fmapHeaderSize d]
      file_write_self [of "start + fmapHeaderSize" "?n * areaSize" d]
    by (simp add: fmap_Write_def off hdr areas)
qed

text \<open>
  C8. \<^verbatim>\<open>jget\<close> then \<^verbatim>\<open>jput\<close> of the same map changes nothing: writing the map
  that \<^verbatim>\<open>Read\<close> found back at the place where it found it leaves every byte of the flash
  as it was.
\<close>

theorem fmap_rewrite_identity:
  assumes "fmap_Read d None = Inr (f, start)" and "length d < 2 ^ 63"
  shows "fmap_Write file_write_at f (of_nat start) d = (None, d)"
  using assms by (rule fmap_Write_back)

lemma fmap_Read_holds:
  assumes at: "holds d start (enc_fmap_header h @ enc_list enc_area as)"
    and wf: "wf_fmap_header h" "\<forall>a \<in> set as. wf_area a" "length as = unat (f_NAreas h)"
    and sig: "bytes_Index d signature = Some start" "bytes_Count d signature < 2"
  shows "fmap_Read d None = Inr (\<lparr>fm_Header = h, Areas = as\<rparr>, start)"
proof -
  have hdr: "take fmapHeaderSize (drop start d) = enc_fmap_header h"
    and ars: "take (length as * areaSize) (drop (start + fmapHeaderSize) d) = enc_list enc_area as"
    using at fmap_hdr.enc_width [OF wf(1)] fmap_area.length_enc_list [OF wf(2)]
    by (simp_all add: holds_append) (simp_all add: holds_def)
  have "fmapHeaderSize \<le> length d - start" "length as * areaSize \<le> length d - (start + fmapHeaderSize)"
    using arg_cong [OF hdr, of length] arg_cong [OF ars, of length]
      fmap_hdr.enc_width [OF wf(1)] fmap_area.length_enc_list [OF wf(2)]
    by (simp_all add: min_def split: if_splits)
  then show ?thesis
    using sig hdr ars wf(3) fmap_hdr.dec_enc [OF wf(1)] fmap_area.dec_enc_list [OF wf(2), of "[]"]
    by (simp add: fmap_Read_def readField_def binary_read_def add.commute)
qed

definition sample_area :: Area where
  "sample_area = \<lparr>a_Offset = 1, a_Size = 4, a_Name = ''RO'' @ replicate 30 CHR 0x00, a_Flags = 1\<rparr>"

definition sample_fmap :: FMap where
  "sample_fmap =
     \<lparr>fm_Header = \<lparr>f_Signature = signature, f_VerMajor = 1, f_VerMinor = 0, f_Base = 0, f_Size = 200,
        f_Name = ''FLASH'' @ replicate 27 CHR 0x00, f_NAreas = 1\<rparr>, Areas = [sample_area]\<rparr>"

definition sample_flash :: bytes where
  "sample_flash = ''AB'' @ enc_fmap_header (fm_Header sample_fmap) @ enc_list enc_area (Areas sample_fmap) @ ''Z''"

lemma sample_flash_bytes:
  "sample_flash = ''AB__FMAP__'' @ [CHR 0x01] @ replicate 9 CHR 0x00 @ [CHR 0xC8] @ replicate 3 CHR 0x00 @
     ''FLASH'' @ replicate 27 CHR 0x00 @ [CHR 0x01, CHR 0x00, CHR 0x01] @ replicate 3 CHR 0x00 @ [CHR 0x04] @
     replicate 3 CHR 0x00 @ ''RO'' @ replicate 30 CHR 0x00 @ [CHR 0x01, CHR 0x00, CHR ''Z'']"
  by (simp add: sample_flash_def sample_fmap_def sample_area_def signature_def enc_fmap_header_def
      enc_area_def bytes_eval)

lemma sample_flash_sig: "bytes_Index sample_flash signature = Some 2" "bytes_Count sample_flash signature < 2"
  unfolding sample_flash_bytes by code_simp+

lemma sample_flash_Read: "fmap_Read sample_flash None = Inr (sample_fmap, 2)"
  using fmap_Read_holds [of sample_flash 2 "fm_Header sample_fmap" "Areas sample_fmap"] sample_flash_sig
  by (simp add: sample_flash_def sample_fmap_def sample_area_def holds_def wf_fmap_header_def
      wf_area_def signature_def)

theorem fmap_rewrite_identity_witness:
  "fmap_Write file_write_at sample_fmap (of_nat 2) sample_flash = (None, sample_flash)"
  using sample_flash_Read by (rule fmap_rewrite_identity) (simp add: sample_flash_bytes)

text \<open>
  A map written over a flash image is the map \<^verbatim>\<open>Read\<close> then finds, when its areas are
  counted by its header and the signature at the start is the first and only one of the new image.
\<close>

lemma fmap_write_read:
  assumes "wf_fmap_header (fm_Header f)" and "\<forall>a \<in> set (Areas f). wf_area a"
    and "length (Areas f) = unat (f_NAreas (fm_Header f))" and "start < 2 ^ 63"
    and "fmap_Write file_write_at f (of_nat start) d = (e, d')"
    and "bytes_Index d' signature = Some start" and "bytes_Count d' signature < 2"
  shows "e = None \<and> fmap_Read d' None = Inr (f, start)"
proof -
  let ?h = "enc_fmap_header (fm_Header f)" and ?a = "enc_list enc_area (Areas f)"
  have off: "sint (word_of_nat start :: u64) = int start" using assms(4) by (rule sint_of_nat)
  have len: "length ?h = fmapHeaderSize" "?h \<noteq> []"
    using fmap_hdr.enc_width [OF assms(1)] by (auto simp: fmapHeaderSize_def)
  let ?d1 = "put_at d start ?h"
  have d': "d' = (if ?a = [] then ?d1 else put_at ?d1 (start + length ?h) ?a)" and e: "e = None"
    using assms(5) len(2) by (simp_all add: fmap_Write_def off file_write_at_ok flip: of_nat_add)
  have "holds d' start ?h" unfolding d' by (simp add: holds_put_same holds_put_other)
  moreover have "holds d' (start + length ?h) ?a" unfolding d' by (simp add: holds_put_same)
  ultimately have "holds d' start (?h @ ?a)" by (simp add: holds_append)
  from fmap_Read_holds [OF this assms(1-3,6,7)] e show ?thesis by simp
qed

lemma verify_loop_spec:
  "verify_loop sz i as (e, l) =
     (if list_all (\<lambda>a. a_Offset a + a_Size a \<le> sz) as then e else Some (Errorf ''Invalid flash map''),
      l @ map (\<lambda>j. i + j) (filter (\<lambda>j. \<not> a_Offset (as ! j) + a_Size (as ! j) \<le> sz) [0..<length as]))"
proof (induction as arbitrary: i e l)
  case Nil
  then show ?case by simp
next
  case (Cons a as)
  have "[0..<length (a # as)] = 0 # map Suc [0..<length as]"
    by (simp add: upt_conv_Cons map_Suc_upt del: upt_Suc)
  moreover note step = verify_loop.simps(2) [of sz i a as "(e, l)", folded not_le]
  ultimately show ?case
    by (cases "a_Offset a + a_Size a \<le> sz")
       (simp_all add: step Cons filter_map comp_def del: upt_Suc verify_loop.simps not_le)
qed

text \<open>
  \<^verbatim>\<open>verify\<close> accepts a map if and only if the end of every area, computed modulo
  \<open>2 ^ 32\<close>, lies within the flash; the indices it logs are those of the areas whose wrapped end does
  not. So it is exact on areas whose end fits 32 bits, and accepts areas whose end wraps.
\<close>

lemma fmap_verify_spec:
  "verify f =
     (let ok = (\<lambda>a. (unat (a_Offset a) + unat (a_Size a)) mod 2 ^ 32 \<le> unat (f_Size (fm_Header f)))
      in (if list_all ok (Areas f) then None else Some (Errorf ''Invalid flash map''),
          filter (\<lambda>j. \<not> ok (Areas f ! j)) [0..<length (Areas f)]))"
  by (simp add: verify_def verify_loop_spec word_le_nat_alt unat_word_ariths)

lemma flag_test: "(2 ^ n AND flags \<noteq> 0) = bit (flags :: u16) n"
  by (simp add: and_exp_eq_0_iff_not_bit and.commute [of "2 ^ n"])

lemma flag_clear: "bit (flags :: u16) n \<Longrightarrow> flags - 2 ^ n = unset_bit n flags"
  by (simp add: unset_bit_eq)

lemma flag_keep: "\<not> bit (flags :: u16) n \<Longrightarrow> unset_bit n flags = flags"
  by (simp add: unset_bit_eq)

lemma flag_powers:
  "FmapAreaStatic = 2 ^ 0" "FmapAreaCompressed = 2 ^ 1" "FmapAreaReadOnly = 2 ^ 2"
  by (simp_all add: FmapAreaStatic_def FmapAreaCompressed_def FmapAreaReadOnly_def)

lemma flag_loop_power:
  "flag_loop ((2 ^ n, name) # m) flags names =
     flag_loop m (unset_bit n flags) (names @ (if bit flags n then [name] else []))"
  by (auto simp: flag_test flag_clear flag_keep)

lemma clear_known: "unset_bit 2 (unset_bit 1 (unset_bit 0 flags)) = flags AND NOT (7 :: u16)"
proof (rule bit_eqI)
  fix n
  have m: "(7 :: u16) = mask 3" by (simp add: mask_numeral)
  have "bit (7 :: u16) n \<longleftrightarrow> n < 3" if "n < 16"
    using that by (simp only: m bit_mask_iff) simp
  moreover assume "possible_bit TYPE(u16) n"
  ultimately show "bit (unset_bit 2 (unset_bit 1 (unset_bit 0 flags))) n = bit (flags AND NOT 7) n"
    unfolding bit_unset_bit_iff bit_and_iff bit_not_iff by auto
qed


text \<open>
  \<^verbatim>\<open>FlagNames\<close> names exactly the known bits that are set and prints the unknown
  bits, if there are any, in hexadecimal; no flags at all print as zero.
\<close>

lemma fmap_FlagNames_spec:
  "FlagNames flags =
     (let known = (if bit flags 0 then [''STATIC''] else []) @
                  (if bit flags 1 then [''COMPRESSED''] else []) @
                  (if bit flags 2 then [''READ_ONLY''] else []);
          rest = flags AND NOT 7
      in join_with ''|'' (if rest = 0 \<and> known \<noteq> [] then known else known @ [''0x'' @ format_nat 16 (unat rest)]))"
  unfolding FlagNames_def flag_table_def flag_powers flag_loop_power flag_loop.simps(1) Let_def
    clear_known
  by (simp add: bit_unset_bit_iff)

definition area_bytes :: "bytes \<Rightarrow> Area \<Rightarrow> bytes" where
  "area_bytes d a = take (unat (a_Size a)) (drop (unat (a_Offset a)) d)"

definition is_static :: "Area \<Rightarrow> bool" where
  "is_static a \<longleftrightarrow> bit (a_Flags a) 0"

lemma static_test: "(a_Flags a AND FmapAreaStatic = 0) = (\<not> is_static a)"
  unfolding flag_powers(1) is_static_def flag_test [symmetric] by (simp only: and.commute) simp

lemma checksum_loop_spec:
  assumes nil: "\<And>h. hw [] h = h" and app: "\<And>a b h. hw (a @ b) h = hw b (hw a h)"
    and n: "length (Areas f) = unat (f_NAreas (fm_Header f))"
    and as: "Areas f = pre @ as"
  shows "checksum_loop f d hw (int (length pre)) as h =
    Ret (hw (concat (map (area_bytes d) (filter is_static as))) h)"
  using as
proof (induction as arbitrary: pre h)
  case Nil
  then show ?case by (simp add: nil)
next
  case (Cons a as)
  have "length pre < unat (f_NAreas (fm_Header f))" using Cons.prems n by simp
  then have "\<not> int (unat (f_NAreas (fm_Header f))) \<le> int (length pre)"
    by (simp only: of_nat_le_iff not_le)
  then have "ReadArea f d (int (length pre)) = Ret (area_bytes d a)"
    using Cons.prems by (simp add: ReadArea_def area_bytes_def)
  moreover have "checksum_loop f d hw (int (length pre) + 1) as h' =
      Ret (hw (concat (map (area_bytes d) (filter is_static as))) h')" for h'
    using Cons.IH [of "pre @ [a]" h'] Cons.prems by (simp add: add.commute)
  ultimately show ?case by (simp add: static_test app)
qed

text \<open>
  \<^verbatim>\<open>Checksum\<close> is the hash of the contents of the static areas, in map order, and of
  nothing else, for every hash whose \<^verbatim>\<open>Write\<close> may be split.
\<close>

lemma fmap_Checksum_static:
  assumes "\<And>h. hw [] h = h" and "\<And>a b h. hw (a @ b) h = hw b (hw a h)"
    and "length (Areas f) = unat (f_NAreas (fm_Header f))"
  shows "Checksum f d hw hsum h =
    Ret (hsum (hw (concat (map (area_bytes d) (filter is_static (Areas f)))) h))"
  using checksum_loop_spec [of hw f "[]" "Areas f" d h] assms by (simp add: Checksum_def)

text \<open>The whole blocks of a flash image.\<close>

fun flash_blocks :: "nat \<Rightarrow> bytes \<Rightarrow> bytes list" where
  "flash_blocks 0 d = []"
| "flash_blocks (Suc n) d = take blockSize d # flash_blocks n (drop blockSize d)"

lemma usage_block_counts:
  "numBlocks (usage_block b st) = numBlocks st + 1"
  "numFull (usage_block b st) = numFull st + of_bool (b = replicate blockSize CHR 0xFF)"
  "numZero (usage_block b st) = numZero st + of_bool (b = replicate blockSize CHR 0x00)"
proof -
  have "replicate blockSize CHR 0xFF \<noteq> replicate blockSize CHR 0x00"
    by (simp add: replicate_eq_replicate blockSize_def)
  then show "numZero (usage_block b st) = numZero st + of_bool (b = replicate blockSize CHR 0x00)"
    by (auto simp: usage_block_def Let_def)
qed (simp_all add: usage_block_def Let_def)

lemma usage_loop_step:
  assumes "blockSize \<le> length d"
  shows "\<exists>col' st'. usage_loop rerr col d st = usage_loop rerr col' (drop blockSize d) st' \<and>
    numBlocks st' = numBlocks st + 1 \<and>
    numFull st' = numFull st + of_bool (take blockSize d = replicate blockSize CHR 0xFF) \<and>
    numZero st' = numZero st + of_bool (take blockSize d = replicate blockSize CHR 0x00)"
proof -
  define st0 where "st0 = (if col = 0
    then st\<lparr>usage_out := usage_out st @ fmt_08x (numBlocks st * blockSize) @ '': ''\<rparr> else st)"
  define b where "b = usage_block (take blockSize d) st0"
  define st1 where "st1 = (if col + 1 = rowLength then b\<lparr>usage_out := usage_out b @ [newline]\<rparr> else b)"
  have "usage_loop rerr col d st =
      usage_loop rerr (if col + 1 = rowLength then 0 else col + 1) (drop blockSize d) st1"
    unfolding usage_loop.simps [of rerr col d st] Let_def st1_def b_def st0_def
    using assms by (simp only: leD if_False)
  moreover have "numBlocks st1 = numBlocks st + 1"
    "numFull st1 = numFull st + of_bool (take blockSize d = replicate blockSize CHR 0xFF)"
    "numZero st1 = numZero st + of_bool (take blockSize d = replicate blockSize CHR 0x00)"
    by (simp_all add: st1_def b_def st0_def usage_block_counts)
  ultimately show ?thesis by blast
qed

lemma usage_loop_spec:
  "\<exists>st'. usage_loop None col d st = Ret st' \<and>
     numBlocks st' = numBlocks st + length d div blockSize \<and>
     numFull st' = numFull st +
       length (filter (\<lambda>b. b = replicate blockSize CHR 0xFF) (flash_blocks (length d div blockSize) d)) \<and>
     numZero st' = numZero st +
       length (filter (\<lambda>b. b = replicate blockSize CHR 0x00) (flash_blocks (length d div blockSize) d))"
proof (induction "length d" arbitrary: col d st rule: less_induct)
  case less
  show ?case
  proof (cases "length d < blockSize")
    case True
    then show ?thesis by (simp add: usage_loop.simps [of _ col d] Let_def)
  next
    case False
    then have pos: "blockSize \<le> length d" "0 < blockSize" by (simp_all add: blockSize_def)
    have n: "length d div blockSize = Suc (length (drop blockSize d) div blockSize)"
      using pos by (simp add: le_div_geq)
    have less': "length (drop blockSize d) < length d" using pos by simp
    obtain col' st1 where "usage_loop None col d st = usage_loop None col' (drop blockSize d) st1"
      "numBlocks st1 = numBlocks st + 1"
      "numFull st1 = numFull st + of_bool (take blockSize d = replicate blockSize CHR 0xFF)"
      "numZero st1 = numZero st + of_bool (take blockSize d = replicate blockSize CHR 0x00)"
      using usage_loop_step [OF pos(1)] by blast
    with less [OF less', of col' st1] show ?thesis unfolding n by auto
  qed
qed

text \<open>
  \<^verbatim>\<open>usage\<close> ends on every flash image, and its counts are the number of whole blocks,
  of those that are all \<^verbatim>\<open>0xff\<close> and of those that are all zero.
\<close>

lemma fmap_usage_counts:
  "\<exists>st. usage None d = Ret st \<and> numBlocks st = length d div blockSize \<and>
     numFull st = length (filter (\<lambda>b. b = replicate blockSize CHR 0xFF) (flash_blocks (length d div blockSize) d)) \<and>
     numZero st = length (filter (\<lambda>b. b = replicate blockSize CHR 0x00) (flash_blocks (length d div blockSize) d))"
  using usage_loop_spec [of 0 d "\<lparr>numBlocks = 0, numFull = 0, numZero = 0, usage_out = []\<rparr>"]
  by (simp add: usage_def)

end
