(* ===== verification/Rush.thy ===== *)
theory Rush
  imports Go_Strconv
begin

text \<open>
  \<^verbatim>\<open>src/cmds/rush/parse.go\<close> and \<^verbatim>\<open>src/cmds/rush/rush.go\<close>: the shell's
  tokenizer, parser and command validation, argument expansion, wiring of files and pipes, and the
  evaluation of a command line.

  Loops of the parser that may run forever are \<^theory_text>\<open>partial_function (option)\<close>; the value \<open>None\<close> is a run
  that does not end. A panic of the parser is an outcome, because \<^verbatim>\<open>getCommand\<close> recovers it.
\<close>

section \<open>The input\<close>

text \<open>
  \<^verbatim>\<open>bufio.Reader\<close>: the bytes not yet read, and the last byte that
  \<^verbatim>\<open>UnreadByte\<close> would put back. A read at the end of the input leaves the last byte as it was.
\<close>

record breader =
  unread :: bytes
  lastByte :: "char option"

definition newReader_bytes :: "bytes \<Rightarrow> breader" where
  "newReader_bytes d = \<lparr>unread = d, lastByte = None\<rparr>"

abbreviation nul :: char where "nul \<equiv> CHR 0x00"

definition punct :: "char set" where
  "punct = {CHR ''<'', CHR ''>'', CHR ''|'', CHR ''&'', CHR ''$'', CHR '' '', tab, newline}"

definition pushback :: "breader \<Rightarrow> unit outcome \<times> breader" where
  "pushback b =
     (case lastByte b of
        None \<Rightarrow> (Panic ''unreading bufio: %v'', b)
      | Some c \<Rightarrow> (Ret (), \<lparr>unread = c # unread b, lastByte = None\<rparr>))"

definition one :: "breader \<Rightarrow> char \<times> breader" where
  "one b =
     (case unread b of
        [] \<Rightarrow> (nul, b)
      | c # cs \<Rightarrow> (c, \<lparr>unread = cs, lastByte = Some c\<rparr>))"

definition next_char :: "breader \<Rightarrow> char \<times> breader" where
  "next_char b = (case one b of (c, b') \<Rightarrow> if c = CHR 0x5C then one b' else (c, b'))"

text \<open>
  \<^verbatim>\<open>string(c)\<close> of a byte is the UTF-8 encoding of the code point with that number, and a
  byte from \<^verbatim>\<open>0x80\<close> up becomes two.
\<close>

definition string_of_byte :: "char \<Rightarrow> string" where
  "string_of_byte c =
     (let n = of_char c :: nat
      in if n < 128 then [c] else [char_of (192 + n div 64), char_of (128 + n mod 64)])"

lemma one_length: "one b = (c, b') \<Longrightarrow> c \<noteq> nul \<Longrightarrow> length (unread b') < length (unread b)"
  by (auto simp: one_def split: list.splits)

lemma one_length_le: "one b = (c, b') \<Longrightarrow> length (unread b') \<le> length (unread b)"
  by (auto simp: one_def split: list.splits)

lemma next_char_length:
  assumes "next_char b = (c, b')" and "c \<noteq> nul"
  shows "length (unread b') < length (unread b)"
proof -
  obtain c0 b0 where 0: "one b = (c0, b0)" by force
  show ?thesis
  proof (cases "c0 = CHR 0x5C")
    case True
    with assms 0 have "one b0 = (c, b')" by (simp add: next_char_def)
    with assms(2) 0 show ?thesis using one_length [of b0] one_length_le [of b] by fastforce
  next
    case False
    with assms 0 show ?thesis using one_length [of b] by (simp add: next_char_def)
  qed
qed

section \<open>Tokens\<close>

text \<open>The characters of a name or word: up to the end or a punctuation character, which is put back.\<close>

function word_loop :: "char \<Rightarrow> breader \<Rightarrow> string \<Rightarrow> string outcome \<times> breader" where
  "word_loop c b arg =
     (if c = nul then (Ret arg, b)
      else if c \<in> punct then
        (case pushback b of
           (Ret _, b') \<Rightarrow> (Ret arg, b')
         | (Fail e, b') \<Rightarrow> (Fail e, b')
         | (Panic m, b') \<Rightarrow> (Panic m, b'))
      else (case next_char b of (c', b') \<Rightarrow> word_loop c' b' (arg @ string_of_byte c)))"
  by pat_completeness auto
termination
  by (relation "measures [\<lambda>(c, b, _). length (unread b), \<lambda>(c, _). if c = nul then 0 else 1]")
     (auto simp: next_char_def one_def split: list.splits if_splits)

declare word_loop.simps [simp del]

text \<open>A quoted word. At the end of the input the loop goes on appending the byte zero.\<close>

partial_function (option) quote_loop :: "breader \<Rightarrow> string \<Rightarrow> (string \<times> breader) option" where
  "quote_loop b arg =
     (case next_char b of (nc, b') \<Rightarrow>
        if nc = CHR 0x27 then Some (arg, b') else quote_loop b' (arg @ string_of_byte nc))"

type_synonym token = "string \<times> string"
type_synonym 'a parsed = "('a outcome \<times> breader) option"

text \<open>Sequencing: a panic, or a run that does not end, ends the sequence.\<close>

definition bindp :: "'a parsed \<Rightarrow> ('a \<Rightarrow> breader \<Rightarrow> 'b parsed) \<Rightarrow> 'b parsed" where
  "bindp m f =
     Option.bind m (\<lambda>(r, b).
       case r of Ret x \<Rightarrow> f x b | Fail e \<Rightarrow> Some (Fail e, b) | Panic p \<Rightarrow> Some (Panic p, b))"

text \<open>The outcome of reading another input, with the reader \<open>b\<close> left as it is.\<close>

definition aside :: "breader \<Rightarrow> 'a parsed \<Rightarrow> 'a parsed" where
  "aside b m = Option.bind m (\<lambda>(r, _). Some (r, b))"

lemma bindp_simps [simp]:
  "bindp None f = None" "bindp (Some (Ret x, b)) f = f x b"
  "bindp (Some (Fail e, b)) f = Some (Fail e, b)" "bindp (Some (Panic p, b)) f = Some (Panic p, b)"
  by (simp_all add: bindp_def)

lemma aside_simps [simp]: "aside b None = None" "aside b (Some (r, b')) = Some (r, b)"
  by (simp_all add: aside_def)

lemma bindp_mono [partial_function_mono]:
  assumes "mono_option m" and "\<And>x b. mono_option (\<lambda>f. k f x b)"
  shows "mono_option (\<lambda>f. bindp (m f) (k f))"
  unfolding bindp_def
proof (intro bind_mono assms(1))
  show "mono_option (\<lambda>f. case y of (r, b) \<Rightarrow>
      case r of Ret x \<Rightarrow> k f x b | Fail e \<Rightarrow> Some (Fail e, b) | Panic p \<Rightarrow> Some (Panic p, b))" for y
    by (cases y; cases "fst y") (auto simp: option.const_mono assms(2))
qed

lemma aside_mono [partial_function_mono]:
  "mono_option m \<Longrightarrow> mono_option (\<lambda>f. aside b (m f))"
  unfolding aside_def by (intro bind_mono) (auto simp: option.const_mono)

definition tok :: "breader \<Rightarrow> token parsed" where
  "tok b =
     (case next_char b of (c, b) \<Rightarrow>
        if c = nul then Some (Ret (''EOF'', ''''), b)
        else if c = CHR ''>'' then Some (Ret (''FD'', ''1''), b)
        else if c = CHR ''<'' then Some (Ret (''FD'', ''0''), b)
        else if c = CHR ''$'' then
          (case next_char b of (c, b) \<Rightarrow>
             (case word_loop c b '''' of
                (Ret arg, b) \<Rightarrow> Some (Ret (''ENV'', arg), b)
              | (Fail e, b) \<Rightarrow> Some (Fail e, b)
              | (Panic m, b) \<Rightarrow> Some (Panic m, b)))
        else if c = CHR 0x27 then
          map_option (\<lambda>(arg, b). (Ret (''ARG'', arg), b)) (quote_loop b '''')
        else if c = CHR '' '' \<or> c = tab then Some (Ret (''white'', [c]), b)
        else if c = newline then Some (Ret (''EOL'', ''''), b)
        else if c = CHR ''|'' \<or> c = CHR ''&'' then
          (case one b of (nc, b) \<Rightarrow>
             if nc = c then Some (Ret (''LINK'', [c, c]), b)
             else (case pushback b of
                     (Ret _, b) \<Rightarrow>
                       Some (Ret (if c = CHR ''&'' then (''BG'', if nc = nul then ''EOL'' else ''BG'')
                                  else (''LINK'', [c])), b)
                   | (Fail e, b) \<Rightarrow> Some (Fail e, b)
                   | (Panic m, b) \<Rightarrow> Some (Panic m, b)))
        else (case word_loop c b '''' of
                (Ret arg, b) \<Rightarrow> Some (Ret (''ARG'', arg), b)
              | (Fail e, b) \<Rightarrow> Some (Fail e, b)
              | (Panic m, b) \<Rightarrow> Some (Panic m, b)))"

partial_function (option) getArg :: "breader \<Rightarrow> string \<Rightarrow> string parsed" where
  "getArg b what =
     bindp (tok b) (\<lambda>(nt, s) b.
       if nt = ''EOF'' \<or> nt = ''EOL'' then Some (Panic ''%v requires an argument'', b)
       else if nt = ''white'' then getArg b what
       else if nt \<noteq> ''ARG'' then Some (Panic ''%v requires an argument, not %v'', b)
       else Some (Ret s, b))"

section \<open>Commands\<close>

record Command =
  args :: "(string \<times> string) list"
  fdmap :: "int \<rightharpoonup> string"
  link :: string
  bg :: bool
  cmd :: string
  argv :: "string list"

definition newCommand :: Command where
  "newCommand = \<lparr>args = [], fdmap = Map.empty, link = '''', bg = False, cmd = '''', argv = []\<rparr>"

text \<open>\<^verbatim>\<open>c.fdmap[fd]\<close>: the empty string when there is no entry.\<close>

definition fd_name :: "Command \<Rightarrow> int \<Rightarrow> string" where
  "fd_name c fd = (case fdmap c fd of None \<Rightarrow> '''' | Some s \<Rightarrow> s)"

definition envDir :: string where "envDir = ''/env''"

definition env_path :: "string \<Rightarrow> string" where
  "env_path s = (if is_abs s then s else Join [envDir, s])"

text \<open>
  The loop of \<^verbatim>\<open>parsestring\<close> from the token \<open>(t, s)\<close> on; \<open>rf\<close> is \<^verbatim>\<open>ioutil.ReadFile\<close>.
  The content of an environment file is parsed into the same command.
\<close>

partial_function (option) parse_loop ::
    "(string \<Rightarrow> goerr + bytes) \<Rightarrow> string \<Rightarrow> string \<Rightarrow> breader \<Rightarrow> Command \<Rightarrow> (Command \<times> string) parsed" where
  "parse_loop rf t s b c =
     (if t = ''LINK'' then Some (Ret (c\<lparr>link := s\<rparr>, t), b)
      else if t = ''BG'' then Some (Ret (c\<lparr>bg := True\<rparr>, t), b)
      else if t = ''EOF'' \<or> t = ''EOL'' then Some (Ret (c, t), b)
      else
        bindp
          (if t = ''ENV'' then
             (case rf (env_path s) of
                Inl e \<Rightarrow> Some (Panic ''%s: %v'', b)
              | Inr d \<Rightarrow>
                  aside b (bindp (tok (newReader_bytes d)) (\<lambda>(t', s') f.
                    if s' = [newline] \<or> t' = ''EOF'' \<or> t' = ''EOL'' then Some (Ret c, f)
                    else bindp (parse_loop rf t' s' f c) (\<lambda>(c', _) f. Some (Ret c', f)))))
           else if t = ''ARG'' then Some (Ret (c\<lparr>args := args c @ [(s, t)]\<rparr>), b)
           else if t = ''white'' then Some (Ret c, b)
           else if t = ''FD'' then
             (case Atoi s of
                Inl e \<Rightarrow> Some (Panic ''bad FD on redirect: %v, %v'', b)
              | Inr x \<Rightarrow>
                  bindp (getArg b t) (\<lambda>a b. Some (Ret (c\<lparr>fdmap := (fdmap c)(x \<mapsto> a)\<rparr>), b)))
           else Some (Panic ''unknown token type %v'', b))
          (\<lambda>c b. bindp (tok b) (\<lambda>(t, s) b. parse_loop rf t s b c)))"

text \<open>\<^verbatim>\<open>parsestring\<close>: no command (nil) when the input starts with an end.\<close>

definition parsestring ::
    "(string \<Rightarrow> goerr + bytes) \<Rightarrow> breader \<Rightarrow> Command \<Rightarrow> (Command option \<times> string) parsed" where
  "parsestring rf b c =
     bindp (tok b) (\<lambda>(t, s) b.
       if s = [newline] \<or> t = ''EOF'' \<or> t = ''EOL'' then Some (Ret (None, t), b)
       else bindp (parse_loop rf t s b c) (\<lambda>(c', t') b. Some (Ret (Some c', t'), b)))"

definition parse :: "(string \<Rightarrow> goerr + bytes) \<Rightarrow> breader \<Rightarrow> (Command option \<times> string) parsed" where
  "parse rf b = parsestring rf b newCommand"

partial_function (option) parsecommands ::
    "(string \<Rightarrow> goerr + bytes) \<Rightarrow> breader \<Rightarrow> Command list \<Rightarrow> (Command list \<times> string) parsed" where
  "parsecommands rf b cmds =
     bindp (parse rf b) (\<lambda>(c, t) b.
       case c of
         None \<Rightarrow> Some (Ret (cmds, t), b)
       | Some c \<Rightarrow>
           if t = ''EOF'' \<or> t = ''EOL'' then Some (Ret (cmds @ [c], t), b)
           else parsecommands rf b (cmds @ [c]))"

text \<open>The rules that \<^verbatim>\<open>getCommand\<close> checks.\<close>

fun check_rules :: "Command list \<Rightarrow> goerr option" where
  "check_rules [] = None"
| "check_rules (c # cs) =
     (if args c = [] then Some (Errorf ''empty commands not allowed (yet)'')
      else if link c = ''|'' \<and> fd_name c 1 \<noteq> '''' then Some (Errorf ''Can't have a pipe and > on one command'')
      else if link c = ''|'' \<and> cs = [] then Some (Errorf ''Can't have a pipe to nowhere'')
      else if cs \<noteq> [] \<and> link c = ''|'' \<and> fd_name (hd cs) 0 \<noteq> ''''
      then Some (Errorf ''Can't have a pipe to command with redirect on stdin'')
      else check_rules cs)"

definition getCommand ::
    "(string \<Rightarrow> goerr + bytes) \<Rightarrow> breader \<Rightarrow> ((Command list \<times> string \<times> goerr option) \<times> breader) option" where
  "getCommand rf b =
     (case parsecommands rf b [] of
        None \<Rightarrow> None
      | Some (Fail e, b) \<Rightarrow> Some (([], '''', Some e), b)
      | Some (Panic m, b) \<Rightarrow> Some (([], '''', Some (Errorf m)), b)
      | Some (Ret (c, t), b) \<Rightarrow>
          (case check_rules c of
             Some e \<Rightarrow> Some (([], '''', Some e), b)
           | None \<Rightarrow> Some ((c, t, None), b)))"

section \<open>Builtins\<close>

definition addBuiltIn :: "string \<Rightarrow> 'f \<Rightarrow> (string \<rightharpoonup> 'f) \<Rightarrow> goerr + (string \<rightharpoonup> 'f)" where
  "addBuiltIn name f builtins =
     (if builtins name \<noteq> None then Inl (Errorf ''%v already a builtin'') else Inr (builtins(name \<mapsto> f)))"

definition addForkBuiltIn ::
    "string \<Rightarrow> 'f \<Rightarrow> (string \<rightharpoonup> 'f) \<Rightarrow> (string \<rightharpoonup> 'f) \<Rightarrow> goerr + (string \<rightharpoonup> 'f)" where
  "addForkBuiltIn name f builtins forkBuiltins =
     (if builtins name \<noteq> None then Inl (Errorf ''%v already a forkBuiltin'')
      else Inr (forkBuiltins(name \<mapsto> f)))"

section \<open>Arguments\<close>

text \<open>
  \<^verbatim>\<open>doArgs\<close>; \<open>rf\<close> is \<^verbatim>\<open>ioutil.ReadFile\<close> and \<open>glob\<close> is
  \<^verbatim>\<open>filepath.Glob\<close>.
\<close>

fun expand_args ::
    "(string \<Rightarrow> goerr + bytes) \<Rightarrow> (string \<Rightarrow> goerr + string list) \<Rightarrow> (string \<times> string) list \<Rightarrow> string list \<Rightarrow>
     goerr + string list" where
  "expand_args rf glob [] globargv = Inr globargv"
| "expand_args rf glob ((val, md) # as) globargv =
     (if md = ''ENV'' then
        (case rf (env_path val) of
           Inl e \<Rightarrow> Inl e
         | Inr b \<Rightarrow> expand_args rf glob as (globargv @ [b]))
      else
        (case glob val of
           Inr (g # gs) \<Rightarrow> expand_args rf glob as (globargv @ g # gs)
         | _ \<Rightarrow> expand_args rf glob as (globargv @ [val])))"

fun doArgs ::
    "(string \<Rightarrow> goerr + bytes) \<Rightarrow> (string \<Rightarrow> goerr + string list) \<Rightarrow> Command list \<Rightarrow> Command list outcome" where
  "doArgs rf glob [] = Ret []"
| "doArgs rf glob (c # cs) =
     (case expand_args rf glob (args c) [] of
        Inl e \<Rightarrow> Fail e
      | Inr [] \<Rightarrow> Panic ''index out of range''
      | Inr (g # gs) \<Rightarrow>
          bind_outcome (doArgs rf glob cs) (\<lambda>cs'. Ret (c\<lparr>cmd := g, argv := gs\<rparr> # cs')))"

text \<open>
  \<^verbatim>\<open>commands\<close>: a fresh \<^verbatim>\<open>exec.Cmd\<close> has no \<^verbatim>\<open>SysProcAttr\<close>, so
  setting a flag in it is a nil dereference.
\<close>

fun commands :: "Command list \<Rightarrow> unit outcome" where
  "commands [] = Ret ()"
| "commands (c # cs) = (if cmd c = ''builtin'' then Panic ''nil pointer dereference'' else commands cs)"

section \<open>Wiring\<close>

datatype stream_end = Std nat | Opened string | Pipe nat

record wired =
  w_Stdin :: stream_end
  w_Stdout :: stream_end
  w_Stderr :: stream_end

text \<open>Opening a redirection; \<open>opn\<close> is \<^verbatim>\<open>os.Open\<close> or \<^verbatim>\<open>os.Create\<close>.\<close>

definition open_fd ::
    "(string \<Rightarrow> 'w \<Rightarrow> goerr option \<times> 'w) \<Rightarrow> Command \<Rightarrow> nat \<Rightarrow> 'w \<Rightarrow> stream_end outcome \<times> 'w" where
  "open_fd opn c fd w =
     (let name = fd_name c (int fd)
      in if name \<noteq> ''''
         then (case opn name w of (Some e, w') \<Rightarrow> (Fail e, w') | (None, w') \<Rightarrow> (Ret (Opened name), w'))
         else (Ret (Std fd), w))"

definition andw ::
    "'a outcome \<times> 'w \<Rightarrow> ('a \<Rightarrow> 'w \<Rightarrow> 'b outcome \<times> 'w) \<Rightarrow> 'b outcome \<times> 'w" where
  "andw m f =
     (case m of (Ret x, w) \<Rightarrow> f x w | (Fail e, w) \<Rightarrow> (Fail e, w) | (Panic p, w) \<Rightarrow> (Panic p, w))"

text \<open>
  \<^verbatim>\<open>wire\<close> from command \<open>i\<close> on; \<open>pin\<close> is the pipe the command before it set up on this
  one's standard input.
\<close>

fun wire ::
    "(string \<Rightarrow> 'w \<Rightarrow> goerr option \<times> 'w) \<Rightarrow> (string \<Rightarrow> 'w \<Rightarrow> goerr option \<times> 'w) \<Rightarrow> nat \<Rightarrow>
     Command list \<Rightarrow> stream_end option \<Rightarrow> 'w \<Rightarrow> wired list outcome \<times> 'w" where
  "wire opn crt i [] pin w = (Ret [], w)"
| "wire opn crt i (c # cs) pin w =
     andw (case pin of Some p \<Rightarrow> (Ret p, w) | None \<Rightarrow> open_fd opn c 0 w) (\<lambda>si w.
     andw (if link c \<noteq> ''|'' then open_fd crt c 1 w else (Ret (Pipe i), w)) (\<lambda>so w.
     andw (open_fd crt c 2 w) (\<lambda>se w.
     andw (if link c \<noteq> ''|'' then (Ret None, w)
           else if cs = [] then (Panic ''index out of range'', w) else (Ret (Some (Pipe i)), w)) (\<lambda>pin' w.
     andw (wire opn crt (Suc i) cs pin' w) (\<lambda>ws w.
       (Ret (\<lparr>w_Stdin = si, w_Stdout = so, w_Stderr = se\<rparr> # ws), w))))))"

section \<open>Running\<close>

text \<open>
  \<^verbatim>\<open>runit\<close>: \<open>bi\<close> are the builtins, \<open>start\<close>, \<open>wait\<close> the process calls and \<open>closes\<close> the
  deferred closing of the command's files.
\<close>

definition runit ::
    "(string \<rightharpoonup> (Command \<Rightarrow> 'w \<Rightarrow> goerr option \<times> 'w)) \<Rightarrow> (Command \<Rightarrow> 'w \<Rightarrow> goerr option \<times> 'w) \<Rightarrow>
     (Command \<Rightarrow> 'w \<Rightarrow> goerr option \<times> 'w) \<Rightarrow> (Command \<Rightarrow> 'w \<Rightarrow> 'w) \<Rightarrow> Command \<Rightarrow> 'w \<Rightarrow> goerr option \<times> 'w" where
  "runit bi start wait closes c w =
     (let (err, w') =
        (case bi (cmd c) of
           Some f \<Rightarrow> f c w
         | None \<Rightarrow>
             (case start c w of
                (Some e, w1) \<Rightarrow> (Some (Errorf ''%v: Path %v''), w1)
              | (None, w1) \<Rightarrow>
                  (case wait c w1 of
                     (Some e, w2) \<Rightarrow> (Some (Errorf ''wait: %v''), w2)
                   | (None, w2) \<Rightarrow> (None, w2))))
      in (err, closes c w'))"

text \<open>\<^verbatim>\<open>command\<close>; \<open>spawn\<close> starts the goroutine of a background command.\<close>

definition command ::
    "(Command \<Rightarrow> 'w \<Rightarrow> goerr option \<times> 'w) \<Rightarrow> (Command \<Rightarrow> 'w \<Rightarrow> 'w) \<Rightarrow> Command \<Rightarrow> 'w \<Rightarrow> goerr option \<times> 'w" where
  "command run spawn c w = (if bg c then (None, spawn c w) else run c w)"

text \<open>The loop of \<^verbatim>\<open>main\<close> over the commands of a line.\<close>

fun run_line :: "(Command \<Rightarrow> 'w \<Rightarrow> goerr option \<times> 'w) \<Rightarrow> Command list \<Rightarrow> 'w \<Rightarrow> 'w" where
  "run_line run [] w = w"
| "run_line run (c # cs) w =
     (case run c w of
        (Some e, w') \<Rightarrow> if link c = ''||'' then run_line run cs w' else w'
      | (None, w') \<Rightarrow> if link c = ''||'' then w' else run_line run cs w')"

text \<open>
  One turn of the shell: the next input and world and whether the shell goes on, ends, or dies of a
  panic outside the parser.
\<close>

datatype after = Again | Finished | Bummer string

definition shell_turn ::
    "(string \<Rightarrow> goerr + bytes) \<Rightarrow> (string \<Rightarrow> goerr + string list) \<Rightarrow> (string \<Rightarrow> 'w \<Rightarrow> goerr option \<times> 'w) \<Rightarrow>
     (string \<Rightarrow> 'w \<Rightarrow> goerr option \<times> 'w) \<Rightarrow> (wired list \<Rightarrow> Command \<Rightarrow> 'w \<Rightarrow> goerr option \<times> 'w) \<Rightarrow>
     breader \<Rightarrow> 'w \<Rightarrow> (after \<times> breader \<times> 'w) option" where
  "shell_turn rf glob opn crt run b w =
     (case getCommand rf b of
        None \<Rightarrow> None
      | Some ((cs, status, err), b') \<Rightarrow>
          Some (case doArgs rf glob cs of
            Panic m \<Rightarrow> (Bummer m, b', w)
          | Fail e \<Rightarrow> (Again, b', w)
          | Ret cs' \<Rightarrow>
              (case commands cs' of
                 Panic m \<Rightarrow> (Bummer m, b', w)
               | Fail e \<Rightarrow> (Again, b', w)
               | Ret _ \<Rightarrow>
                   (case wire opn crt 0 cs' None w of
                      (Panic m, w') \<Rightarrow> (Bummer m, b', w')
                    | (Fail e, w') \<Rightarrow> (Again, b', w')
                    | (Ret ws, w') \<Rightarrow>
                        (if status = ''EOF'' then Finished else Again, b', run_line (run ws) cs' w')))))"

section \<open>Validated lines do not crash the shell\<close>

lemma expand_args_nonempty:
  "expand_args rf glob as acc = Inr gs \<Longrightarrow> as \<noteq> [] \<or> acc \<noteq> [] \<Longrightarrow> gs \<noteq> []"
  by (induction rf glob as acc rule: expand_args.induct)
     (auto split: if_splits sum.splits list.splits)

lemma doArgs_rules:
  assumes "check_rules cs = None"
  shows "(\<exists>e. doArgs rf glob cs = Fail e) \<or>
    (\<exists>cs'. doArgs rf glob cs = Ret cs' \<and> map link cs' = map link cs \<and> map fdmap cs' = map fdmap cs)"
  using assms
proof (induction cs)
  case Nil
  then show ?case by simp
next
  case (Cons c cs)
  have "args c \<noteq> []" and "check_rules cs = None"
    using Cons.prems by (simp_all split: if_splits)
  then show ?case
    using Cons.IH expand_args_nonempty [of rf glob "args c" "[]"]
    by (auto split: sum.splits list.splits)
qed

lemma andw_safe:
  "fst m \<noteq> Panic p \<Longrightarrow> (\<And>x w. m = (Ret x, w) \<Longrightarrow> fst (f x w) \<noteq> Panic p) \<Longrightarrow> fst (andw m f) \<noteq> Panic p"
  by (cases m; cases "fst m") (auto simp: andw_def)

lemma open_fd_safe: "fst (open_fd opn c fd w) \<noteq> Panic p"
  by (simp add: open_fd_def Let_def split: prod.split option.split)

lemma wire_no_panic:
  assumes "cs \<noteq> [] \<longrightarrow> link (last cs) \<noteq> ''|''"
  shows "fst (wire opn crt i cs pin w) \<noteq> Panic m"
  using assms
proof (induction cs arbitrary: i pin w)
  case Nil
  then show ?case by simp
next
  case (Cons c cs)
  have "link c \<noteq> ''|'' \<or> cs \<noteq> []" using Cons.prems by (cases cs) auto
  moreover have "fst (wire opn crt (Suc i) cs pin' w') \<noteq> Panic m" for pin' w'
    using Cons.prems by (intro Cons.IH) (auto split: if_splits)
  ultimately show ?case
    unfolding wire.simps
    by (intro andw_safe) (auto simp: open_fd_safe split: option.split)
qed

lemma check_rules_last: "check_rules cs = None \<Longrightarrow> cs \<noteq> [] \<longrightarrow> link (last cs) \<noteq> ''|''"
  by (induction cs) (auto split: if_splits)

lemma getCommand_rules: "getCommand rf b = Some ((cs, t, err), b') \<Longrightarrow> check_rules cs = None"
  by (auto simp: getCommand_def split: option.splits prod.splits outcome.splits)

text \<open>
  C10. A line that \<^verbatim>\<open>getCommand\<close> returns cannot crash the shell in argument expansion or
  wiring, for every file system and every result of opening files: \<^verbatim>\<open>doArgs\<close> always finds
  a command word, and \<^verbatim>\<open>wire\<close> never looks for a command behind the last.
\<close>

theorem rush_line_safe:
  assumes "getCommand rf b = Some ((cs, t, err), b')"
  shows "(\<exists>e. doArgs rf glob cs = Fail e) \<or>
    (\<exists>cs'. doArgs rf glob cs = Ret cs' \<and> fst (wire opn crt 0 cs' None w) \<noteq> Panic m)"
proof -
  have ok: "check_rules cs = None" using assms by (rule getCommand_rules)
  have "fst (wire opn crt 0 cs' None w) \<noteq> Panic m" if "map link cs' = map link cs" for cs'
  proof (rule wire_no_panic)
    show "cs' \<noteq> [] \<longrightarrow> link (last cs') \<noteq> ''|''"
      using that check_rules_last [OF ok] by (metis last_map map_is_Nil_conv)
  qed
  with doArgs_rules [OF ok, of rf glob] show ?thesis by blast
qed

section \<open>Parsing a line\<close>

text \<open>Words made of ASCII characters without a meaning to the tokenizer.\<close>

definition plain :: "char \<Rightarrow> bool" where
  "plain c \<longleftrightarrow> c \<notin> punct \<and> c \<noteq> nul \<and> c \<noteq> CHR 0x5C \<and> (of_char c :: nat) < 128"

definition plain_word :: "string \<Rightarrow> bool" where
  "plain_word w \<longleftrightarrow> w \<noteq> [] \<and> list_all plain w \<and> hd w \<noteq> CHR 0x27"

text \<open>A command as text: every word followed by a space, then the link or the end of the line.\<close>

definition text_words :: "string list \<Rightarrow> string" where
  "text_words ws = concat (map (\<lambda>w. w @ '' '') ws)"

fun line_text :: "(string list \<times> string) list \<Rightarrow> string" where
  "line_text [] = []"
| "line_text ((ws, l) # cs) = text_words ws @ (if cs = [] then [newline] else l @ '' '' @ line_text cs)"

fun line_ok :: "(string list \<times> string) list \<Rightarrow> bool" where
  "line_ok [] \<longleftrightarrow> False"
| "line_ok ((ws, l) # cs) \<longleftrightarrow> ws \<noteq> [] \<and> list_all plain_word ws \<and>
     (if cs = [] then l = '''' else l \<in> {''|'', ''||'', ''&&''} \<and> line_ok cs)"

definition as_command :: "string list \<times> string \<Rightarrow> Command" where
  "as_command c = newCommand\<lparr>args := map (\<lambda>w. (w, ''ARG'')) (fst c), link := snd c\<rparr>"

lemma next_plain: "plain c \<Longrightarrow> next_char \<lparr>unread = c # cs, lastByte = l\<rparr> = (c, \<lparr>unread = cs, lastByte = Some c\<rparr>)"
  by (simp add: next_char_def one_def plain_def)

lemma next_punct:
  "c \<in> punct \<Longrightarrow> next_char \<lparr>unread = c # cs, lastByte = l\<rparr> = (c, \<lparr>unread = cs, lastByte = Some c\<rparr>)"
  by (auto simp: next_char_def one_def punct_def)

lemma string_of_plain: "plain c \<Longrightarrow> string_of_byte c = [c]"
  by (simp add: string_of_byte_def plain_def Let_def)

lemma word_loop_plain:
  assumes "list_all plain w" and "plain c" and "d \<in> punct"
  shows "word_loop c \<lparr>unread = w @ d # rest, lastByte = Some c\<rparr> arg =
    (Ret (arg @ c # w), \<lparr>unread = d # rest, lastByte = None\<rparr>)"
  using assms(1,2)
proof (induction w arbitrary: c arg)
  case Nil
  have "d \<noteq> nul" using assms(3) by (auto simp: punct_def)
  with Nil assms(3) show ?case
    by (simp add: word_loop.simps [of c] word_loop.simps [of d] next_punct string_of_plain pushback_def)
       (simp add: plain_def)
next
  case (Cons x w)
  then show ?case
    by (simp add: word_loop.simps [of c] next_plain string_of_plain) (simp add: plain_def)
qed

lemma plain_not_special: "plain c \<Longrightarrow> c \<noteq> CHR 0x27 \<Longrightarrow>
  c \<noteq> nul \<and> c \<noteq> CHR ''>'' \<and> c \<noteq> CHR ''<'' \<and> c \<noteq> CHR ''$'' \<and> c \<noteq> CHR 0x27 \<and> c \<noteq> CHR '' '' \<and>
  c \<noteq> tab \<and> c \<noteq> newline \<and> c \<noteq> CHR ''|'' \<and> c \<noteq> CHR ''&''"
  by (auto simp: plain_def punct_def)

lemma tok_word:
  assumes "plain_word w" and "d \<in> punct"
  shows "tok \<lparr>unread = w @ d # rest, lastByte = l\<rparr> =
    Some (Ret (''ARG'', w), \<lparr>unread = d # rest, lastByte = None\<rparr>)"
proof -
  obtain c w' where w: "w = c # w'" "plain c" "list_all plain w'" "c \<noteq> CHR 0x27"
    using assms(1) by (cases w) (auto simp: plain_word_def)
  note ns = plain_not_special [OF w(2,4)]
  show ?thesis
    using ns by (simp add: w(1) tok_def next_plain [OF w(2)] word_loop_plain [OF w(3,2) assms(2)])
qed

lemma tok_space:
  "tok \<lparr>unread = CHR '' '' # rest, lastByte = l\<rparr> =
     Some (Ret (''white'', '' ''), \<lparr>unread = rest, lastByte = Some (CHR '' '')\<rparr>)"
  by (simp add: tok_def next_punct punct_def)

lemma tok_newline:
  "tok \<lparr>unread = newline # rest, lastByte = l\<rparr> =
     Some (Ret (''EOL'', ''''), \<lparr>unread = rest, lastByte = Some newline\<rparr>)"
  by (simp add: tok_def next_punct punct_def)

lemma tok_link:
  assumes "l \<in> {''|'', ''||'', ''&&''}"
  shows "\<exists>lb. tok \<lparr>unread = l @ '' '' @ rest, lastByte = lb0\<rparr> =
    Some (Ret (''LINK'', l), \<lparr>unread = '' '' @ rest, lastByte = lb\<rparr>)"
  using assms by (auto simp: tok_def next_punct punct_def one_def pushback_def)

text \<open>The parser from the next token on.\<close>

definition parse_on :: "(string \<Rightarrow> goerr + bytes) \<Rightarrow> breader \<Rightarrow> Command \<Rightarrow> (Command \<times> string) parsed" where
  "parse_on rf b c = bindp (tok b) (\<lambda>(t, s) b. parse_loop rf t s b c)"

lemma parse_on_tok: "tok b = Some (Ret (t, s), b') \<Longrightarrow> parse_on rf b c = parse_loop rf t s b' c"
  by (simp add: parse_on_def)

lemma parse_loop_tokens:
  "parse_loop rf ''white'' s b c = parse_on rf b c"
  "parse_loop rf ''ARG'' s b c = parse_on rf b (c\<lparr>args := args c @ [(s, ''ARG'')]\<rparr>)"
  "parse_loop rf ''LINK'' s b c = Some (Ret (c\<lparr>link := s\<rparr>, ''LINK''), b)"
  "parse_loop rf ''BG'' s b c = Some (Ret (c\<lparr>bg := True\<rparr>, ''BG''), b)"
  "parse_loop rf ''EOL'' s b c = Some (Ret (c, ''EOL''), b)"
  by (simp_all add: parse_loop.simps [of rf _ s b c] parse_on_def)

lemma parse_on_space:
  "parse_on rf \<lparr>unread = CHR '' '' # rest, lastByte = l\<rparr> c =
     parse_on rf \<lparr>unread = rest, lastByte = Some (CHR '' '')\<rparr> c"
  by (simp add: parse_on_tok [OF tok_space] parse_loop_tokens)

lemma parse_on_word:
  assumes "plain_word w"
  shows "parse_on rf \<lparr>unread = w @ CHR '' '' # rest, lastByte = l\<rparr> c =
     parse_on rf \<lparr>unread = rest, lastByte = Some (CHR '' '')\<rparr> (c\<lparr>args := args c @ [(w, ''ARG'')]\<rparr>)"
  using tok_word [OF assms, of "CHR '' ''" rest l]
  by (simp add: punct_def parse_on_tok parse_loop_tokens parse_on_space)

lemma parse_on_words:
  assumes "list_all plain_word ws"
  shows "\<exists>l'. parse_on rf \<lparr>unread = text_words ws @ rest, lastByte = l\<rparr> c =
     parse_on rf \<lparr>unread = rest, lastByte = l'\<rparr> (c\<lparr>args := args c @ map (\<lambda>w. (w, ''ARG'')) ws\<rparr>)"
  using assms
proof (induction ws arbitrary: l c)
  case Nil
  then show ?case by (auto simp: text_words_def)
next
  case (Cons w ws)
  then show ?case
    using Cons.IH [of "Some (CHR '' '')" "c\<lparr>args := args c @ [(w, ''ARG'')]\<rparr>"]
      parse_on_word [of w rf "text_words ws @ rest" l c]
    by (simp add: text_words_def)
qed

lemma parse_command_text:
  assumes "list_all plain_word ws" and "ws \<noteq> []" and "sp = '''' \<or> sp = '' ''"
  shows "\<exists>l'. parse rf \<lparr>unread = sp @ text_words ws @ rest, lastByte = l\<rparr> =
    bindp (parse_on rf \<lparr>unread = rest, lastByte = l'\<rparr> (newCommand\<lparr>args := map (\<lambda>w. (w, ''ARG'')) ws\<rparr>))
      (\<lambda>(c, t) b. Some (Ret (Some c, t), b))"
proof -
  obtain w ws' where ws: "ws = w # ws'" using assms(2) by (cases ws) auto
  let ?b = "\<lparr>unread = sp @ text_words ws @ rest, lastByte = l\<rparr>"
  have "\<exists>t s b'. tok ?b = Some (Ret (t, s), b') \<and> s \<noteq> [newline] \<and> t \<noteq> ''EOF'' \<and> t \<noteq> ''EOL''"
  proof (cases "sp = ''''")
    case True
    have "newline \<notin> set w" using assms(1) ws by (auto simp: plain_word_def plain_def punct_def list_all_iff)
    with True ws assms(1) tok_word [of w "CHR '' ''" "text_words ws' @ rest" l] show ?thesis
      by (auto simp: text_words_def punct_def)
  next
    case False
    with assms(3) show ?thesis by (auto simp: tok_space)
  qed
  then have p: "parse rf ?b = bindp (parse_on rf ?b newCommand) (\<lambda>(c, t) b. Some (Ret (Some c, t), b))"
    by (auto simp: parse_def parsestring_def parse_on_def)
  have "\<exists>l'. parse_on rf ?b newCommand =
      parse_on rf \<lparr>unread = rest, lastByte = l'\<rparr> (newCommand\<lparr>args := map (\<lambda>w. (w, ''ARG'')) ws\<rparr>)"
    using assms(3) parse_on_words [OF assms(1), of rf rest _ newCommand]
    by (auto simp: parse_on_space newCommand_def)
  with p show ?thesis by auto
qed

lemma parsecommands_line:
  assumes "line_ok cs" and "sp = '''' \<or> sp = '' ''"
  shows "parsecommands rf \<lparr>unread = sp @ line_text cs @ rest, lastByte = l\<rparr> acc =
    Some (Ret (acc @ map as_command cs, ''EOL''), \<lparr>unread = rest, lastByte = Some newline\<rparr>)"
  using assms
proof (induction cs arbitrary: sp l acc)
  case Nil
  then show ?case by simp
next
  case (Cons wl cs)
  obtain ws k where wl: "wl = (ws, k)" by force
  have ws: "list_all plain_word ws" "ws \<noteq> []" using Cons.prems(1) by (simp_all add: wl)
  let ?tail = "(if cs = [] then [newline] else k @ '' '' @ line_text cs) @ rest"
  let ?c = "newCommand\<lparr>args := map (\<lambda>w. (w, ''ARG'')) ws\<rparr>"
  obtain l' where p: "parse rf \<lparr>unread = sp @ line_text (wl # cs) @ rest, lastByte = l\<rparr> =
      bindp (parse_on rf \<lparr>unread = ?tail, lastByte = l'\<rparr> ?c) (\<lambda>(c, t) b. Some (Ret (Some c, t), b))"
    using parse_command_text [OF ws Cons.prems(2), of rf ?tail l] by (auto simp: wl)
  show ?case
  proof (cases "cs = []")
    case True
    with p Cons.prems(1) show ?thesis
      by (simp add: parsecommands.simps [of rf _ acc] parse_on_tok [OF tok_newline] parse_loop_tokens
          wl as_command_def newCommand_def)
  next
    case False
    then have k: "k \<in> {''|'', ''||'', ''&&''}" "line_ok cs" using Cons.prems(1) by (simp_all add: wl)
    obtain lb where "tok \<lparr>unread = k @ '' '' @ line_text cs @ rest, lastByte = l'\<rparr> =
        Some (Ret (''LINK'', k), \<lparr>unread = '' '' @ line_text cs @ rest, lastByte = lb\<rparr>)"
      using tok_link [OF k(1)] by blast
    from p False parse_on_tok [OF this, of rf ?c]
    have "parse rf \<lparr>unread = sp @ line_text (wl # cs) @ rest, lastByte = l\<rparr> =
        Some (Ret (Some (as_command wl), ''LINK''), \<lparr>unread = '' '' @ line_text cs @ rest, lastByte = lb\<rparr>)"
      by (simp add: parse_loop_tokens wl as_command_def newCommand_def)
    then show ?thesis
      using Cons.IH [OF k(2), of "'' ''" lb "acc @ [as_command wl]"]
      by (subst parsecommands.simps) simp
  qed
qed

lemma as_command_simps:
  "args (as_command c) = map (\<lambda>w. (w, ''ARG'')) (fst c)" "link (as_command c) = snd c"
  "fd_name (as_command c) n = ''''"
  by (simp_all add: as_command_def newCommand_def fd_name_def)

lemma check_rules_line: "line_ok cs \<Longrightarrow> check_rules (map as_command cs) = None"
proof (induction cs rule: line_ok.induct)
  case 1
  then show ?case by simp
next
  case (2 ws l cs)
  then show ?case
    by (cases "cs = []") (simp_all add: as_command_simps hd_map)
qed

lemma getCommand_line:
  assumes "line_ok cs"
  shows "getCommand rf (newReader_bytes (line_text cs @ rest)) =
    Some ((map as_command cs, ''EOL'', None), \<lparr>unread = rest, lastByte = Some newline\<rparr>)"
  using parsecommands_line [OF assms, of "''''" rf rest None "[]"] check_rules_line [OF assms]
  by (simp add: getCommand_def newReader_bytes_def)

text \<open>
  C9. Parsing a line: commands made of plain words and joined by \<^verbatim>\<open>|\<close>,
  \<^verbatim>\<open>||\<close> or \<^verbatim>\<open>&&\<close> are parsed into exactly these words and links, without
  an error, and the rest of the input is left for the next line.
\<close>

theorem rush_parses_line:
  assumes "line_ok cs"
  shows "getCommand rf (newReader_bytes (line_text cs @ rest)) =
    Some ((map as_command cs, ''EOL'', None), \<lparr>unread = rest, lastByte = Some newline\<rparr>)"
  using assms by (rule getCommand_line)

theorem rush_parses_line_witness:
  "getCommand (\<lambda>_. Inl EOF) (newReader_bytes (''ls -l | wc '' @ [newline] @ ''pwd'')) =
     Some (([as_command ([''ls'', ''-l''], ''|''), as_command ([''wc''], '''')], ''EOL'', None),
           \<lparr>unread = ''pwd'', lastByte = Some newline\<rparr>)"
  using rush_parses_line [of "[([''ls'', ''-l''], ''|''), ([''wc''], '''')]" "\<lambda>_. Inl EOF" "''pwd''"]
  by (simp add: text_words_def plain_word_def plain_def punct_def)

theorem rush_line_safe_witness:
  "let cs = [as_command ([''ls''], ''|''), as_command ([''wc''], '''')]; none = (\<lambda>_ w. (None, w))
   in (\<exists>e. doArgs (\<lambda>_. Inl EOF) (\<lambda>_. Inr []) cs = Fail e) \<or>
      (\<exists>cs'. doArgs (\<lambda>_. Inl EOF) (\<lambda>_. Inr []) cs = Ret cs' \<and>
         fst (wire none none 0 cs' None ()) \<noteq> Panic ''index out of range'')"
proof -
  have "line_ok [([''ls''], ''|''), ([''wc''], '''')]"
    by (simp add: plain_word_def plain_def punct_def)
  from getCommand_line [OF this, of "\<lambda>_. Inl EOF" "''''"]
  have "getCommand (\<lambda>_. Inl EOF) (newReader_bytes (line_text [([''ls''], ''|''), ([''wc''], '''')])) =
      Some (([as_command ([''ls''], ''|''), as_command ([''wc''], '''')], ''EOL'', None),
        \<lparr>unread = '''', lastByte = Some newline\<rparr>)"
    by simp
  from rush_line_safe [OF this, of "\<lambda>_. Inr []" "\<lambda>_ w. (None, w)" "\<lambda>_ w. (None, w)" "()"
    "''index out of range''"]
  show ?thesis unfolding Let_def .
qed

section \<open>Lines that never end\<close>

lemma next_char_set: "next_char b = (c, b') \<Longrightarrow> (c = nul \<or> c \<in> set (unread b)) \<and> set (unread b') \<subseteq> set (unread b)"
  by (auto simp: next_char_def one_def split: list.splits if_splits)

lemma quote_loop_quote:
  assumes "quote_loop b arg = Some y"
  shows "CHR 0x27 \<in> set (unread b)"
proof (rule quote_loop.raw_induct [where P = "\<lambda>b _ _. CHR 0x27 \<in> set (unread b)", OF _ assms])
  fix rec and b :: breader and arg y
  assume IH: "\<And>b arg y. rec b arg = Some y \<Longrightarrow> CHR 0x27 \<in> set (unread b)"
    and body: "(case next_char b of (nc, b') \<Rightarrow>
        if nc = CHR 0x27 then Some (arg, b') else rec b' (arg @ string_of_byte nc)) = Some y"
  obtain c b' where n: "next_char b = (c, b')" by force
  note sub = next_char_set [OF n]
  show "CHR 0x27 \<in> set (unread b)"
  proof (cases "c = CHR 0x27")
    case True
    with sub show ?thesis by auto
  next
    case False
    with body n have "rec b' (arg @ string_of_byte c) = Some y" by simp
    from IH [OF this] sub show ?thesis by blast
  qed
qed

text \<open>
  C12. An input that starts with a quote and has no closing quote never ends, even at the end of the
  input: \<^verbatim>\<open>getCommand\<close> does not return.
\<close>

theorem rush_open_quote_diverges:
  assumes "CHR 0x27 \<notin> set s"
  shows "getCommand rf (newReader_bytes (CHR 0x27 # s)) = None"
proof -
  have "quote_loop \<lparr>unread = s, lastByte = Some (CHR 0x27)\<rparr> '''' = None"
    using quote_loop_quote [of "\<lparr>unread = s, lastByte = Some (CHR 0x27)\<rparr>"] assms
    by (cases "quote_loop \<lparr>unread = s, lastByte = Some (CHR 0x27)\<rparr> ''''") auto
  then have "tok (newReader_bytes (CHR 0x27 # s)) = None"
    by (simp add: tok_def newReader_bytes_def next_char_def one_def)
  then show ?thesis
    by (simp add: getCommand_def parsecommands.simps [of rf "newReader_bytes (CHR 0x27 # s)"] parse_def
        parsestring_def)
qed

theorem rush_open_quote_diverges_witness:
  "getCommand (\<lambda>_. Inl EOF) (newReader_bytes (CHR 0x27 # ''ls'')) = None"
  by (rule rush_open_quote_diverges) simp

lemma tok_trailing:
  "tok \<lparr>unread = ''|'', lastByte = l\<rparr> = Some (Ret (''LINK'', ''|''), \<lparr>unread = ''|'', lastByte = None\<rparr>)"
  "tok \<lparr>unread = ''&'', lastByte = l\<rparr> = Some (Ret (''BG'', ''EOL''), \<lparr>unread = ''&'', lastByte = None\<rparr>)"
  by (simp_all add: tok_def next_char_def one_def pushback_def)

lemma parse_trailing:
  assumes "s \<in> {''|'', ''&''}"
  shows "\<exists>c t. parse rf \<lparr>unread = s, lastByte = l\<rparr> =
    Some (Ret (Some c, t), \<lparr>unread = s, lastByte = None\<rparr>) \<and> t \<notin> {''EOF'', ''EOL''}"
  using assms by (auto simp: parse_def parsestring_def tok_trailing parse_loop_tokens)

lemma parsecommands_trailing:
  assumes "parsecommands rf b cs = Some y"
  shows "unread b \<notin> {''|'', ''&''}"
proof (rule parsecommands.raw_induct [where P = "\<lambda>_ b _ _. unread b \<notin> {''|'', ''&''}", OF _ assms])
  fix rec and rf :: "string \<Rightarrow> goerr + bytes" and b cs y
  assume IH: "\<And>rf b cs y. rec rf b cs = Some y \<Longrightarrow> unread b \<notin> {''|'', ''&''}"
    and body: "bindp (parse rf b) (\<lambda>(c, t) b. case c of
        None \<Rightarrow> Some (Ret (cs, t), b)
      | Some c \<Rightarrow> if t = ''EOF'' \<or> t = ''EOL'' then Some (Ret (cs @ [c], t), b)
                 else rec rf b (cs @ [c])) = Some y"
  show "unread b \<notin> {''|'', ''&''}"
  proof
    assume s: "unread b \<in> {''|'', ''&''}"
    then obtain c t where "parse rf b = Some (Ret (Some c, t), \<lparr>unread = unread b, lastByte = None\<rparr>)"
      "t \<notin> {''EOF'', ''EOL''}"
      using parse_trailing [of "unread b" rf "lastByte b"] by (cases b) auto
    with body have "rec rf \<lparr>unread = unread b, lastByte = None\<rparr> (cs @ [c]) = Some y" by simp
    from IH [OF this] s show False by simp
  qed
qed

text \<open>
  A command followed by a single \<^verbatim>\<open>|\<close> or \<^verbatim>\<open>&\<close> at the very end of the input
  never ends: at the end of the input \<^verbatim>\<open>pushback\<close> puts the link itself back, and it is
  parsed again as another command, for ever.
\<close>

lemma rush_trailing_link_diverges:
  assumes "plain_word w" and "s \<in> {''|'', ''&''}"
  shows "getCommand rf (newReader_bytes (w @ '' '' @ s)) = None"
proof -
  let ?b = "newReader_bytes (w @ '' '' @ s)"
  obtain l where p: "parse rf ?b = bindp (parse_on rf \<lparr>unread = s, lastByte = l\<rparr>
      (newCommand\<lparr>args := [(w, ''ARG'')]\<rparr>)) (\<lambda>(c, t) b. Some (Ret (Some c, t), b))"
    using parse_command_text [of "[w]" "''''" rf s None] assms(1)
    by (auto simp: newReader_bytes_def text_words_def)
  have "\<exists>c t. parse rf ?b = Some (Ret (Some c, t), \<lparr>unread = s, lastByte = None\<rparr>) \<and> t \<notin> {''EOF'', ''EOL''}"
    unfolding p using assms(2)
    by (auto simp: parse_on_tok [OF tok_trailing(1)] parse_on_tok [OF tok_trailing(2)] parse_loop_tokens)
  then obtain c t where "parse rf ?b = Some (Ret (Some c, t), \<lparr>unread = s, lastByte = None\<rparr>)"
    "t \<notin> {''EOF'', ''EOL''}" by blast
  then have "parsecommands rf ?b [] = parsecommands rf \<lparr>unread = s, lastByte = None\<rparr> [c]"
    by (subst parsecommands.simps) simp
  moreover have "parsecommands rf \<lparr>unread = s, lastByte = None\<rparr> [c] = None"
    using parsecommands_trailing [of rf "\<lparr>unread = s, lastByte = None\<rparr>" "[c]"] assms(2)
    by (cases "parsecommands rf \<lparr>unread = s, lastByte = None\<rparr> [c]") auto
  ultimately show ?thesis by (simp add: getCommand_def)
qed

text \<open>
  C11. Which commands of a line run: the loop of \<^verbatim>\<open>main\<close> goes from a command to the next if
  and only if the command succeeded and is not followed by \<^verbatim>\<open>||\<close>, or failed and is. In
  particular a failed command before \<^verbatim>\<open>&&\<close> ends the line, also when a \<^verbatim>\<open>||\<close>
  follows later.
\<close>

theorem rush_line_runs:
  "run_line (\<lambda>c w. (fails c, w @ [c])) cs w =
     w @ take (Suc (length (takeWhile (\<lambda>c. (fails c = None) \<noteq> (link c = ''||'')) cs))) cs"
  by (induction cs arbitrary: w) (auto split: option.splits)

end
