(* ===== verification/Ed.thy ===== *)
theory Ed
  imports Go_Strconv
begin

text \<open>
  \<^verbatim>\<open>src/cmds/ed\<close>: the line editor. \<^verbatim>\<open>text.go\<close> is the record \<open>ed_file\<close> with the
  operations of the \<^verbatim>\<open>Editor\<close> interface, \<^verbatim>\<open>bin.go\<close> the record \<open>ed_bin\<close>;
  \<^verbatim>\<open>command.go\<close> is written over a record of operations, as the source is over the interface.
  Line numbers are the signed 64-bit integers of the source.
\<close>

section \<open>Results\<close>

text \<open>
  What an operation does to an editor: it ends with an error or none, a new editor and the bytes it
  printed; or it exits the process; or it panics.
\<close>

datatype 'e edres = Did "goerr option" 'e bytes | Exited nat | Crashed string

section \<open>Lines of a text\<close>

text \<open>
  \<^verbatim>\<open>makeLines\<close>: \<open>cur\<close> is the slice from \<^verbatim>\<open>pos\<close> to the current index, \<open>sawnl\<close>
  says that it ended with a newline.
\<close>

fun make_loop :: "bytes \<Rightarrow> bool \<Rightarrow> bytes \<Rightarrow> bytes list \<Rightarrow> bytes list" where
  "make_loop [] sawnl cur acc = acc @ [cur]"
| "make_loop (v # vs) sawnl cur acc =
     (if sawnl then make_loop vs (v = newline) [v] (acc @ [cur])
      else make_loop vs (v = newline) (cur @ [v]) acc)"

definition makeLines :: "bytes \<Rightarrow> bytes list" where
  "makeLines n = (if n = [] then [] else make_loop n False [] [])"

record ed_file =
  f_dot :: int
  f_dirty :: bool
  f_lines :: "nat list"
  f_data :: "bytes option"
  f_pat :: string

text \<open>A nil slice and an empty slice have the same content.\<close>

definition content :: "ed_file \<Rightarrow> bytes" where
  "content f = (case f_data f of None \<Rightarrow> [] | Some d \<Rightarrow> d)"

fun fix_loop :: "nat \<Rightarrow> bool \<Rightarrow> bytes \<Rightarrow> nat list" where
  "fix_loop i sawnl [] = []"
| "fix_loop i sawnl (v # vs) =
     (if sawnl then i # fix_loop (Suc i) (v = newline) vs else fix_loop (Suc i) (v = newline) vs)"

definition fixLines :: "ed_file \<Rightarrow> ed_file" where
  "fixLines f =
     (if content f = [] then f\<lparr>f_lines := []\<rparr>
      else
        let ls = 0 # fix_loop 0 False (content f); n = int (length ls);
            dot = (if f_dot f < 1 then 1 else f_dot f);
            dot = (if dot > n then n else dot)
        in f\<lparr>f_lines := ls, f_dot := dot\<rparr>)"

text \<open>\<^verbatim>\<open>SliceX\<close>: \<open>None\<close> is an index out of range.\<close>

definition SliceX :: "ed_file \<Rightarrow> int \<Rightarrow> int \<Rightarrow> (nat \<times> nat) option" where
  "SliceX f startLine endLine =
     (let n = int (length (f_lines f)); len = length (content f)
      in if startLine > n then Some (len, len)
         else
           let start = (if startLine > 0 then f_lines f ! nat (startLine - 1) else 0);
               endLine = (if endLine < startLine then startLine else endLine)
           in if endLine \<noteq> startLine then
                if endLine \<ge> n then Some (start, len)
                else if endLine - 1 < 0 then None
                else Some (start, f_lines f ! nat (endLine - 1))
              else Some (start, start))"

definition slice :: "bytes \<Rightarrow> nat \<Rightarrow> nat \<Rightarrow> bytes option" where
  "slice d s e = (if s \<le> e \<and> e \<le> length d then Some (take (e - s) (drop s d)) else None)"

definition buffer_bytes :: "bytes \<Rightarrow> bytes option" where
  "buffer_bytes b = (if b = [] then None else Some b)"

definition file_Replace :: "ed_file \<Rightarrow> bytes \<Rightarrow> int \<Rightarrow> int \<Rightarrow> ed_file edres" where
  "file_Replace f n startLine endLine =
     (case f_data f of
        None \<Rightarrow> Did None (fixLines (f\<lparr>f_data := Some n\<rparr>)) []
      | Some d \<Rightarrow>
          (case SliceX f startLine endLine of
             None \<Rightarrow> Crashed ''index out of range''
           | Some (start, fin) \<Rightarrow>
               if start > length d \<or> fin > length d then Crashed ''slice bounds out of range''
               else Did None
                 (fixLines (f\<lparr>f_data := buffer_bytes (take start d @ n @ drop fin d)\<rparr>)) []))"

text \<open>\<^verbatim>\<open>Read\<close> of a stream that delivers \<open>d\<close> or fails.\<close>

definition file_Read :: "ed_file \<Rightarrow> goerr + bytes \<Rightarrow> int \<Rightarrow> int \<Rightarrow> ed_file edres" where
  "file_Read f r startLine endLine =
     (case r of
        Inl e \<Rightarrow> Did (Some e) f []
      | Inr d \<Rightarrow> file_Replace f d (wrap64 (startLine + 1)) endLine)"

definition file_Write :: "ed_file \<Rightarrow> int \<Rightarrow> int \<Rightarrow> ed_file edres" where
  "file_Write f startLine endLine =
     (if endLine < startLine \<or> startLine < 1 \<or> endLine > int (length (f_lines f)) + 1
      then Did (Some (Errorf ''file is %d lines and [start, end] is [%d, %d]'')) f []
      else (case SliceX f startLine endLine of
              None \<Rightarrow> Crashed ''index out of range''
            | Some (s, e) \<Rightarrow>
                (case slice (content f) s e of
                   None \<Rightarrow> Crashed ''slice bounds out of range''
                 | Some b \<Rightarrow> Did None f b)))"

definition file_Print :: "ed_file \<Rightarrow> int \<Rightarrow> int \<Rightarrow> ed_file edres" where
  "file_Print f start fin =
     (case file_Write f start fin of
        Did (Some e) f' out \<Rightarrow>
          Did (Some e) (if start < fin then f'\<lparr>f_dot := wrap64 (fin + 1)\<rparr> else f') out
      | r \<Rightarrow> r)"

text \<open>
  Regular expressions are a library: \<open>re\<close> compiles a pattern to a function that cuts a text into
  segments, each with the flag whether it is a match. \<^verbatim>\<open>ReplaceAllFunc\<close> replaces the matches.
\<close>

type_synonym segments = "(bool \<times> bytes) list"

fun sub_segments :: "bool \<Rightarrow> bytes \<Rightarrow> bool \<Rightarrow> segments \<Rightarrow> bytes \<times> bool" where
  "sub_segments g n replaced [] = ([], replaced)"
| "sub_segments g n replaced ((m, seg) # ss) =
     (let hit = m \<and> (g \<or> \<not> replaced)
      in case sub_segments g n (replaced \<or> hit) ss of (b, r) \<Rightarrow> ((if hit then n else seg) @ b, r))"

definition file_Sub ::
    "(string \<Rightarrow> goerr + (bytes \<Rightarrow> segments)) \<Rightarrow> ed_file \<Rightarrow> string \<Rightarrow> string \<Rightarrow> string \<Rightarrow> int \<Rightarrow> int \<Rightarrow> ed_file edres" where
  "file_Sub re f pat n opt startLine endLine =
     (if pat = [] then Did (Some (Errorf ''Empty RE'')) f []
      else (case re pat of
        Inl e \<Rightarrow> Did (Some e) f []
      | Inr cut_re \<Rightarrow>
          (case SliceX f startLine endLine of
             None \<Rightarrow> Crashed ''index out of range''
           | Some (s, e) \<Rightarrow>
               (case slice (content f) s e of
                  None \<Rightarrow> Crashed ''slice bounds out of range''
                | Some old \<Rightarrow>
                    if old = [] then Did None f []
                    else
                      let subs = map (\<lambda>l. sub_segments (CHR ''g'' \<in> set opt) n False (cut_re l)) (makeLines old);
                          d = take s (content f) @ concat (map fst subs) @ drop e (content f);
                          f' = fixLines (f\<lparr>f_dirty := f_dirty f \<or> list_ex snd subs, f_data := Some d\<rparr>)
                      in if CHR ''p'' \<in> set opt then file_Write f' startLine endLine
                         else Did None f' []))))"

definition file_Range :: "ed_file \<Rightarrow> int \<times> int" where
  "file_Range f = (if f_lines f = [] then (0, 0) else (1, int (length (f_lines f))))"

definition new_file :: ed_file where
  "new_file = \<lparr>f_dot = 0, f_dirty = False, f_lines = [], f_data = None, f_pat = ''''\<rparr>"

text \<open>\<^verbatim>\<open>NewTextEditor(readFile(n))\<close> on the content of the file, or without arguments.\<close>

definition NewTextEditor :: "(goerr + bytes) option \<Rightarrow> ed_file edres" where
  "NewTextEditor arg =
     (case arg of
        None \<Rightarrow> Did None (new_file\<lparr>f_dot := 1\<rparr>) []
      | Some r \<Rightarrow>
          (case file_Read new_file r 0 0 of
             Did None f out \<Rightarrow> Did None (f\<lparr>f_dot := 1\<rparr>) out
           | res \<Rightarrow> res))"

section \<open>Binary files\<close>

text \<open>
  \<^verbatim>\<open>bin.go\<close>. A slice expression may reach into the capacity behind the length, so the
  bytes there (\<open>b_spare\<close>) are part of the model; what a new buffer has there is the parameter \<open>sp\<close>.
\<close>

record ed_bin =
  b_dot :: int
  b_dirty :: bool
  b_data :: "bytes option"
  b_spare :: bytes

definition bin_content :: "ed_bin \<Rightarrow> bytes" where
  "bin_content f = (case b_data f of None \<Rightarrow> [] | Some d \<Rightarrow> d)"

definition bin_Replace :: "bytes \<Rightarrow> ed_bin \<Rightarrow> bytes \<Rightarrow> int \<Rightarrow> int \<Rightarrow> ed_bin edres" where
  "bin_Replace sp f n start fin =
     (case b_data f of
        None \<Rightarrow> Did None (f\<lparr>b_data := Some n, b_spare := sp\<rparr>) []
      | Some d \<Rightarrow>
          if start < 0 \<or> start > int (length d + length (b_spare f)) \<or> fin < 0 \<or> fin > int (length d)
          then Crashed ''slice bounds out of range''
          else
            let b = buffer_bytes (take (nat start) (d @ b_spare f) @ n @ drop (nat fin) d)
            in Did None (f\<lparr>b_data := b, b_spare := (if b = None then [] else sp)\<rparr>) [])"

definition bin_Read :: "bytes \<Rightarrow> ed_bin \<Rightarrow> goerr + bytes \<Rightarrow> int \<Rightarrow> int \<Rightarrow> ed_bin edres" where
  "bin_Read sp f r start fin =
     (case r of Inl e \<Rightarrow> Did (Some e) f [] | Inr d \<Rightarrow> bin_Replace sp f d start fin)"

definition bin_Write :: "ed_bin \<Rightarrow> int \<Rightarrow> int \<Rightarrow> ed_bin edres" where
  "bin_Write f start fin =
     (if fin < start \<or> start < 0 \<or> fin > int (length (bin_content f))
      then Did (Some (Errorf ''file is %d lines and [start, end] is [%d, %d]'')) f []
      else Did None f (take (nat (fin - start)) (drop (nat start) (bin_content f))))"

definition hex2 :: "char \<Rightarrow> string" where
  "hex2 c = (let n = of_char c :: nat in [digit_char (n div 16), digit_char (n mod 16)])"

definition fmt_08x_pad :: "nat \<Rightarrow> string" where
  "fmt_08x_pad n = (let h = format_nat 16 n in replicate (8 - length h) CHR ''0'' @ h)"

definition printable :: "char \<Rightarrow> char" where
  "printable c = (let n = of_char c :: nat in if n < 32 \<or> n > 126 then CHR ''.'' else c)"

definition dump_row :: "nat \<Rightarrow> bytes \<Rightarrow> string" where
  "dump_row l row =
     fmt_08x_pad l @ '' '' @ concat (map (\<lambda>c. hex2 c @ '' '') row) @ map printable row @ [newline]"

function dump_rows :: "bytes \<Rightarrow> nat \<Rightarrow> nat \<Rightarrow> string" where
  "dump_rows d l fin =
     (if l < fin then dump_row l (take (min 16 (fin - l)) (drop l d)) @ dump_rows d (l + 16) fin else [])"
  by pat_completeness auto
termination
  by (relation "measure (\<lambda>(_, l, fin). fin - l)") auto

declare dump_rows.simps [simp del]

definition bin_Print :: "ed_bin \<Rightarrow> int \<Rightarrow> int \<Rightarrow> ed_bin edres" where
  "bin_Print f start fin =
     (let fin = min fin (int (length (bin_content f)))
      in if start < 0 \<and> start < fin then Crashed ''index out of range''
         else Did None (f\<lparr>b_dot := fin\<rparr>)
                (if start < fin then dump_rows (bin_content f) (nat start) (nat fin) else []))"

fun hex_pairs :: "string \<Rightarrow> string \<Rightarrow> goerr + (bytes \<times> bytes)" where
  "hex_pairs (a # b # x) (c # d # y) =
     (case ParseUint 16 8 [a, b] of
        Inl _ \<Rightarrow> Inl (Errorf ''%s is not a hex number'')
      | Inr m \<Rightarrow>
          (case ParseUint 16 8 [c, d] of
             Inl _ \<Rightarrow> Inl (Errorf ''%s is not a hex number'')
           | Inr n \<Rightarrow>
               map_sum id (\<lambda>(xb, yb). (char_of m # xb, char_of n # yb)) (hex_pairs x y)))"
| "hex_pairs x y = Inr ([], [])"

text \<open>The replacement loop of \<^verbatim>\<open>Sub\<close> at index \<open>i\<close>, with \<open>k\<close> indices to go.\<close>

fun bin_sub_loop :: "bytes \<Rightarrow> bytes \<Rightarrow> bytes \<Rightarrow> nat \<Rightarrow> nat \<Rightarrow> bytes \<Rightarrow> bytes option" where
  "bin_sub_loop xb yb sp i 0 d = Some d"
| "bin_sub_loop xb yb sp i (Suc k) d =
     (let l = length xb
      in if i + l > length d + length sp then None
         else if take l (drop i (d @ sp)) = xb then
           (if i > length d then None
            else bin_sub_loop xb yb sp (Suc i) k
                   (take i d @ take (length d - i) yb @ drop (i + length yb) d))
         else bin_sub_loop xb yb sp (Suc i) k d)"

definition bin_Sub :: "ed_bin \<Rightarrow> string \<Rightarrow> string \<Rightarrow> string \<Rightarrow> int \<Rightarrow> int \<Rightarrow> ed_bin edres" where
  "bin_Sub f x y opt start fin =
     (if start < 0 \<or> fin < start \<or> fin > int (length (bin_content f) + length (b_spare f))
      then Crashed ''slice bounds out of range''
      else if length x \<noteq> length y then Did (Some (Errorf ''For now, old and new must be same len'')) f []
      else (case hex_pairs x y of
              Inl e \<Rightarrow> Did (Some e) f []
            | Inr (xb, yb) \<Rightarrow>
                (case bin_sub_loop xb yb (b_spare f) (nat start) (nat (fin - start)) (bin_content f) of
                   None \<Rightarrow> Crashed ''slice bounds out of range''
                 | Some d \<Rightarrow>
                     Did None (if b_data f = None then f else f\<lparr>b_data := Some d\<rparr>) [])))"

definition new_bin :: ed_bin where
  "new_bin = \<lparr>b_dot = 0, b_dirty = False, b_data = None, b_spare = []\<rparr>"

definition NewBinEditor :: "bytes \<Rightarrow> (goerr + bytes) option \<Rightarrow> ed_bin edres" where
  "NewBinEditor sp arg =
     (case arg of
        None \<Rightarrow> Did None new_bin []
      | Some r \<Rightarrow>
          (case bin_Read sp new_bin r 0 0 of
             Did None f out \<Rightarrow> Did None (f\<lparr>b_dot := 0\<rparr>) out
           | res \<Rightarrow> res))"

section \<open>Commands\<close>

text \<open>The interface \<^verbatim>\<open>Editor\<close> as a record of its operations.\<close>

record 'e editor =
  op_Dot :: "'e \<Rightarrow> int"
  op_Move :: "int \<Rightarrow> 'e \<Rightarrow> 'e"
  op_Range :: "'e \<Rightarrow> int \<times> int"
  op_Replace :: "'e \<Rightarrow> bytes \<Rightarrow> int \<Rightarrow> int \<Rightarrow> 'e edres"
  op_Read :: "'e \<Rightarrow> goerr + bytes \<Rightarrow> int \<Rightarrow> int \<Rightarrow> 'e edres"
  op_Write :: "'e \<Rightarrow> int \<Rightarrow> int \<Rightarrow> 'e edres"
  op_Sub :: "'e \<Rightarrow> string \<Rightarrow> string \<Rightarrow> string \<Rightarrow> int \<Rightarrow> int \<Rightarrow> 'e edres"
  op_Print :: "'e \<Rightarrow> int \<Rightarrow> int \<Rightarrow> 'e edres"
  op_IsDirty :: "'e \<Rightarrow> bool"
  op_Dirty :: "bool \<Rightarrow> 'e \<Rightarrow> 'e"

definition text_editor :: "(string \<Rightarrow> goerr + (bytes \<Rightarrow> segments)) \<Rightarrow> ed_file editor" where
  "text_editor re =
     \<lparr>op_Dot = f_dot, op_Move = (\<lambda>d f. f\<lparr>f_dot := d\<rparr>), op_Range = file_Range, op_Replace = file_Replace,
      op_Read = file_Read, op_Write = file_Write, op_Sub = file_Sub re, op_Print = file_Print,
      op_IsDirty = f_dirty, op_Dirty = (\<lambda>b f. f\<lparr>f_dirty := b\<rparr>)\<rparr>"

definition bin_editor :: "bytes \<Rightarrow> ed_bin editor" where
  "bin_editor sp =
     \<lparr>op_Dot = b_dot, op_Move = (\<lambda>d f. f\<lparr>b_dot := d\<rparr>),
      op_Range = (\<lambda>f. (0, int (length (bin_content f)))), op_Replace = bin_Replace sp,
      op_Read = bin_Read sp, op_Write = bin_Write, op_Sub = bin_Sub, op_Print = bin_Print,
      op_IsDirty = b_dirty, op_Dirty = (\<lambda>b f. f\<lparr>b_dirty := b\<rparr>)\<rparr>"

text \<open>\<^verbatim>\<open>strings.SplitN(s, sep, 3)\<close> for a separator of one byte.\<close>

definition splitn3 :: "char \<Rightarrow> string \<Rightarrow> string list" where
  "splitn3 c s =
     (let ps = split_on c s
      in if length ps \<le> 3 then ps else [ps ! 0, ps ! 1, join_with [c] (drop 2 ps)])"

fun map_edres :: "(goerr option \<Rightarrow> 'e \<Rightarrow> bytes \<Rightarrow> 'f edres) \<Rightarrow> 'e edres \<Rightarrow> 'f edres" where
  "map_edres k (Did err f out) = k err f out"
| "map_edres k (Exited n) = Exited n"
| "map_edres k (Crashed m) = Crashed m"

definition err_text :: "goerr option \<Rightarrow> string" where
  "err_text e =
     (case e of
        None \<Rightarrow> ''<nil>''
      | Some (Errorf s) \<Rightarrow> s
      | Some (Errno s) \<Rightarrow> s
      | Some EOF \<Rightarrow> ''EOF''
      | Some ErrUnexpectedEOF \<Rightarrow> ''unexpected EOF''
      | Some ErrShortWrite \<Rightarrow> ''short write'')"

text \<open>\<^verbatim>\<open>Command\<close>; \<open>opn\<close> is \<^verbatim>\<open>os.Open\<close> followed by reading the file.\<close>

definition ed_Command ::
    "'e editor \<Rightarrow> (string \<Rightarrow> goerr + (goerr + bytes)) \<Rightarrow> 'e \<Rightarrow> string \<Rightarrow> int \<Rightarrow> int \<Rightarrow> 'e edres" where
  "ed_Command ed opn f c startLine endLine =
     (let read = (\<lambda>a startLine endLine.
            case opn (trim_left a {CHR '' '', tab}) of
              Inl e \<Rightarrow> Did (Some e) f []
            | Inr r \<Rightarrow> op_Read ed f r startLine endLine)
      in case c of
           [] \<Rightarrow>
             map_edres (\<lambda>err f out. Did err (op_Move ed (wrap64 (endLine + 1)) f) out)
               (op_Write ed f (op_Dot ed f) (op_Dot ed f))
         | c0 # a \<Rightarrow>
             if (c0 = CHR ''q'' \<or> c0 = CHR ''e'') \<and> op_IsDirty ed f
             then Did (Some (Errorf ''f was dirty, no longer is, try again'')) (op_Dirty ed False f) []
             else if c0 = CHR ''d'' then
               map_edres (\<lambda>_ f out. Did None f out) (op_Replace ed f [] startLine endLine)
             else if c0 = CHR ''q'' then Exited 1
             else if c0 = CHR ''e'' then read a 0 (snd (op_Range ed f))
             else if c0 = CHR ''r'' then read a startLine endLine
             else if c0 = CHR ''s'' then
               (case a of
                  [] \<Rightarrow> Crashed ''slice bounds out of range''
                | sep # a' \<Rightarrow>
                    (case splitn3 sep a' of
                       x # y # opt # _ \<Rightarrow> op_Sub ed f x y opt startLine endLine
                     | _ \<Rightarrow> Crashed ''index out of range''))
             else if c0 = CHR ''w'' then op_Write ed f startLine endLine
             else if c0 = CHR ''p'' then
               map_edres (\<lambda>err f out. Did err f (''what the shit'' @ out @ ''shiw '' @ err_text err))
                 (op_Print ed f startLine endLine)
             else Did (Some (Errorf ''%c: unknown command'')) f [])"

text \<open>The regular expressions \<^verbatim>\<open>^[0-9][0-9]*\<close> and \<^verbatim>\<open>^/[^/]/\<close>: the text matched.\<close>

definition num_FindString :: "string \<Rightarrow> string" where
  "num_FindString l = takeWhile is_digit l"

definition startsearch_FindString :: "string \<Rightarrow> string" where
  "startsearch_FindString l =
     (case l of
        c # cs \<Rightarrow>
          let n = rune_size cs
          in if c = slash \<and> cs \<noteq> [] \<and> hd cs \<noteq> slash \<and> n < length cs \<and> cs ! n = slash
             then take (n + 2) l else []
      | [] \<Rightarrow> [])"

text \<open>
  \<^verbatim>\<open>DoCommand\<close>: the optional start address, the optional end address, then the command.
  The helper gives the start line, the editor and the rest of the line.
\<close>

definition start_address :: "'e editor \<Rightarrow> 'e \<Rightarrow> string \<Rightarrow> goerr + (int \<times> 'e \<times> string)" where
  "start_address ed f l =
     (if l \<noteq> [] \<and> hd l = CHR ''.'' then Inr (op_Dot ed f, f, tl l)
      else if l \<noteq> [] \<and> hd l = CHR ''$'' then
        (let f' = op_Move ed (snd (op_Range ed f)) f in Inr (op_Dot ed f', f', tl l))
      else if startsearch_FindString l \<noteq> []
      then Inr (op_Dot ed f, f, drop (length (startsearch_FindString l)) l)
      else if num_FindString l \<noteq> [] then
        (case Atoi (num_FindString l) of
           Inl e \<Rightarrow> Inl e
         | Inr n \<Rightarrow> Inr (n, op_Move ed n f, drop (length (num_FindString l)) l))
      else Inr (op_Dot ed f, f, l))"

definition end_address :: "'e editor \<Rightarrow> 'e \<Rightarrow> string \<Rightarrow> goerr + (int \<times> string)" where
  "end_address ed f l =
     (if l = [] \<or> hd l \<noteq> CHR '','' then Inr (op_Dot ed f, l)
      else
        let l = tl l
        in if l = [] then Inl (Errorf ''line ended at a ,?'')
           else if hd l = CHR ''.'' then Inr (op_Dot ed f, tl l)
           else if hd l = CHR ''$'' then Inr (snd (op_Range ed f), tl l)
           else if startsearch_FindString l \<noteq> [] then Inr (op_Dot ed f, l)
           else if num_FindString l \<noteq> [] then
             map_sum id (\<lambda>n. (n, drop (length (num_FindString l)) l)) (Atoi (num_FindString l))
           else Inr (op_Dot ed f, l))"

definition DoCommand :: "'e editor \<Rightarrow> (string \<Rightarrow> goerr + (goerr + bytes)) \<Rightarrow> 'e \<Rightarrow> string \<Rightarrow> 'e edres" where
  "DoCommand ed opn f l =
     (if l = [] then
        map_edres (\<lambda>err f out. Did err (op_Move ed (wrap64 (op_Dot ed f + 1)) f) out)
          (op_Write ed f (op_Dot ed f) (op_Dot ed f))
      else (case start_address ed f l of
              Inl e \<Rightarrow> Did (Some e) f []
            | Inr (startLine, f, l) \<Rightarrow>
                (case end_address ed f l of
                   Inl e \<Rightarrow> Did (Some e) f []
                 | Inr (endLine, l) \<Rightarrow> ed_Command ed opn f l startLine (wrap64 (endLine + 1)))))"

text \<open>The command loop of \<^verbatim>\<open>main\<close> over the lines of the input.\<close>

fun ed_session :: "'e editor \<Rightarrow> (string \<Rightarrow> goerr + (goerr + bytes)) \<Rightarrow> 'e \<Rightarrow> string list \<Rightarrow> bytes \<Rightarrow> 'e edres" where
  "ed_session ed opn f [] out = Did None f out"
| "ed_session ed opn f (l # ls) out =
     map_edres (\<lambda>err f out'. ed_session ed opn f ls (out @ out')) (DoCommand ed opn f l)"

text \<open>
  \<^verbatim>\<open>main\<close>: the table of editors, the file named by a single argument, then the commands. A kind of file
  that is not in the table leaves a nil function, which is called after the usage message.
\<close>

definition run_editor ::
    "'e editor \<Rightarrow> (string \<Rightarrow> goerr + (goerr + bytes)) \<Rightarrow> 'e edres \<Rightarrow> string list \<Rightarrow> unit edres" where
  "run_editor ed opn new input =
     (case new of
        Did None f out \<Rightarrow> map_edres (\<lambda>_ _ out. Did None () out) (ed_session ed opn f input out)
      | Did (Some e) f out \<Rightarrow> Exited 1
      | Exited n \<Rightarrow> Exited n
      | Crashed m \<Rightarrow> Crashed m)"

definition readFile :: "(string \<Rightarrow> goerr + (goerr + bytes)) \<Rightarrow> string \<Rightarrow> goerr + bytes" where
  "readFile opn n = (case opn n of Inl e \<Rightarrow> Inl e | Inr r \<Rightarrow> r)"

definition ed_main ::
    "(string \<Rightarrow> goerr + (bytes \<Rightarrow> segments)) \<Rightarrow> bytes \<Rightarrow> (string \<Rightarrow> goerr + (goerr + bytes)) \<Rightarrow>
     string \<Rightarrow> string list \<Rightarrow> string list \<Rightarrow> unit edres" where
  "ed_main re sp opn fileType args input =
     (let arg = (case args of [n] \<Rightarrow> Some (readFile opn n) | _ \<Rightarrow> None)
      in if fileType = ''text'' then run_editor (text_editor re) opn (NewTextEditor arg) input
         else if fileType = ''bin'' then run_editor (bin_editor sp) opn (NewBinEditor sp arg) input
         else Crashed ''nil dereference'')"

section \<open>The lines of a text\<close>

text \<open>The lines that \<^verbatim>\<open>makeLines\<close> still has to deliver, and the offsets at which lines start.\<close>

fun lines_from :: "bytes \<Rightarrow> bool \<Rightarrow> bytes \<Rightarrow> bytes list" where
  "lines_from [] sawnl cur = [cur]"
| "lines_from (v # vs) sawnl cur =
     (if sawnl then cur # lines_from vs (v = newline) [v] else lines_from vs (v = newline) (cur @ [v]))"

fun offsets :: "nat \<Rightarrow> bytes list \<Rightarrow> nat list" where
  "offsets i [] = []"
| "offsets i (l # ls) = i # offsets (i + length l) ls"

lemma make_loop_lines: "make_loop vs sawnl cur acc = acc @ lines_from vs sawnl cur"
  by (induction vs sawnl cur acc rule: make_loop.induct) auto

lemma makeLines_eq: "makeLines n = (if n = [] then [] else lines_from n False [])"
  by (simp add: makeLines_def make_loop_lines)

lemma concat_lines_from: "concat (lines_from vs sawnl cur) = cur @ vs"
  by (induction vs sawnl cur rule: lines_from.induct) auto

lemma concat_makeLines: "concat (makeLines n) = n"
  by (simp add: makeLines_eq concat_lines_from)

lemma fix_loop_offsets:
  "length cur \<le> i \<Longrightarrow>
   (i - length cur) # fix_loop i sawnl vs = offsets (i - length cur) (lines_from vs sawnl cur)"
proof (induction vs arbitrary: i sawnl cur)
  case Nil
  then show ?case by simp
next
  case (Cons v vs)
  show ?case
    using Cons.prems Cons.IH [of "[v]" "Suc i" "v = newline"] Cons.IH [of "cur @ [v]" "Suc i" "v = newline"]
    by simp
qed

lemma line_offsets: "n \<noteq> [] \<Longrightarrow> 0 # fix_loop 0 False n = offsets 0 (makeLines n)"
  using fix_loop_offsets [of "[]" 0 False n] by (simp add: makeLines_eq)

lemma length_offsets [simp]: "length (offsets i ls) = length ls"
  by (induction ls arbitrary: i) auto

lemma nth_offsets: "k < length ls \<Longrightarrow> offsets i ls ! k = i + length (concat (take k ls))"
  by (induction ls arbitrary: i k) (auto simp: nth_Cons' take_Cons' split: nat.splits)

text \<open>A line: not empty, and a newline can only be its last character.\<close>

definition is_line :: "bytes \<Rightarrow> bool" where
  "is_line l \<longleftrightarrow> l \<noteq> [] \<and> newline \<notin> set (butlast l)"

definition line_so_far :: "bool \<Rightarrow> bytes \<Rightarrow> bool" where
  "line_so_far sawnl cur \<longleftrightarrow> is_line cur \<and> sawnl = (last cur = newline)"

lemma line_so_far_step:
  "line_so_far (v = newline) [v]" "line_so_far False cur \<Longrightarrow> line_so_far (v = newline) (cur @ [v])"
  by (cases cur rule: rev_cases; auto simp: line_so_far_def is_line_def butlast_append)+

lemma lines_from_lines:
  "line_so_far sawnl cur \<Longrightarrow>
   list_all is_line (lines_from vs sawnl cur) \<and>
   list_all (\<lambda>l. last l = newline) (butlast (lines_from vs sawnl cur))"
proof (induction vs arbitrary: sawnl cur)
  case Nil
  then show ?case by (simp add: line_so_far_def)
next
  case (Cons v vs)
  have ne: "lines_from vs s c \<noteq> []" for s c by (induction vs s c rule: lines_from.induct) auto
  show ?case
  proof (cases sawnl)
    case True
    with Cons.prems Cons.IH [OF line_so_far_step(1)] ne show ?thesis
      by (simp add: line_so_far_def)
  next
    case False
    with Cons.prems Cons.IH [OF line_so_far_step(2)] show ?thesis by simp
  qed
qed

lemma makeLines_lines:
  "list_all is_line (makeLines n) \<and> list_all (\<lambda>l. last l = newline) (butlast (makeLines n))"
proof (cases n)
  case (Cons v vs)
  then show ?thesis using lines_from_lines [OF line_so_far_step(1) [of v], of vs] by (simp add: makeLines_eq)
qed (simp add: makeLines_eq)

section \<open>Line table and content agree\<close>

abbreviation lines_of :: "ed_file \<Rightarrow> bytes list" where
  "lines_of f \<equiv> makeLines (content f)"

definition in_sync :: "ed_file \<Rightarrow> bool" where
  "in_sync f \<longleftrightarrow> f_lines f = offsets 0 (lines_of f)"

lemma content_upd [simp]:
  "content (f\<lparr>f_data := d\<rparr>) = (case d of None \<Rightarrow> [] | Some b \<Rightarrow> b)"
  "content (f\<lparr>f_lines := ls\<rparr>) = content f" "content (f\<lparr>f_dot := i\<rparr>) = content f"
  "content (f\<lparr>f_dirty := b\<rparr>) = content f"
  by (simp_all add: content_def)

lemma in_sync_upd [simp]:
  "in_sync (f\<lparr>f_dot := i\<rparr>) = in_sync f" "in_sync (f\<lparr>f_dirty := b\<rparr>) = in_sync f"
  by (simp_all add: in_sync_def)

lemma fixLines_content [simp]: "content (fixLines f) = content f"
  by (simp add: fixLines_def Let_def)

lemma fixLines_in_sync [simp]: "in_sync (fixLines f)"
  by (simp add: fixLines_def Let_def in_sync_def line_offsets makeLines_eq [of "[]"])

text \<open>
  The lines a range stands for: from index \<open>a\<close> up to but not including index \<open>b\<close>, counted from zero. A
  range that ends at or behind the last line number reaches to the end of the file.
\<close>

definition range_of :: "nat \<Rightarrow> int \<Rightarrow> int \<Rightarrow> nat \<times> nat" where
  "range_of n s e =
     (let a = min (nat (s - 1)) n
      in (a, if e \<le> s \<or> s > int n then a else if e \<ge> int n then n else nat (e - 1)))"

lemma SliceX_range:
  assumes "in_sync f" and "1 \<le> s"
  shows "SliceX f s e =
    (case range_of (length (lines_of f)) s e of (a, b) \<Rightarrow>
       Some (length (concat (take a (lines_of f))), length (concat (take b (lines_of f)))))"
proof -
  let ?ls = "lines_of f" and ?n = "length (lines_of f)"
  have ls: "f_lines f = offsets 0 ?ls" using assms(1) by (simp add: in_sync_def)
  have len: "length (content f) = length (concat (take ?n ?ls))" by (simp add: concat_makeLines)
  have nth: "f_lines f ! k = length (concat (take k ?ls))" if "k < ?n" for k
    using that by (simp add: ls nth_offsets)
  show ?thesis
  proof (cases "s > int ?n")
    case True
    then have "\<not> nat (s - 1) < ?n" by linarith
    with True show ?thesis by (simp add: SliceX_def Let_def ls len range_of_def min_def)
  next
    case False
    with assms(2) have a: "nat (s - 1) < ?n" by linarith
    then have "min (nat (s - 1)) ?n = nat (s - 1)" by simp
    moreover have "nat (e - 1) < ?n" if "\<not> int ?n \<le> e" "s < e" using that assms(2) by linarith
    ultimately show ?thesis
      using False assms(2) a
      by (simp add: SliceX_def Let_def nth len range_of_def) (simp add: ls nth [unfolded ls])
  qed
qed

text \<open>A list of lines: every line but the last ends with a newline.\<close>

definition lines_wf :: "bytes list \<Rightarrow> bool" where
  "lines_wf ls \<longleftrightarrow> list_all is_line ls \<and> list_all (\<lambda>l. last l = newline) (butlast ls)"

lemma lines_wf_makeLines [simp]: "lines_wf (makeLines n)"
  by (simp add: lines_wf_def makeLines_lines)

lemma lines_from_plain: "newline \<notin> set xs \<Longrightarrow> lines_from (xs @ r) False cur = lines_from r False (cur @ xs)"
  by (induction xs arbitrary: cur) auto

lemma lines_from_next: "r \<noteq> [] \<Longrightarrow> lines_from r True cur = cur # lines_from r False []"
  by (cases r) auto

lemma lines_from_line:
  assumes "is_line l" and "r \<noteq> [] \<longrightarrow> last l = newline"
  shows "lines_from (l @ r) False [] = (if r = [] then [l] else l # lines_from r False [])"
proof -
  obtain xs v where l: "l = xs @ [v]" using assms(1) by (cases l rule: rev_cases) (auto simp: is_line_def)
  have "newline \<notin> set xs" using assms(1) by (simp add: l is_line_def)
  then have "lines_from (l @ r) False [] = lines_from r (v = newline) l"
    by (simp add: l lines_from_plain)
  then show ?thesis using assms(2) by (cases "r = []") (auto simp: l lines_from_next)
qed

lemma makeLines_concat: "lines_wf ls \<Longrightarrow> makeLines (concat ls) = ls"
proof (induction ls)
  case Nil
  then show ?case by (simp add: makeLines_eq)
next
  case (Cons l ls)
  have wf: "lines_wf ls" "is_line l" "ls \<noteq> [] \<longrightarrow> last l = newline"
    using Cons.prems by (auto simp: lines_wf_def split: if_splits)
  have "concat ls = [] \<longleftrightarrow> ls = []"
    using wf(1) by (cases ls) (auto simp: lines_wf_def is_line_def)
  with wf Cons.IH show ?case
    by (simp add: makeLines_eq lines_from_line is_line_def split: if_splits)
qed

lemma butlast_subsets:
  "set (butlast (drop b ls)) \<subseteq> set (butlast ls)" "set (butlast (take a ls)) \<subseteq> set (butlast ls)"
proof -
  show "set (butlast (drop b ls)) \<subseteq> set (butlast ls)"
    by (induction ls arbitrary: b) (auto simp: drop_Cons' split: if_splits)
  show "set (butlast (take a ls)) \<subseteq> set (butlast ls)"
    by (induction ls arbitrary: a) (auto simp: take_Cons' split: if_splits)
qed

lemma lines_wf_cut:
  assumes "lines_wf ls" and "a \<le> b"
  shows "lines_wf (take a ls @ drop b ls)"
proof -
  have last: "last l = newline" if "l \<in> set (take a ls)" "a < length ls" for l
  proof -
    have "set (take a ls) \<subseteq> set (butlast ls)"
      using that(2) by (simp add: butlast_conv_take set_take_subset_set_take)
    with that(1) assms show ?thesis by (auto simp: lines_wf_def list_all_iff)
  qed
  have "list_all (\<lambda>l. last l = newline) (butlast (take a ls @ drop b ls))"
    using assms last butlast_subsets [where ls = ls, THEN subsetD]
    by (cases "a < length ls") (auto simp: butlast_append lines_wf_def list_all_iff)
  moreover have "list_all is_line (take a ls @ drop b ls)"
    using assms by (auto simp: lines_wf_def list_all_iff dest: in_set_takeD in_set_dropD)
  ultimately show ?thesis by (simp add: lines_wf_def)
qed

section \<open>Replacing a range of lines\<close>

lemma take_concat: "take (length (concat (take a ls))) (concat ls) = concat (take a ls)"
  by (metis append_eq_conv_conj append_take_drop_id concat_append)

lemma drop_concat: "drop (length (concat (take a ls))) (concat ls) = concat (drop a ls)"
  by (metis append_eq_conv_conj append_take_drop_id concat_append)

lemma length_concat_take: "length (concat (take a ls)) \<le> length (concat ls)"
  by (metis append_take_drop_id concat_append le_add1 length_append)

lemma content_buffer [simp]: "(case buffer_bytes b of None \<Rightarrow> [] | Some d \<Rightarrow> d) = b"
  by (simp add: buffer_bytes_def)

lemma file_Replace_range:
  assumes "in_sync f" and "1 \<le> s" and "range_of (length (lines_of f)) s e = (a, b)"
  shows "\<exists>f'. file_Replace f n s e = Did None f' [] \<and> in_sync f' \<and>
    content f' = concat (take a (lines_of f)) @ n @ concat (drop b (lines_of f))"
proof (cases "f_data f")
  case None
  then have "content f = []" by (simp add: content_def)
  with None show ?thesis by (simp add: file_Replace_def makeLines_eq)
next
  case (Some d)
  let ?ls = "lines_of f"
  have d: "d = concat ?ls" using Some by (simp add: concat_makeLines content_def)
  show ?thesis
    using SliceX_range [OF assms(1,2), of e] assms(3)
    by (simp add: file_Replace_def Some) (simp add: d take_concat drop_concat length_concat_take not_less)
qed

section \<open>What every command keeps\<close>

fun keeps :: "('e \<Rightarrow> bool) \<Rightarrow> 'e edres \<Rightarrow> bool" where
  "keeps ok (Did _ f _) = ok f"
| "keeps ok (Exited _) = True"
| "keeps ok (Crashed _) = True"

lemma keeps_map_edres:
  "keeps ok r \<Longrightarrow> (\<And>err f out. ok f \<Longrightarrow> keeps ok (k err f out)) \<Longrightarrow> keeps ok (map_edres k r)"
  by (cases r) auto

text \<open>The contract of the \<^verbatim>\<open>Editor\<close> interface: every operation keeps the invariant of the editor.\<close>

locale editor_contract =
  fixes ed :: "'e editor" and ok :: "'e \<Rightarrow> bool"
  assumes Move: "ok f \<Longrightarrow> ok (op_Move ed d f)"
    and Dirty: "ok f \<Longrightarrow> ok (op_Dirty ed b f)"
    and Replace: "ok f \<Longrightarrow> keeps ok (op_Replace ed f n s e)"
    and Read: "ok f \<Longrightarrow> keeps ok (op_Read ed f r s e)"
    and Write: "ok f \<Longrightarrow> keeps ok (op_Write ed f s e)"
    and Sub: "ok f \<Longrightarrow> keeps ok (op_Sub ed f x y opt s e)"
    and Print: "ok f \<Longrightarrow> keeps ok (op_Print ed f s e)"
begin

lemma map_Did_keeps:
  "keeps ok r \<Longrightarrow> (\<And>err f out. ok f \<Longrightarrow> ok (h f)) \<Longrightarrow>
   keeps ok (map_edres (\<lambda>err f out. Did (g err) (h f) (p err out)) r)"
  by (cases r) auto

lemma Command_keeps:
  assumes "ok f"
  shows "keeps ok (ed_Command ed opn f c s e)"
proof (cases c)
  case Nil
  then show ?thesis by (simp add: ed_Command_def map_Did_keeps Write Move assms)
next
  case (Cons c0 a)
  have read: "keeps ok (case opn x of Inl e \<Rightarrow> Did (Some e) f [] | Inr r \<Rightarrow> op_Read ed f r m n)" for x m n
    by (simp add: assms Read split: sum.split)
  have subst: "keeps ok (case a of [] \<Rightarrow> Crashed m
      | sep # a' \<Rightarrow> (case splitn3 sep a' of x # y # opt # _ \<Rightarrow> op_Sub ed f x y opt s e | _ \<Rightarrow> Crashed n))" for m n
    by (simp add: assms Sub split: list.split)
  show ?thesis
    unfolding Cons ed_Command_def Let_def list.case
    by (simp add: if_splits assms Dirty Replace Write Print map_Did_keeps read subst)
qed

lemma start_address_keeps: "ok f \<Longrightarrow> start_address ed f l = Inr (n, f', l') \<Longrightarrow> ok f'"
  by (auto simp: start_address_def Let_def Move split: if_splits sum.splits)

lemma DoCommand_keeps: "ok f \<Longrightarrow> keeps ok (DoCommand ed opn f l)"
  using start_address_keeps [of f l]
  by (auto simp: DoCommand_def Write Move Command_keeps map_Did_keeps split: sum.splits)

lemma session_keeps: "ok f \<Longrightarrow> keeps ok (ed_session ed opn f ls out)"
proof (induction ls arbitrary: f out)
  case (Cons l ls)
  show ?case using DoCommand_keeps [OF Cons.prems] Cons.IH by (auto intro: keeps_map_edres)
qed simp

end

lemma file_Replace_keeps: "keeps in_sync (file_Replace f n s e)"
  by (simp add: file_Replace_def split: option.splits prod.splits)

lemma file_Write_keeps: "in_sync f \<Longrightarrow> keeps in_sync (file_Write f s e)"
  by (simp add: file_Write_def split: option.splits prod.splits)

lemma file_Print_keeps: "in_sync f \<Longrightarrow> keeps in_sync (file_Print f s e)"
  using file_Write_keeps [of f s e]
  by (auto simp: file_Print_def split: edres.splits option.splits)

lemma file_Sub_keeps: "in_sync f \<Longrightarrow> keeps in_sync (file_Sub re f x y opt s e)"
  by (simp add: file_Sub_def Let_def file_Write_keeps split: option.splits prod.splits sum.splits)

interpretation ted: editor_contract "text_editor re" in_sync for re
  by unfold_locales
    (simp_all add: text_editor_def file_Replace_keeps file_Write_keeps file_Print_keeps file_Sub_keeps
       file_Read_def split: sum.splits)

text \<open>There is no capacity behind a nil slice.\<close>

definition bin_ok :: "ed_bin \<Rightarrow> bool" where
  "bin_ok f \<longleftrightarrow> (b_data f = None \<longrightarrow> b_spare f = [])"

interpretation bed: editor_contract "bin_editor sp" bin_ok for sp
  by unfold_locales
    (auto simp: bin_editor_def bin_Replace_def bin_Read_def bin_Write_def bin_Sub_def bin_Print_def bin_ok_def
       Let_def split: sum.splits option.splits)

section \<open>Addresses\<close>

lemma text_editor_simps [simp]:
  "op_Dot (text_editor re) = f_dot" "op_Move (text_editor re) = (\<lambda>d f. f\<lparr>f_dot := d\<rparr>)"
  "op_Range (text_editor re) = file_Range" "op_Replace (text_editor re) = file_Replace"
  "op_Read (text_editor re) = file_Read" "op_IsDirty (text_editor re) = f_dirty"
  by (simp_all add: text_editor_def)

lemma number_text:
  assumes "0 \<le> k" and "\<not> is_digit c"
  shows "num_FindString (Itoa k @ c # l) = Itoa k" and "Itoa k \<noteq> []" and "is_digit (hd (Itoa k @ x))"
proof -
  have "list_all is_digit (Itoa k)" and ne: "Itoa k \<noteq> []"
    using assms(1) by (simp_all add: Itoa_def format_nat_digits)
  then show "num_FindString (Itoa k @ c # l) = Itoa k" and "Itoa k \<noteq> []" and "is_digit (hd (Itoa k @ x))"
    using assms(2) by (auto simp: num_FindString_def list_all_iff takeWhile_append2)
qed

lemma no_search: "is_digit (hd l) \<Longrightarrow> startsearch_FindString l = []"
  by (cases l) (auto simp: startsearch_FindString_def is_digit_def Let_def)

lemma address_digit: "is_digit c \<Longrightarrow> c \<noteq> CHR ''.'' \<and> c \<noteq> CHR ''$'' \<and> c \<noteq> CHR '',''"
  by (auto simp: is_digit_def)

lemma start_address_number:
  assumes "0 \<le> k" and "k < 2 ^ 63" and "\<not> is_digit c"
  shows "start_address ed f (Itoa k @ c # l) = Inr (k, op_Move ed k f, c # l)"
  using assms number_text(1) [OF assms(1,3), of l] number_text(2) [OF assms(1,3)]
    no_search [OF number_text(3) [OF assms(1,3)]] address_digit [OF number_text(3) [OF assms(1,3)]]
  by (simp add: start_address_def Atoi_Itoa)

lemma end_address_number:
  assumes "0 \<le> k" and "k < 2 ^ 63" and "\<not> is_digit c"
  shows "end_address ed f (CHR '','' # Itoa k @ c # l) = Inr (k, c # l)"
  using assms number_text(1) [OF assms(1,3), of l] number_text(2) [OF assms(1,3)]
    no_search [OF number_text(3) [OF assms(1,3)]] address_digit [OF number_text(3) [OF assms(1,3)]]
  by (simp add: end_address_def Atoi_Itoa)

lemma two_addresses:
  assumes "0 \<le> i" and "i < 2 ^ 63" and "0 \<le> j" and "j < 2 ^ 63 - 1" and "\<not> is_digit c"
  shows "DoCommand ed opn f (Itoa i @ '','' @ Itoa j @ c # l) =
    ed_Command ed opn (op_Move ed i f) (c # l) i (j + 1)"
proof -
  have "\<not> is_digit CHR '',''" by (simp add: is_digit_def)
  moreover have "wrap64 (j + 1) = j + 1" using assms by (intro wrap64_small) auto
  ultimately show ?thesis
    using assms by (simp add: DoCommand_def start_address_number end_address_number)
qed

lemma one_address:
  assumes "0 \<le> i" and "i < 2 ^ 63 - 1" and "\<not> is_digit c" and "c \<noteq> CHR '',''"
    and "op_Dot ed (op_Move ed i f) = i"
  shows "DoCommand ed opn f (Itoa i @ c # l) = ed_Command ed opn (op_Move ed i f) (c # l) i (i + 1)"
proof -
  have "wrap64 (i + 1) = i + 1" using assms by (intro wrap64_small) auto
  then show ?thesis using assms by (simp add: DoCommand_def start_address_number end_address_def)
qed

section \<open>Properties of the editor\<close>

text \<open>
  C13. Deleting the lines \<open>s\<close> to \<open>e\<close> with the command \<open>s,ed\<close> gives the lines before \<open>s\<close> followed by
  the lines behind \<open>e\<close>, as long as at least two lines follow \<open>e\<close>; when \<open>e\<close> is the last line but one, the
  last line is deleted with the range.
\<close>

theorem ed_delete_lines:
  assumes "in_sync f" and "1 \<le> s" and "s \<le> e" and "e < 2 ^ 63 - 1"
  shows "\<exists>f'. DoCommand (text_editor re) opn f (Itoa s @ '','' @ Itoa e @ ''d'') = Did None f' [] \<and>
    lines_of f' = take (nat s - 1) (lines_of f) @
      drop (if e + 1 < int (length (lines_of f)) then nat e else length (lines_of f)) (lines_of f)"
proof -
  let ?ls = "lines_of f" and ?g = "f\<lparr>f_dot := s\<rparr>"
  let ?b = "if e + 1 < int (length ?ls) then nat e else length ?ls"
  let ?a = "min (nat (s - 1)) (length ?ls)"
  have r: "range_of (length (lines_of ?g)) s (e + 1) = (?a, ?b)"
    using assms by (auto simp: range_of_def Let_def)
  obtain f' where f': "file_Replace ?g [] s (e + 1) = Did None f' []"
      "content f' = concat (take ?a ?ls @ drop ?b ?ls)"
    using file_Replace_range [OF _ assms(2) r, of "[]"] assms(1) by auto
  have "DoCommand (text_editor re) opn f (Itoa s @ '','' @ Itoa e @ ''d'') =
      ed_Command (text_editor re) opn ?g ''d'' s (e + 1)"
    using two_addresses [of s e "CHR ''d''" "text_editor re" opn f "[]"] assms by (simp add: is_digit_def)
  moreover have "lines_of f' = take ?a ?ls @ drop ?b ?ls"
    unfolding f'(2) using assms(2,3) by (intro makeLines_concat lines_wf_cut) auto
  moreover have "take ?a ?ls = take (nat s - 1) ?ls"
    using assms(2) by (cases "nat (s - 1) \<le> length ?ls") (auto simp: nat_diff_distrib)
  ultimately show ?thesis using f'(1) by (simp add: ed_Command_def)
qed

theorem ed_delete_lines_witness:
  "\<exists>f'. DoCommand (text_editor (\<lambda>_. Inl EOF)) (\<lambda>_. Inl EOF)
       (fixLines (new_file\<lparr>f_data := Some (''a'' @ [newline] @ ''b'' @ [newline] @ ''c'')\<rparr>)) ''1,2d'' =
         Did None f' [] \<and> lines_of f' = []"
proof -
  let ?f = "fixLines (new_file\<lparr>f_data := Some (''a'' @ [newline] @ ''b'' @ [newline] @ ''c'')\<rparr>)"
  have "Itoa 1 = ''1''" "Itoa 2 = ''2''" by code_simp+
  moreover have "lines_of ?f = [''a'' @ [newline], ''b'' @ [newline], ''c'']"
    by (simp add: makeLines_def)
  ultimately show ?thesis
    using ed_delete_lines [of ?f 1 2 "\<lambda>_. Inl EOF" "\<lambda>_. Inl EOF"] by simp
qed

text \<open>
  Reading a file at line \<open>k\<close> with the command \<open>kr name\<close> inserts its content behind the first \<open>k\<close> lines
  of the text and changes nothing else; line 0 is the start of the text.
\<close>

lemma ed_read_inserts:
  assumes "in_sync f" and "0 \<le> k" and "k < 2 ^ 63 - 1"
    and "opn (trim_left name {CHR '' '', tab}) = Inr (Inr d)"
  shows "\<exists>f'. DoCommand (text_editor re) opn f (Itoa k @ CHR ''r'' # name) = Did None f' [] \<and>
    content f' = concat (take (nat k) (lines_of f)) @ d @ concat (drop (nat k) (lines_of f))"
proof -
  let ?ls = "lines_of f" and ?g = "f\<lparr>f_dot := k\<rparr>" and ?a = "min (nat k) (length (lines_of f))"
  have w: "wrap64 (k + 1) = k + 1" using assms by (intro wrap64_small) auto
  have r: "range_of (length (lines_of ?g)) (k + 1) (k + 1) = (?a, ?a)"
    by (simp add: range_of_def Let_def)
  obtain f' where f': "file_Replace ?g d (k + 1) (k + 1) = Did None f' []"
      "content f' = concat (take ?a ?ls) @ d @ concat (drop ?a ?ls)"
    using file_Replace_range [OF _ _ r, of d] assms(1,2) by auto
  have "DoCommand (text_editor re) opn f (Itoa k @ CHR ''r'' # name) =
      ed_Command (text_editor re) opn ?g (CHR ''r'' # name) k (k + 1)"
    using one_address [of k "CHR ''r''" "text_editor re" f opn name] assms by (simp add: is_digit_def)
  moreover have "take ?a ?ls = take (nat k) ?ls" "drop ?a ?ls = drop (nat k) ?ls"
    by (auto simp: min_def)
  ultimately show ?thesis using f' assms(4) by (simp add: ed_Command_def file_Read_def w)
qed

text \<open>
  C14. However a text is opened and whatever commands are typed, the line table of the editor is at every
  prompt the table of the places where the lines of its content start.
\<close>

theorem ed_session_in_sync:
  "keeps in_sync
     (case NewTextEditor arg of
        Did None f out \<Rightarrow> ed_session (text_editor re) opn f cmds out
      | r \<Rightarrow> r)"
proof -
  have new: "in_sync new_file" by (simp add: new_file_def in_sync_def content_def makeLines_eq)
  then have "keeps in_sync (NewTextEditor arg)"
    using file_Replace_keeps
    by (auto simp: NewTextEditor_def file_Read_def split: option.splits sum.splits edres.splits)
       (metis keeps.simps(1))+
  then show ?thesis by (auto split: edres.splits option.splits intro: ted.session_keeps)
qed

end
