(* ===== verification/Go_Io.thy ===== *)
theory Go_Io
  imports Prelude
begin

text \<open>
  Streams of Go's \<^verbatim>\<open>io\<close> package (as of Go 1.9): readers and writers with a state, the contract of a
  source that delivers a finite text (locale \<open>byte_source\<close>) and of a sink that accepts everything (locale
  \<open>byte_sink\<close>), \<^verbatim>\<open>io.CopyN\<close> into \<^verbatim>\<open>ioutil.Discard\<close>,
  \<^verbatim>\<open>io.SectionReader\<close> and a file written at its current position.
\<close>

section \<open>Readers\<close>

text \<open>
  \<^verbatim>\<open>Read\<close> with a buffer of \<open>n\<close> bytes: the bytes delivered and the error, or a panic. The value
  \<open>None\<close> is a call that never returns.
\<close>

type_synonym 'r io_reader = "nat \<Rightarrow> 'r \<Rightarrow> ((bytes \<times> goerr option) outcome \<times> 'r) option"

text \<open>
  The contract of \<^verbatim>\<open>io.Reader\<close> for a source of finitely many bytes \<open>rem\<close>: a call delivers a
  nonempty prefix or reports the end, possibly together with the last bytes.
\<close>

locale byte_source =
  fixes rd :: "'r io_reader" and rem :: "'r \<Rightarrow> bytes" and okr :: "'r \<Rightarrow> bool"
  assumes read: "okr r \<Longrightarrow> 0 < n \<Longrightarrow>
    \<exists>b e r'. rd n r = Some (Ret (b, e), r') \<and> okr r' \<and> rem r = b @ rem r' \<and> length b \<le> n \<and>
      (if e = None then b \<noteq> [] else e = Some EOF \<and> rem r' = [])"

text \<open>
  \<^verbatim>\<open>io.CopyN(ioutil.Discard, r, n)\<close>: reads in pieces of at most 8192 bytes through a
  \<^verbatim>\<open>LimitedReader\<close> with \<open>left\<close> bytes to go.
\<close>

partial_function (option) discard_loop ::
    "'r io_reader \<Rightarrow> int \<Rightarrow> 'r \<Rightarrow> int \<Rightarrow> ((int \<times> goerr option) outcome \<times> 'r) option" where
  "discard_loop rd left r acc =
     (if left \<le> 0 then Some (Ret (acc, None), r)
      else (case rd (min 8192 (nat left)) r of
              None \<Rightarrow> None
            | Some (Ret (b, e), r') \<Rightarrow>
                if e = None then discard_loop rd (left - int (length b)) r' (acc + int (length b))
                else Some (Ret (acc + int (length b), if e = Some EOF then None else e), r')
            | Some (Fail e, r') \<Rightarrow> Some (Fail e, r')
            | Some (Panic m, r') \<Rightarrow> Some (Panic m, r')))"

definition CopyN_Discard :: "'r io_reader \<Rightarrow> int \<Rightarrow> 'r \<Rightarrow> ((int \<times> goerr option) outcome \<times> 'r) option" where
  "CopyN_Discard rd n r =
     (case discard_loop rd n r 0 of
        Some (Ret (w, e), r') \<Rightarrow>
          Some (Ret (if w = n then (n, None) else if w < n \<and> e = None then (w, Some EOF) else (w, e)), r')
      | res \<Rightarrow> res)"

context byte_source
begin

lemma discard_loop_source:
  "okr r \<Longrightarrow> \<exists>r'. discard_loop rd n r acc = Some (Ret (acc + min (int (length (rem r))) (max 0 n), None), r') \<and>
     okr r' \<and> rem r' = drop (nat n) (rem r)"
proof (induction "length (rem r)" arbitrary: r n acc rule: less_induct)
  case less
  show ?case
  proof (cases "n \<le> 0")
    case True
    with less.prems show ?thesis by (simp add: discard_loop.simps [of rd n r acc])
  next
    case False
    then obtain b e r' where *: "rd (min 8192 (nat n)) r = Some (Ret (b, e), r')" "okr r'" "rem r = b @ rem r'"
        "length b \<le> min 8192 (nat n)" "if e = None then b \<noteq> [] else e = Some EOF \<and> rem r' = []"
      using read [OF less.prems, of "min 8192 (nat n)"] by auto
    have b: "int (length b) \<le> n" using *(4) False by linarith
    show ?thesis
    proof (cases e)
      case None
      with * have "length (rem r') < length (rem r)" by simp
      then obtain r'' where r'': "discard_loop rd (n - int (length b)) r' (acc + int (length b)) =
          Some (Ret (acc + int (length b) + min (int (length (rem r'))) (max 0 (n - int (length b))), None), r'')"
          "okr r''" "rem r'' = drop (nat (n - int (length b))) (rem r')"
        using less.hyps [of r' "n - int (length b)" "acc + int (length b)"] *(2) by auto
      have "nat (n - int (length b)) = nat n - length b" by linarith
      moreover have "acc + int (length b) + min (int (length (rem r'))) (max 0 (n - int (length b))) =
          acc + min (int (length (rem r))) (max 0 n)"
        using *(3) b False by simp
      moreover have "length b \<le> nat n" using b by linarith
      ultimately show ?thesis
        using False None r'' *(1,3) by (simp add: discard_loop.simps [of rd n r acc])
    next
      case (Some x)
      with *(5) have "e = Some EOF" "rem r' = []" by auto
      with False b *(1-3) show ?thesis by (simp add: discard_loop.simps [of rd n r acc] min_def)
    qed
  qed
qed

lemma CopyN_Discard_source:
  assumes "okr r" and "0 \<le> n"
  shows "\<exists>r'. CopyN_Discard rd n r =
      Some (Ret (if n \<le> int (length (rem r)) then (n, None) else (int (length (rem r)), Some EOF)), r') \<and>
    okr r' \<and> rem r' = drop (nat n) (rem r)"
proof -
  obtain r' where "discard_loop rd n r 0 = Some (Ret (0 + min (int (length (rem r))) (max 0 n), None), r')"
      "okr r'" "rem r' = drop (nat n) (rem r)"
    using discard_loop_source [OF assms(1), of n 0] by auto
  with assms(2) show ?thesis by (auto simp: CopyN_Discard_def min_def)
qed

end

text \<open>
  \<^verbatim>\<open>io.SectionReader\<close> from offset \<open>off\<close> to \<open>limit\<close> of a \<^verbatim>\<open>ReaderAt\<close>.
\<close>

record SectionReader =
  sr_off :: int
  sr_limit :: int

definition NewSectionReader :: "int \<Rightarrow> int \<Rightarrow> SectionReader" where
  "NewSectionReader off n = \<lparr>sr_off = off, sr_limit = wrap64 (off + n)\<rparr>"

definition SectionReader_Read :: "reader_at \<Rightarrow> SectionReader io_reader" where
  "SectionReader_Read f n s =
     (if sr_off s \<ge> sr_limit s then Some (Ret ([], Some EOF), s)
      else
        let most = wrap64 (sr_limit s - sr_off s)
        in if most < 0 then Some (Panic ''slice bounds out of range'', s)
           else case f (min n (nat most)) (sr_off s) of (b, e) \<Rightarrow>
                  Some (Ret (b, e), s\<lparr>sr_off := wrap64 (sr_off s + int (length b))\<rparr>))"

text \<open>What is left of a section of a file with content \<open>d\<close>.\<close>

definition section_rem :: "bytes \<Rightarrow> SectionReader \<Rightarrow> bytes" where
  "section_rem d s = take (nat (sr_limit s - sr_off s)) (drop (nat (sr_off s)) d)"

definition section_ok :: "SectionReader \<Rightarrow> bool" where
  "section_ok s \<longleftrightarrow> 0 \<le> sr_off s \<and> sr_off s < 2 ^ 63 \<and> - (2 ^ 63) \<le> sr_limit s \<and> sr_limit s < 2 ^ 63"

lemma take_in_two:
  "m \<le> k \<Longrightarrow> take k xs = take m xs @ take (k - length (take m xs)) (drop (length (take m xs)) xs)"
  by (cases "m \<le> length xs") (simp_all add: take_add [symmetric] min_def)

lemma section_read:
  assumes "section_ok s" and "0 < n"
  shows "\<exists>b e s'. SectionReader_Read (file_at d) n s = Some (Ret (b, e), s') \<and> section_ok s' \<and>
    section_rem d s = b @ section_rem d s' \<and> length b \<le> n \<and>
    (if e = None then b \<noteq> [] else e = Some EOF \<and> section_rem d s' = [])"
proof (cases "sr_off s \<ge> sr_limit s")
  case True
  with assms show ?thesis by (simp add: SectionReader_Read_def section_rem_def)
next
  case False
  define m where "m = min n (nat (sr_limit s - sr_off s))"
  define b where "b = take m (drop (nat (sr_off s)) d)"
  define s' where "s' = s\<lparr>sr_off := sr_off s + int (length b)\<rparr>"
  have w: "wrap64 (sr_limit s - sr_off s) = sr_limit s - sr_off s"
    using assms(1) False by (intro wrap64_small) (auto simp: section_ok_def)
  have m: "0 < m" using assms(2) False by (simp add: m_def)
  have len: "length b \<le> m" by (simp add: b_def)
  have mk: "m \<le> nat (sr_limit s - sr_off s)" by (simp add: m_def)
  have le: "sr_off s + int (length b) \<le> sr_limit s" using False len mk by linarith
  have "wrap64 (sr_off s + int (length b)) = sr_off s + int (length b)"
    using assms(1) le by (intro wrap64_small) (auto simp: section_ok_def)
  then have "SectionReader_Read (file_at d) n s =
      Some (Ret (b, if length b < m then Some EOF else None), s')"
    using False assms(1) w by (simp add: SectionReader_Read_def file_at_def section_ok_def m_def b_def s'_def Let_def)
  moreover have "section_ok s'" using assms(1) le by (simp add: section_ok_def s'_def)
  moreover have "nat (sr_off s') = nat (sr_off s) + length b"
    "nat (sr_limit s' - sr_off s') = nat (sr_limit s - sr_off s) - length b"
    using assms(1) by (auto simp: section_ok_def s'_def nat_add_distrib)
  moreover note take_in_two [OF mk, of "drop (nat (sr_off s)) d"]
  moreover have "if length b < m then drop (length b) (drop (nat (sr_off s)) d) = [] else b \<noteq> []"
    using m by (auto simp: b_def)
  ultimately show ?thesis
    using len unfolding section_rem_def b_def [symmetric]
    by (intro exI [of _ b] exI [of _ "if length b < m then Some EOF else None"] exI [of _ s'])
       (auto simp: m_def add.commute split: if_splits)
qed

interpretation file_section: byte_source "SectionReader_Read (file_at d)" "section_rem d" section_ok for d
  by unfold_locales (rule section_read)

section \<open>Writers\<close>

text \<open>A sink that accepts everything while it is \<open>okw\<close>: \<open>app s b\<close> is the sink after the bytes \<open>b\<close>.\<close>

locale byte_sink =
  fixes wr :: "'s io_writer" and app :: "'s \<Rightarrow> bytes \<Rightarrow> 's" and okw :: "'s \<Rightarrow> bool"
  assumes writes: "okw s \<Longrightarrow> wr b s = ((length b, None), app s b)"
    and okw_app: "okw s \<Longrightarrow> okw (app s b)"
    and app_Nil [simp]: "app s [] = s"
    and app_app: "app (app s a) b = app s (a @ b)"

interpretation buf_sink: byte_sink buf_write "(@)" "\<lambda>_. True"
  by unfold_locales (simp_all add: buf_write_def)

text \<open>\<^verbatim>\<open>(*os.File).Write\<close> at the current position of a regular file.\<close>

type_synonym file_pos = "bytes \<times> nat"

definition file_append :: "file_pos \<Rightarrow> bytes \<Rightarrow> file_pos" where
  "file_append s b = (if b = [] then s else (put_at (fst s) (snd s) b, snd s + length b))"

definition file_Write_pos :: "file_pos io_writer" where
  "file_Write_pos b s = ((length b, None), file_append s b)"

lemma put_at_put_at: "put_at (put_at d off a) (off + length a) b = put_at d off (a @ b)"
  by (auto simp: put_at_def min_def ac_simps)

interpretation file_sink: byte_sink file_Write_pos file_append "\<lambda>_. True"
  by unfold_locales (auto simp: file_Write_pos_def file_append_def put_at_put_at)

end
