(* ===== verification/Go_Flag.thy ===== *)
theory Go_Flag
  imports Go_Strconv
begin

text \<open>
  \<^verbatim>\<open>flag.Parse\<close> of Go 1.9. A command's flags are a record \<open>'f\<close>; a formal flag says whether it is
  boolean and how its value is set. The program exits with status 2 on a malformed command line.
\<close>

type_synonym 'f formal = "string \<Rightarrow> (bool \<times> (string \<Rightarrow> 'f \<Rightarrow> goerr + 'f)) option"

datatype 'f parsed_one =
    Another 'f "string list"
  | Finished "string list"
  | BadFlag goerr

text \<open>\<^verbatim>\<open>name=value\<close> is cut at the first equals sign that is not the first character.\<close>

definition cut_value :: "string \<Rightarrow> string \<times> string option" where
  "cut_value name =
     (case name of
        [] \<Rightarrow> ([], None)
      | c # cs \<Rightarrow>
          let k = takeWhile (\<lambda>x. x \<noteq> CHR ''='') cs
          in if k = cs then (name, None) else (c # k, Some (drop (Suc (length k)) cs)))"

definition set_flag ::
    "string \<Rightarrow> string option \<Rightarrow> (bool \<times> (string \<Rightarrow> 'f \<Rightarrow> goerr + 'f)) \<Rightarrow> 'f \<Rightarrow> string list \<Rightarrow> 'f parsed_one" where
  "set_flag name value flag f args =
     (let store = (\<lambda>v args.
            case snd flag v f of Inl e \<Rightarrow> BadFlag (Errorf ''invalid value %q for flag -%s: %v'') | Inr f' \<Rightarrow> Another f' args)
      in case value of
           Some v \<Rightarrow> store v args
         | None \<Rightarrow>
             if fst flag then store ''true'' args
             else (case args of
                     [] \<Rightarrow> BadFlag (Errorf ''flag needs an argument: -%s'')
                   | v # args' \<Rightarrow> store v args'))"

definition parseOne :: "'f formal \<Rightarrow> 'f \<Rightarrow> string list \<Rightarrow> 'f parsed_one" where
  "parseOne formal f args =
     (case args of
        [] \<Rightarrow> Finished []
      | s # rest \<Rightarrow>
          if length s < 2 \<or> hd s \<noteq> CHR ''-'' then Finished args
          else if s = ''--'' then Finished rest
          else
            let name = (if s ! 1 = CHR ''-'' then drop 2 s else drop 1 s)
            in if name = [] \<or> hd name = CHR ''-'' \<or> hd name = CHR ''=''
               then BadFlag (Errorf ''bad flag syntax: %s'')
               else (case cut_value name of (n, value) \<Rightarrow>
                       (case formal n of
                          None \<Rightarrow> BadFlag (Errorf ''flag provided but not defined: -%s'')
                        | Some flag \<Rightarrow> set_flag n value flag f rest)))"

lemma set_flag_shorter: "set_flag n v flag f args = Another f' args' \<Longrightarrow> length args' \<le> length args"
  by (auto simp: set_flag_def Let_def split: option.splits list.splits sum.splits if_splits)

lemma parseOne_shorter: "parseOne formal f args = Another f' args' \<Longrightarrow> length args' < length args"
  by (auto simp: parseOne_def Let_def split: list.splits if_splits option.splits prod.splits
      dest!: set_flag_shorter)

text \<open>The flags and the arguments that remain, or the error that ends the program.\<close>

function Parse :: "'f formal \<Rightarrow> 'f \<Rightarrow> string list \<Rightarrow> goerr + ('f \<times> string list)" where
  "Parse formal f args =
     (case parseOne formal f args of
        Another f' args' \<Rightarrow> Parse formal f' args'
      | Finished rest \<Rightarrow> Inr (f, rest)
      | BadFlag e \<Rightarrow> Inl e)"
  by pat_completeness auto
termination
  by (relation "measure (\<lambda>(_, _, args). length args)") (auto dest: parseOne_shorter)

declare Parse.simps [simp del]

lemma Parse_value:
  assumes "formal n = Some (False, upd)" and "upd v f = Inr f'" and "n \<noteq> []" and "hd n \<noteq> CHR ''-''"
    and "CHR ''='' \<notin> set n"
  shows "Parse formal f ((CHR ''-'' # n) # v # args) = Parse formal f' args"
proof -
  have "takeWhile (\<lambda>x. x \<noteq> CHR ''='') (tl n) = tl n"
    using assms(5) by (cases n) (auto simp: takeWhile_eq_all_conv)
  then have "cut_value n = (n, None)" by (cases n) (auto simp: cut_value_def Let_def)
  moreover have "hd n \<noteq> CHR ''=''" using assms(3,5) by (cases n) auto
  ultimately have "parseOne formal f ((CHR ''-'' # n) # v # args) = Another f' args"
    using assms(1-4) by (cases n) (auto simp: parseOne_def set_flag_def Let_def)
  then show ?thesis by (subst Parse.simps) simp
qed

lemma Parse_done: "args = [] \<or> args \<noteq> [] \<and> (length (hd args) < 2 \<or> hd (hd args) \<noteq> CHR ''-'') \<Longrightarrow> Parse formal f args = Inr (f, args)"
  by (subst Parse.simps) (auto simp: parseOne_def split: list.splits)

text \<open>The kinds of values.\<close>

definition int64_flag :: "(int \<Rightarrow> 'f \<Rightarrow> 'f) \<Rightarrow> bool \<times> (string \<Rightarrow> 'f \<Rightarrow> goerr + 'f)" where
  "int64_flag upd = (False, \<lambda>v f. map_sum id (\<lambda>i. upd i f) (ParseInt0 v))"

definition string_flag :: "(string \<Rightarrow> 'f \<Rightarrow> 'f) \<Rightarrow> bool \<times> (string \<Rightarrow> 'f \<Rightarrow> goerr + 'f)" where
  "string_flag upd = (False, \<lambda>v f. Inr (upd v f))"

definition ParseBool :: "string \<Rightarrow> goerr + bool" where
  "ParseBool s =
     (if s \<in> {''1'', ''t'', ''T'', ''true'', ''TRUE'', ''True''} then Inr True
      else if s \<in> {''0'', ''f'', ''F'', ''false'', ''FALSE'', ''False''} then Inr False
      else Inl ErrSyntax)"

definition bool_flag :: "(bool \<Rightarrow> 'f \<Rightarrow> 'f) \<Rightarrow> bool \<times> (string \<Rightarrow> 'f \<Rightarrow> goerr + 'f)" where
  "bool_flag upd = (True, \<lambda>v f. map_sum id (\<lambda>b. upd b f) (ParseBool v))"

lemma Parse_bool:
  assumes "formal n = Some (True, upd)" and "upd ''true'' f = Inr f'" and "n \<noteq> []" and "hd n \<noteq> CHR ''-''"
    and "CHR ''='' \<notin> set n"
  shows "Parse formal f ((CHR ''-'' # n) # args) = Parse formal f' args"
proof -
  have "takeWhile (\<lambda>x. x \<noteq> CHR ''='') (tl n) = tl n"
    using assms(5) by (cases n) (auto simp: takeWhile_eq_all_conv)
  then have "cut_value n = (n, None)" by (cases n) (auto simp: cut_value_def Let_def)
  moreover have "hd n \<noteq> CHR ''=''" using assms(3,5) by (cases n) auto
  ultimately have "parseOne formal f ((CHR ''-'' # n) # args) = Another f' args"
    using assms(1-4) by (cases n) (auto simp: parseOne_def set_flag_def Let_def)
  then show ?thesis by (subst Parse.simps) simp
qed

lemma Parse_bool_flag:
  assumes "formal n = Some (bool_flag upd)" and "n \<noteq> []" and "hd n \<noteq> CHR ''-''" and "CHR ''='' \<notin> set n"
  shows "Parse formal f ((CHR ''-'' # n) # args) = Parse formal (upd True f) args"
  by (rule Parse_bool [where upd = "\<lambda>v f. map_sum id (\<lambda>b. upd b f) (ParseBool v)"])
    (use assms in \<open>simp_all add: bool_flag_def ParseBool_def\<close>)

text \<open>An argument that the flag package takes as an operand.\<close>

definition operand :: "string \<Rightarrow> bool" where
  "operand s \<longleftrightarrow> length s < 2 \<or> hd s \<noteq> CHR ''-''"

end
