(* ===== verification/Dd.thy ===== *)
theory Dd
  imports Go_Io Go_Flag
begin

text \<open>
  \<^verbatim>\<open>src/cmds/dd/dd.go\<close>: the chunked buffer, the pool of buffers, the copy loop of two goroutines
  and the section reader on a stream. The goroutines of \<^verbatim>\<open>parallelChunkedCopy\<close> are two step functions
  over a shared state; a run is any interleaving of their steps. Buffers live in a store and are passed by
  reference, as in the source, so that a buffer that is reused too early would show.
\<close>

section \<open>Chunked buffers\<close>

record chunkedBuffer =
  outChunk :: int
  cb_length :: nat
  cb_data :: bytes
  transform :: "bytes \<Rightarrow> bytes"

definition newChunkedBuffer :: "int \<Rightarrow> int \<Rightarrow> (bytes \<Rightarrow> bytes) \<Rightarrow> chunkedBuffer" where
  "newChunkedBuffer inChunkSize outChunkSize t =
     \<lparr>outChunk = outChunkSize, cb_length = 0, cb_data = replicate (nat inChunkSize) CHR 0x00, transform = t\<rparr>"

definition ReadFrom ::
    "'r io_reader \<Rightarrow> chunkedBuffer \<Rightarrow> 'r \<Rightarrow> ((nat \<times> goerr option) outcome \<times> chunkedBuffer \<times> 'r) option" where
  "ReadFrom rd cb r =
     (case rd (length (cb_data cb)) r of
        None \<Rightarrow> None
      | Some (Ret (b, e), r') \<Rightarrow>
          Some (Ret (if b = [] \<and> e = None then (0, Some EOF) else (length b, e)),
                cb\<lparr>cb_length := length b, cb_data := b @ drop (length b) (cb_data cb)\<rparr>, r')
      | Some (Fail e, r') \<Rightarrow> Some (Fail e, cb, r')
      | Some (Panic m, r') \<Rightarrow> Some (Panic m, cb, r'))"

text \<open>The size of the chunk written at index \<open>i\<close>.\<close>

definition chunk_size :: "chunkedBuffer \<Rightarrow> int \<Rightarrow> int" where
  "chunk_size cb i =
     (if wrap64 (i + outChunk cb) > int (cb_length cb) then int (cb_length cb) - i else outChunk cb)"

partial_function (option) write_loop ::
    "'s io_writer \<Rightarrow> chunkedBuffer \<Rightarrow> int \<Rightarrow> 's \<Rightarrow> ((int \<times> goerr option) outcome \<times> 's) option" where
  "write_loop wr cb i w =
     (if i < int (cb_length cb) then
        if wrap64 (i + chunk_size cb i) < i \<or> wrap64 (i + chunk_size cb i) > int (length (cb_data cb))
        then Some (Panic ''slice bounds out of range'', w)
        else (case wr (transform cb (take (nat (chunk_size cb i)) (drop (nat i) (cb_data cb)))) w of
                ((got, err), w') \<Rightarrow>
                  if err \<noteq> None then Some (Ret (i + int got, err), w')
                  else if int got \<noteq> chunk_size cb i then Some (Ret (0, Some ErrShortWrite), w')
                  else write_loop wr cb (i + int got) w')
      else Some (Ret (i, None), w))"

definition WriteTo :: "'s io_writer \<Rightarrow> chunkedBuffer \<Rightarrow> 's \<Rightarrow> ((int \<times> goerr option) outcome \<times> 's) option" where
  "WriteTo wr cb w = write_loop wr cb 0 w"

section \<open>The parallel copy\<close>

text \<open>
  Where the reading goroutine and the writing one stand. \<open>RSend id n e\<close> is about to send buffer \<open>id\<close> after a
  read of \<open>n\<close> bytes with error \<open>e\<close>; \<open>RExit\<close> and \<open>RClose\<close> are the deferred calls.
\<close>

datatype reader_pc =
    RSelect
  | RGet
  | RRead nat
  | RSend nat nat "goerr option"
  | RCheck nat "goerr option"
  | RExit
  | RClose
  | RDone
  | RPanic string

datatype writer_pc =
    WRecv
  | WWrite nat
  | WPut nat
  | WClose "goerr option"
  | WWait "goerr option"
  | WDone "goerr option"
  | WPanic string

record ('r, 's) copier =
  cp_read :: "'r io_reader"
  cp_write :: "'s io_writer"
  cp_in :: int
  cp_out :: int
  cp_transform :: "bytes \<Rightarrow> bytes"
  cp_depth :: nat

record ('r, 's) copy_state =
  c_store :: "chunkedBuffer list"
  c_pool :: "nat list"
  c_ready :: "nat list"
  c_closed :: bool
  c_quit :: bool
  c_errs :: "goerr option"
  c_wg :: bool
  c_r :: 'r
  c_w :: 's
  c_reader :: reader_pc
  c_writer :: writer_pc
  bytesWritten :: int

text \<open>\<^verbatim>\<open>bufferPool.Get\<close> and \<^verbatim>\<open>bufferPool.Put\<close>.\<close>

definition pool_Get :: "('r, 's) copier \<Rightarrow> ('r, 's) copy_state \<Rightarrow> ('r, 's) copy_state" where
  "pool_Get c s =
     (case c_pool s of
        i # p \<Rightarrow> s\<lparr>c_pool := p, c_reader := RRead i\<rparr>
      | [] \<Rightarrow>
          if cp_in c < 0 then s\<lparr>c_reader := RPanic ''makeslice: len out of range''\<rparr>
          else s\<lparr>c_store := c_store s @ [newChunkedBuffer (cp_in c) (cp_out c) (cp_transform c)],
                 c_reader := RRead (length (c_store s))\<rparr>)"

definition pool_Put :: "('r, 's) copier \<Rightarrow> nat \<Rightarrow> ('r, 's) copy_state \<Rightarrow> ('r, 's) copy_state" where
  "pool_Put c i s = (if length (c_pool s) < cp_depth c then s\<lparr>c_pool := c_pool s @ [i]\<rparr> else s)"

text \<open>One step of the reading goroutine; \<open>None\<close> when it is blocked or has ended.\<close>

definition reader_step :: "('r, 's) copier \<Rightarrow> ('r, 's) copy_state \<Rightarrow> ('r, 's) copy_state option" where
  "reader_step c s =
     (case c_reader s of
        RSelect \<Rightarrow> Some (s\<lparr>c_reader := (if c_quit s then RExit else RGet)\<rparr>)
      | RGet \<Rightarrow> Some (pool_Get c s)
      | RRead i \<Rightarrow>
          (case ReadFrom (cp_read c) (c_store s ! i) (c_r s) of
             None \<Rightarrow> None
           | Some (Ret (n, e), cb, r') \<Rightarrow>
               Some (s\<lparr>c_store := (c_store s)[i := cb], c_r := r',
                       c_reader := (if n > 0 then RSend i n e else RCheck n e)\<rparr>)
           | Some (Fail e, cb, r') \<Rightarrow> Some (s\<lparr>c_r := r', c_reader := RCheck 0 (Some e)\<rparr>)
           | Some (Panic m, cb, r') \<Rightarrow> Some (s\<lparr>c_r := r', c_reader := RPanic m\<rparr>))
      | RSend i n e \<Rightarrow>
          if length (c_ready s) < cp_depth c
          then Some (s\<lparr>c_ready := c_ready s @ [i], c_reader := RCheck n e\<rparr>)
          else if cp_depth c = 0 \<and> c_writer s = WRecv
          then Some (s\<lparr>c_writer := WWrite i, c_reader := RCheck n e\<rparr>)
          else None
      | RCheck n e \<Rightarrow>
          if e = Some EOF then Some (s\<lparr>c_reader := RExit\<rparr>)
          else if n = 0 \<or> e \<noteq> None
          then Some (s\<lparr>c_errs := Some (Errorf ''input error: %v''), c_reader := RExit\<rparr>)
          else Some (s\<lparr>c_reader := RSelect\<rparr>)
      | RExit \<Rightarrow> Some (s\<lparr>c_wg := True, c_reader := RClose\<rparr>)
      | RClose \<Rightarrow> Some (s\<lparr>c_closed := True, c_reader := RDone\<rparr>)
      | RDone \<Rightarrow> None
      | RPanic m \<Rightarrow> None)"

definition writer_step :: "('r, 's) copier \<Rightarrow> ('r, 's) copy_state \<Rightarrow> ('r, 's) copy_state option" where
  "writer_step c s =
     (case c_writer s of
        WRecv \<Rightarrow>
          (case c_ready s of
             i # q \<Rightarrow> Some (s\<lparr>c_ready := q, c_writer := WWrite i\<rparr>)
           | [] \<Rightarrow> if c_closed s then Some (s\<lparr>c_writer := WClose None\<rparr>) else None)
      | WWrite i \<Rightarrow>
          (case WriteTo (cp_write c) (c_store s ! i) (c_w s) of
             None \<Rightarrow> None
           | Some (Ret (n, None), w') \<Rightarrow>
               Some (s\<lparr>c_w := w', bytesWritten := wrap64 (bytesWritten s + n), c_writer := WPut i\<rparr>)
           | Some (Ret (n, Some e), w') \<Rightarrow>
               Some (s\<lparr>c_w := w', c_writer := WClose (Some (Errorf ''output error: %v''))\<rparr>)
           | Some (Fail e, w') \<Rightarrow> Some (s\<lparr>c_w := w', c_writer := WClose (Some e)\<rparr>)
           | Some (Panic m, w') \<Rightarrow> Some (s\<lparr>c_w := w', c_writer := WPanic m\<rparr>))
      | WPut i \<Rightarrow> Some ((pool_Put c i s)\<lparr>c_writer := WRecv\<rparr>)
      | WClose e \<Rightarrow> Some (s\<lparr>c_quit := True, c_writer := WWait e\<rparr>)
      | WWait e \<Rightarrow>
          if c_wg s then Some (s\<lparr>c_writer := WDone (case c_errs s of Some x \<Rightarrow> Some x | None \<Rightarrow> e)\<rparr>) else None
      | WDone e \<Rightarrow> None
      | WPanic m \<Rightarrow> None)"

fun panicked :: "reader_pc \<Rightarrow> writer_pc \<Rightarrow> bool" where
  "panicked (RPanic m) w = True"
| "panicked r (WPanic m) = True"
| "panicked r w = False"

text \<open>A step of the program: one of the goroutines moves, as long as neither has panicked.\<close>

inductive copy_step :: "('r, 's) copier \<Rightarrow> ('r, 's) copy_state \<Rightarrow> ('r, 's) copy_state \<Rightarrow> bool" for c where
  reader_moves: "\<not> panicked (c_reader s) (c_writer s) \<Longrightarrow> reader_step c s = Some s' \<Longrightarrow> copy_step c s s'"
| writer_moves: "\<not> panicked (c_reader s) (c_writer s) \<Longrightarrow> writer_step c s = Some s' \<Longrightarrow> copy_step c s s'"

inductive_simps copy_step_iff: "copy_step c s s'"

text \<open>Go's integer division truncates towards zero.\<close>

definition quot_int :: "int \<Rightarrow> int \<Rightarrow> int" where
  "quot_int a b = sgn a * sgn b * (\<bar>a\<bar> div \<bar>b\<bar>)"

text \<open>The state in which the goroutines of \<^verbatim>\<open>parallelChunkedCopy\<close> start.\<close>

definition copy_start :: "'r \<Rightarrow> 's \<Rightarrow> ('r, 's) copy_state" where
  "copy_start r w =
     \<lparr>c_store = [], c_pool = [], c_ready = [], c_closed = False, c_quit = False, c_errs = None, c_wg = False,
      c_r = r, c_w = w, c_reader = RSelect, c_writer = WRecv, bytesWritten = 0\<rparr>"

definition parallelChunkedCopy ::
    "'r io_reader \<Rightarrow> 's io_writer \<Rightarrow> 'r \<Rightarrow> 's \<Rightarrow> int \<Rightarrow> int \<Rightarrow> (bytes \<Rightarrow> bytes) \<Rightarrow>
     (('r, 's) copier \<times> ('r, 's) copy_state) outcome" where
  "parallelChunkedCopy rd wr r w inBufSize outBufSize t =
     (if inBufSize = 0 then Panic ''integer divide by zero''
      else
        let depth = min 8192 (quot_int (1024 * 1024 * 1024) inBufSize)
        in if depth < 0 then Panic ''makechan: size out of range''
           else Ret (\<lparr>cp_read = rd, cp_write = wr, cp_in = inBufSize, cp_out = outBufSize, cp_transform = t,
                      cp_depth = nat depth\<rparr>, copy_start r w))"

section \<open>Sections of a stream\<close>

record 'r sectionReader =
  s_base :: int
  s_offset :: int
  s_limit :: int
  s_Reader :: 'r

definition newStreamSectionReader :: "'r \<Rightarrow> int \<Rightarrow> int \<Rightarrow> 'r sectionReader" where
  "newStreamSectionReader r offset n =
     (let limit = wrap64 (offset + n)
      in \<lparr>s_base = offset, s_offset = 0, s_limit = (if limit < 0 then 2 ^ 63 - 1 else limit), s_Reader = r\<rparr>)"

text \<open>\<^verbatim>\<open>Read\<close> after the skipping, which the first call does.\<close>

definition section_read_on :: "'r io_reader \<Rightarrow> 'r sectionReader io_reader" where
  "section_read_on rd n s =
     (if s_offset s \<ge> s_limit s then Some (Ret ([], Some EOF), s)
      else
        let most = s_limit s - s_offset s
        in case rd (if int n > most then nat most else n) (s_Reader s) of
             None \<Rightarrow> None
           | Some (Ret (b, e), r') \<Rightarrow>
               Some (Ret (b, if b = [] \<and> e = None then Some EOF else e),
                     s\<lparr>s_Reader := r', s_offset := wrap64 (s_offset s + int (length b))\<rparr>)
           | Some (Fail e, r') \<Rightarrow> Some (Fail e, s\<lparr>s_Reader := r'\<rparr>)
           | Some (Panic m, r') \<Rightarrow> Some (Panic m, s\<lparr>s_Reader := r'\<rparr>))"

definition sectionReader_Read :: "'r io_reader \<Rightarrow> 'r sectionReader io_reader" where
  "sectionReader_Read rd n s =
     (if s_offset s = 0 \<and> s_base s \<noteq> 0 then
        (case CopyN_Discard rd (s_base s) (s_Reader s) of
           None \<Rightarrow> None
         | Some (Ret (k, e), r') \<Rightarrow>
             if e \<noteq> None then Some (Ret ([], e), s\<lparr>s_Reader := r'\<rparr>)
             else if k \<noteq> s_base s
             then Some (Ret ([], Some (Errorf ''error skipping input bytes, short write'')), s\<lparr>s_Reader := r'\<rparr>)
             else section_read_on rd n (s\<lparr>s_Reader := r', s_offset := s_base s\<rparr>)
         | Some (Fail e, r') \<Rightarrow> Some (Fail e, s\<lparr>s_Reader := r'\<rparr>)
         | Some (Panic m, r') \<Rightarrow> Some (Panic m, s\<lparr>s_Reader := r'\<rparr>))
      else section_read_on rd n s)"

section \<open>The command\<close>

text \<open>
  The input is a section of a named file or of standard input, whose reader is a parameter. The named file is
  not the output file: its content does not change while it is copied.
\<close>

datatype 'i in_stream = FromFile bytes SectionReader | FromStdin "'i sectionReader"

definition in_Read :: "'i io_reader \<Rightarrow> 'i in_stream io_reader" where
  "in_Read stdin n s =
     (case s of
        FromFile d sr \<Rightarrow> map_option (map_prod id (FromFile d)) (SectionReader_Read (file_at d) n sr)
      | FromStdin sr \<Rightarrow> map_option (map_prod id FromStdin) (sectionReader_Read stdin n sr))"

definition inFile :: "(string \<Rightarrow> goerr + bytes) \<Rightarrow> 'i \<Rightarrow> string \<Rightarrow> int \<Rightarrow> int \<Rightarrow> int \<Rightarrow> goerr + 'i in_stream" where
  "inFile opn i name inputBytes skip count =
     (let maxRead = (if count \<noteq> 2 ^ 63 - 1 then wrap64 (count * inputBytes) else 2 ^ 63 - 1);
          off = wrap64 (inputBytes * skip)
      in if name = [] then Inr (FromStdin (newStreamSectionReader i off maxRead))
         else (case opn name of
                 Inl e \<Rightarrow> Inl (Errorf ''error opening input file %q: %v'')
               | Inr d \<Rightarrow> Inr (FromFile d (NewSectionReader off maxRead))))"

text \<open>
  The output is a file that has just been truncated, or standard output, whose writer and seek are parameters.
\<close>

datatype 'o out_stream = ToFile file_pos | ToStdout 'o

definition out_Write :: "'o io_writer \<Rightarrow> 'o out_stream io_writer" where
  "out_Write stdout b s =
     (case s of
        ToFile f \<Rightarrow> map_prod id ToFile (file_Write_pos b f)
      | ToStdout w \<Rightarrow> map_prod id ToStdout (stdout b w))"

definition out_Seek :: "(int \<Rightarrow> 'o \<Rightarrow> goerr option \<times> 'o) \<Rightarrow> int \<Rightarrow> 'o out_stream \<Rightarrow> goerr + 'o out_stream" where
  "out_Seek seek off s =
     (case s of
        ToFile (d, pos) \<Rightarrow> if int pos + off < 0 then Inl (Errno ''EINVAL'') else Inr (ToFile (d, nat (int pos + off)))
      | ToStdout w \<Rightarrow> (case seek off w of (Some e, w') \<Rightarrow> Inl e | (None, w') \<Rightarrow> Inr (ToStdout w')))"

definition outFile ::
    "(string \<Rightarrow> goerr option) \<Rightarrow> (int \<Rightarrow> 'o \<Rightarrow> goerr option \<times> 'o) \<Rightarrow> 'o \<Rightarrow> string \<Rightarrow> int \<Rightarrow> int \<Rightarrow> goerr + 'o out_stream" where
  "outFile creat seek_std w name outputBytes seek =
     (case (if name = [] then Inr (ToStdout w)
            else case creat name of
                   Some e \<Rightarrow> Inl (Errorf ''error opening output file %q: %v'')
                 | None \<Rightarrow> Inr (ToFile ([], 0))) of
        Inl e \<Rightarrow> Inl e
      | Inr out \<Rightarrow>
          if wrap64 (seek * outputBytes) \<noteq> 0 then
            (case out_Seek seek_std (wrap64 (seek * outputBytes)) out of
               Inl e \<Rightarrow> Inl (Errorf ''error seeking output file: %v'')
             | Inr out' \<Rightarrow> Inr out')
          else Inr out)"

text \<open>\<^verbatim>\<open>x=y\<close> becomes \<^verbatim>\<open>-x y\<close>.\<close>

definition split2 :: "string \<Rightarrow> string list" where
  "split2 v =
     (let k = takeWhile (\<lambda>c. c \<noteq> CHR ''='') v in if k = v then [v] else [k, drop (Suc (length k)) v])"

fun convertArgs :: "string list \<Rightarrow> string list" where
  "convertArgs [] = []"
| "convertArgs (v # vs) =
     (case split2 v of
        [x, y] \<Rightarrow> (CHR ''-'' # x) # y # convertArgs vs
      | l \<Rightarrow> l @ convertArgs vs)"

record dd_flags =
  ibs :: int
  obs :: int
  bs :: int
  skip :: int
  seek :: int
  conv :: string
  dd_count :: int
  inName :: string
  outName :: string
  status :: string

definition dd_defaults :: dd_flags where
  "dd_defaults = \<lparr>ibs = 512, obs = 512, bs = 0, skip = 0, seek = 0, conv = ''none'', dd_count = 2 ^ 63 - 1,
     inName = '''', outName = '''', status = ''xfer''\<rparr>"

definition dd_formal :: "dd_flags formal" where
  "dd_formal = map_of
     [(''ibs'', int64_flag (\<lambda>i f. f\<lparr>ibs := i\<rparr>)), (''obs'', int64_flag (\<lambda>i f. f\<lparr>obs := i\<rparr>)),
      (''bs'', int64_flag (\<lambda>i f. f\<lparr>bs := i\<rparr>)), (''skip'', int64_flag (\<lambda>i f. f\<lparr>skip := i\<rparr>)),
      (''seek'', int64_flag (\<lambda>i f. f\<lparr>seek := i\<rparr>)), (''conv'', string_flag (\<lambda>v f. f\<lparr>conv := v\<rparr>)),
      (''count'', int64_flag (\<lambda>i f. f\<lparr>dd_count := i\<rparr>)), (''if'', string_flag (\<lambda>v f. f\<lparr>inName := v\<rparr>)),
      (''of'', string_flag (\<lambda>v f. f\<lparr>outName := v\<rparr>)), (''status'', string_flag (\<lambda>v f. f\<lparr>status := v\<rparr>))]"

text \<open>
  \<^verbatim>\<open>bytes.ToUpper\<close> and \<^verbatim>\<open>bytes.ToLower\<close>: on ASCII text the mapping is written out; the Unicode
  tables behind them are the parameter \<open>uni\<close>.
\<close>

definition ascii :: "char \<Rightarrow> bool" where
  "ascii c \<longleftrightarrow> (of_char c :: nat) < 128"

definition upper :: "char \<Rightarrow> char" where
  "upper c = (let n = of_char c :: nat in if 97 \<le> n \<and> n \<le> 122 then char_of (n - 32) else c)"

definition lower :: "char \<Rightarrow> char" where
  "lower c = (let n = of_char c :: nat in if 65 \<le> n \<and> n \<le> 90 then char_of (n + 32) else c)"

definition convs :: "(bytes \<Rightarrow> bytes) \<Rightarrow> (bytes \<Rightarrow> bytes) \<Rightarrow> string \<Rightarrow> (bytes \<Rightarrow> bytes) option" where
  "convs uni_upper uni_lower = map_of
     [(''none'', \<lambda>b. b),
      (''ucase'', \<lambda>b. if list_all ascii b then map upper b else uni_upper b),
      (''lcase'', \<lambda>b. if list_all ascii b then map lower b else uni_lower b)]"

text \<open>
  \<^verbatim>\<open>main\<close> up to the start of the copy: it exits with a status, panics, or runs the goroutines. What is not
  under the program's control is the environment \<open>dd_env\<close>.
\<close>

record ('i, 'o) dd_env =
  env_open :: "string \<Rightarrow> goerr + bytes"
  env_create :: "string \<Rightarrow> goerr option"
  env_stdin :: "'i io_reader"
  env_in :: 'i
  env_stdout :: "'o io_writer"
  env_out :: 'o
  env_seek :: "int \<Rightarrow> 'o \<Rightarrow> goerr option \<times> 'o"
  env_upper :: "bytes \<Rightarrow> bytes"
  env_lower :: "bytes \<Rightarrow> bytes"

datatype ('i, 'o) dd_begin =
    DdExit nat
  | DdPanic string
  | DdRun "('i in_stream, 'o out_stream) copier" "('i in_stream, 'o out_stream) copy_state"

definition dd_copy :: "('i, 'o) dd_env \<Rightarrow> (bytes \<Rightarrow> bytes) \<Rightarrow> dd_flags \<Rightarrow> ('i, 'o) dd_begin" where
  "dd_copy env convert f =
     (case inFile (env_open env) (env_in env) (inName f) (ibs f) (skip f) (dd_count f) of
        Inl e \<Rightarrow> DdExit 1
      | Inr i \<Rightarrow>
          (case outFile (env_create env) (env_seek env) (env_out env) (outName f) (obs f) (seek f) of
             Inl e \<Rightarrow> DdExit 1
           | Inr w \<Rightarrow>
               (case parallelChunkedCopy (in_Read (env_stdin env)) (out_Write (env_stdout env)) i w (ibs f) (obs f) convert of
                  Ret (c, s) \<Rightarrow> DdRun c s
                | Fail e \<Rightarrow> DdExit 1
                | Panic m \<Rightarrow> DdPanic m)))"

definition dd_main :: "('i, 'o) dd_env \<Rightarrow> string list \<Rightarrow> ('i, 'o) dd_begin" where
  "dd_main env os_Args =
     (case Parse dd_formal dd_defaults (drop 1 (convertArgs os_Args)) of
        Inl e \<Rightarrow> DdExit 2
      | Inr (f, rest) \<Rightarrow>
          if rest \<noteq> [] then DdExit 1
          else (case convs (env_upper env) (env_lower env) (conv f) of
                  None \<Rightarrow> DdExit 1
                | Some convert \<Rightarrow>
                    if status f \<notin> {''none'', ''xfer'', ''progress''} then DdExit 1
                    else dd_copy env convert (if bs f > 0 then f\<lparr>ibs := bs f, obs := bs f\<rparr> else f)))"

section \<open>Writing a buffer\<close>

text \<open>A conversion that maps the bytes of a text one by one, on texts of the bytes \<open>ok\<close>.\<close>

definition bytewise :: "(char \<Rightarrow> bool) \<Rightarrow> (char \<Rightarrow> char) \<Rightarrow> (bytes \<Rightarrow> bytes) \<Rightarrow> bool" where
  "bytewise ok f t \<longleftrightarrow> (\<forall>b. list_all ok b \<longrightarrow> t b = map f b)"

definition payload :: "chunkedBuffer \<Rightarrow> bytes" where
  "payload cb = take (cb_length cb) (cb_data cb)"

definition cb_wf :: "int \<Rightarrow> int \<Rightarrow> (bytes \<Rightarrow> bytes) \<Rightarrow> chunkedBuffer \<Rightarrow> bool" where
  "cb_wf i out t cb \<longleftrightarrow>
     outChunk cb = out \<and> transform cb = t \<and> int (length (cb_data cb)) = i \<and> cb_length cb \<le> length (cb_data cb)"

locale source_sink = byte_source rd rem okr + byte_sink wr app okw
  for rd :: "'r io_reader" and rem okr and wr :: "'s io_writer" and app okw
begin

lemma write_loop_sink:
  assumes cb: "cb_wf inb out t cb" and out: "0 < out" "out < 2 ^ 63" and inb: "inb < 2 ^ 62"
    and t: "bytewise ok f t" "list_all ok (payload cb)"
  shows "i \<le> cb_length cb \<Longrightarrow> i = 0 \<or> out \<le> int i \<or> i = cb_length cb \<Longrightarrow> okw w \<Longrightarrow>
    write_loop wr cb (int i) w = Some (Ret (int (cb_length cb), None), app w (map f (drop i (payload cb))))"
proof (induction "cb_length cb - i" arbitrary: i w rule: less_induct)
  case less
  show ?case
  proof (cases "i < cb_length cb")
    case False
    with less.prems show ?thesis by (simp add: write_loop.simps [of wr cb] payload_def)
  next
    case True
    define k where "k = min (nat out) (cb_length cb - i)"
    have k: "0 < k" "i + k \<le> cb_length cb" using True out by (auto simp: k_def)
    have len: "int (cb_length cb) < 2 ^ 62" using cb inb by (simp add: cb_wf_def)
    have w1: "wrap64 (int i + out) = int i + out"
    proof (rule wrap64_small)
      show "int i + out < 2 ^ 63" using less.prems(2) out True len by auto
    qed (use out in auto)
    have size: "chunk_size cb (int i) = int k"
      using cb True out by (auto simp: chunk_size_def w1 cb_wf_def k_def min_def nat_less_iff)
    have w2: "wrap64 (int i + int k) = int (i + k)"
      using k len by (subst wrap64_small) auto
    have chunk: "take k (drop i (cb_data cb)) = take k (drop i (payload cb))"
      using k by (simp add: payload_def take_drop min_def add.commute)
    have "list_all ok (take k (drop i (payload cb)))"
      using t(2) by (auto simp: list_all_iff dest: in_set_takeD in_set_dropD)
    then have conv: "transform cb (take k (drop i (cb_data cb))) = map f (take k (drop i (payload cb)))"
      using t(1) cb by (simp add: bytewise_def cb_wf_def chunk)
    have klen: "length (take k (drop i (payload cb))) = k"
      using k cb by (auto simp: payload_def cb_wf_def min_def)
    have "write_loop wr cb (int i) w = write_loop wr cb (int (i + k)) (app w (map f (take k (drop i (payload cb)))))"
      using True k w2 size conv klen cb
      by (subst write_loop.simps) (simp add: writes less.prems(3) cb_wf_def)
    also have "\<dots> = Some (Ret (int (cb_length cb), None),
        app (app w (map f (take k (drop i (payload cb))))) (map f (drop (i + k) (payload cb))))"
    proof (rule less.hyps)
      show "i + k = 0 \<or> out \<le> int (i + k) \<or> i + k = cb_length cb" using k by (auto simp: k_def min_def)
    qed (use k less.prems(3) okw_app in auto)
    also have "\<dots> = Some (Ret (int (cb_length cb), None), app w (map f (drop i (payload cb))))"
      using drop_drop [of k i "payload cb", symmetric]
      by (simp add: app_app add.commute append_take_drop_id flip: map_append del: drop_drop)
    finally show ?thesis .
  qed
qed

lemma ReadFrom_source:
  assumes cb: "cb_wf inb out t cb" and "0 < inb" and "okr r"
  shows "\<exists>n e cb' r'. ReadFrom rd cb r = Some (Ret (n, e), cb', r') \<and> okr r' \<and> cb_wf inb out t cb' \<and>
    rem r = payload cb' @ rem r' \<and> n = length (payload cb') \<and>
    (if e = None then 0 < n else e = Some EOF \<and> rem r' = [])"
proof -
  have "0 < length (cb_data cb)" using cb \<open>0 < inb\<close> by (auto simp: cb_wf_def)
  from read [OF \<open>okr r\<close> this] obtain b e r' where
    *: "rd (length (cb_data cb)) r = Some (Ret (b, e), r')" "okr r'" "rem r = b @ rem r'"
      "length b \<le> length (cb_data cb)" "if e = None then b \<noteq> [] else e = Some EOF \<and> rem r' = []"
    by blast
  then show ?thesis
    using cb by (auto simp: ReadFrom_def cb_wf_def payload_def split: if_splits)
qed

lemma WriteTo_sink:
  assumes "cb_wf inb out t cb" and "0 < out" "out < 2 ^ 63" "inb < 2 ^ 62"
    and "bytewise ok f t" "list_all ok (payload cb)" and "okw w"
  shows "WriteTo wr cb w = Some (Ret (int (length (payload cb)), None), app w (map f (payload cb)))"
proof -
  have "length (payload cb) = cb_length cb" using assms(1) by (simp add: payload_def cb_wf_def)
  then show ?thesis using write_loop_sink [OF assms(1-6), of 0 w] assms(7) by (simp add: WriteTo_def)
qed

end

section \<open>Who holds which buffer\<close>

fun pend_w :: "writer_pc \<Rightarrow> nat list" where
  "pend_w (WWrite i) = [i]"
| "pend_w _ = []"

fun own_w :: "writer_pc \<Rightarrow> nat list" where
  "own_w (WWrite i) = [i]"
| "own_w (WPut i) = [i]"
| "own_w _ = []"

fun pend_r :: "reader_pc \<Rightarrow> nat list" where
  "pend_r (RSend i n e) = [i]"
| "pend_r _ = []"

fun own_r :: "reader_pc \<Rightarrow> nat list" where
  "own_r (RRead i) = [i]"
| "own_r (RSend i n e) = [i]"
| "own_r _ = []"

text \<open>The buffers with data on the way, in the order in which they were read, and the buffers that anyone holds.\<close>

definition in_flight :: "('r, 's) copy_state \<Rightarrow> nat list" where
  "in_flight s = pend_w (c_writer s) @ c_ready s @ pend_r (c_reader s)"

definition owned :: "('r, 's) copy_state \<Rightarrow> nat list" where
  "owned s = own_w (c_writer s) @ c_ready s @ own_r (c_reader s) @ c_pool s"

definition flight_data :: "('r, 's) copy_state \<Rightarrow> bytes" where
  "flight_data s = concat (map (\<lambda>i. payload (c_store s ! i)) (in_flight s))"

definition buffers_wf :: "('r, 's) copier \<Rightarrow> ('r, 's) copy_state \<Rightarrow> bool" where
  "buffers_wf c s \<longleftrightarrow>
     length (c_ready s) \<le> cp_depth c \<and> length (c_pool s) \<le> cp_depth c \<and> distinct (owned s) \<and> (\<forall>i \<in> set (owned s). i < length (c_store s)) \<and>
     (\<forall>b \<in> set (c_store s). cb_wf (cp_in c) (cp_out c) (cp_transform c) b)"

lemma pend_own: "set (pend_w w) \<subseteq> set (own_w w)" "set (pend_r r) \<subseteq> set (own_r r)"
  by (cases w; simp) (cases r; simp)

text \<open>How far the goroutines are, when neither fails; \<open>fin\<close> says that the input is used up.\<close>

definition reader_ctl :: "bool \<Rightarrow> reader_pc \<Rightarrow> bool" where
  "reader_ctl fin r =
     (case r of
        RSend i n e \<Rightarrow> 0 < n \<and> (e = None \<or> e = Some EOF \<and> fin)
      | RCheck n e \<Rightarrow> e = None \<and> 0 < n \<or> e = Some EOF \<and> fin
      | RExit \<Rightarrow> fin
      | RClose \<Rightarrow> fin
      | RDone \<Rightarrow> fin
      | RPanic m \<Rightarrow> False
      | _ \<Rightarrow> True)"

definition writer_ctl :: "bool \<Rightarrow> writer_pc \<Rightarrow> bool" where
  "writer_ctl fin w =
     (case w of
        WClose e \<Rightarrow> e = None \<and> fin
      | WWait e \<Rightarrow> e = None \<and> fin
      | WDone e \<Rightarrow> e = None \<and> fin
      | WPanic m \<Rightarrow> False
      | _ \<Rightarrow> True)"

definition control :: "bool \<Rightarrow> ('r, 's) copy_state \<Rightarrow> bool" where
  "control fin s \<longleftrightarrow>
     reader_ctl fin (c_reader s) \<and> writer_ctl (c_closed s \<and> c_ready s = []) (c_writer s) \<and>
     c_errs s = None \<and> c_closed s = (c_reader s = RDone) \<and>
     c_wg s = (c_reader s = RClose \<or> c_reader s = RDone) \<and>
     c_quit s = (c_writer s = WWait None \<or> c_writer s = WDone None)"

lemma wrap64_add: "wrap64 (wrap64 a + b) = wrap64 (a + b)"
  by (simp add: wrap64_def mod_simps algebra_simps)

text \<open>Bound on the steps to go: ten for each byte of input, four for each buffer in the queue.\<close>

fun reader_weight :: "reader_pc \<Rightarrow> nat" where
  "reader_weight RSelect = 12"
| "reader_weight RGet = 11"
| "reader_weight (RRead i) = 10"
| "reader_weight (RSend i n e) = 18"
| "reader_weight (RCheck n e) = (if e = None then 13 else 3)"
| "reader_weight RExit = 2"
| "reader_weight RClose = 1"
| "reader_weight RDone = 0"
| "reader_weight (RPanic m) = 0"

fun writer_weight :: "writer_pc \<Rightarrow> nat" where
  "writer_weight WRecv = 3"
| "writer_weight (WWrite i) = 6"
| "writer_weight (WPut i) = 5"
| "writer_weight (WClose e) = 2"
| "writer_weight (WWait e) = 1"
| "writer_weight (WDone e) = 0"
| "writer_weight (WPanic m) = 0"

definition steps_left :: "nat \<Rightarrow> ('r, 's) copy_state \<Rightarrow> nat" where
  "steps_left n s =
     10 * n + 4 * length (c_ready s) + reader_weight (c_reader s) + writer_weight (c_writer s)"

context source_sink
begin

definition setting :: "('r, 's) copier \<Rightarrow> (char \<Rightarrow> bool) \<Rightarrow> (char \<Rightarrow> char) \<Rightarrow> bool" where
  "setting c ok f \<longleftrightarrow>
     cp_read c = rd \<and> cp_write c = wr \<and> 0 < cp_in c \<and> cp_in c < 2 ^ 62 \<and> 0 < cp_out c \<and> cp_out c < 2 ^ 63 \<and>
     bytewise ok f (cp_transform c)"

definition data_inv :: "(char \<Rightarrow> char) \<Rightarrow> bytes \<Rightarrow> 's \<Rightarrow> ('r, 's) copy_state \<Rightarrow> bool" where
  "data_inv f d w0 s \<longleftrightarrow>
     okr (c_r s) \<and> okw (c_w s) \<and>
     (\<exists>dn. c_w s = app w0 (map f dn) \<and> bytesWritten s = wrap64 (int (length dn)) \<and>
           d = dn @ flight_data s @ rem (c_r s))"

definition copy_inv :: "('r, 's) copier \<Rightarrow> (char \<Rightarrow> char) \<Rightarrow> bytes \<Rightarrow> 's \<Rightarrow> ('r, 's) copy_state \<Rightarrow> bool" where
  "copy_inv c f d w0 s \<longleftrightarrow> data_inv f d w0 s \<and> buffers_wf c s \<and> control (rem (c_r s) = []) s"

abbreviation measure_of :: "('r, 's) copy_state \<Rightarrow> nat" where
  "measure_of s \<equiv> steps_left (length (rem (c_r s))) s"

definition good_step :: "('r, 's) copier \<Rightarrow> (char \<Rightarrow> char) \<Rightarrow> bytes \<Rightarrow> 's \<Rightarrow> ('r, 's) copy_state \<Rightarrow> ('r, 's) copy_state \<Rightarrow> bool" where
  "good_step c f d w0 s s' \<longleftrightarrow> copy_inv c f d w0 s' \<and> measure_of s' < measure_of s"

lemma good_stepI:
  "data_inv f d w0 s' \<Longrightarrow> buffers_wf c s' \<Longrightarrow> control (rem (c_r s') = []) s' \<Longrightarrow> measure_of s' < measure_of s \<Longrightarrow>
   good_step c f d w0 s s'"
  by (simp add: good_step_def copy_inv_def)

lemma data_same:
  "data_inv f d w0 s \<Longrightarrow> c_r s' = c_r s \<Longrightarrow> c_w s' = c_w s \<Longrightarrow> bytesWritten s' = bytesWritten s \<Longrightarrow>
   flight_data s' = flight_data s \<Longrightarrow> data_inv f d w0 s'"
  by (simp add: data_inv_def)

lemma flight_same:
  "in_flight s' = in_flight s \<Longrightarrow> \<forall>i \<in> set (in_flight s). c_store s' ! i = c_store s ! i \<Longrightarrow>
   flight_data s' = flight_data s"
  unfolding flight_data_def by (metis (mono_tags, lifting) map_cong)

lemma flight_owned: "buffers_wf c s \<Longrightarrow> i \<in> set (in_flight s) \<Longrightarrow> i < length (c_store s)"
  using pend_own [THEN subsetD] by (auto simp: buffers_wf_def in_flight_def owned_def)

lemmas control_simps = control_def reader_ctl_def steps_left_def

lemma reader_select:
  assumes inv: "data_inv f d w0 s" "buffers_wf c s" "control (rem (c_r s) = []) s"
    and pc: "c_reader s = RSelect" and step: "reader_step c s = Some s'"
  shows "good_step c f d w0 s s'"
proof -
  have q: "\<not> c_quit s" using inv(3) pc by (auto simp: control_simps writer_ctl_def)
  then have s': "s' = s\<lparr>c_reader := RGet\<rparr>" using step pc by (simp add: reader_step_def)
  show ?thesis
  proof (rule good_stepI)
    show "data_inv f d w0 s'"
      by (rule data_same [OF inv(1)]) (simp_all add: s' pc flight_data_def in_flight_def)
  qed (use inv pc in \<open>auto simp: s' buffers_wf_def owned_def control_simps\<close>)
qed

lemma reader_get:
  assumes inv: "data_inv f d w0 s" "buffers_wf c s" "control (rem (c_r s) = []) s" and "0 < cp_in c"
    and pc: "c_reader s = RGet" and step: "reader_step c s = Some s'"
  shows "good_step c f d w0 s s'"
proof (cases "c_pool s")
  case Nil
  let ?nb = "newChunkedBuffer (cp_in c) (cp_out c) (cp_transform c)"
  have wf: "cb_wf (cp_in c) (cp_out c) (cp_transform c) ?nb"
    using assms(4) by (simp add: cb_wf_def newChunkedBuffer_def)
  have s': "s' = s\<lparr>c_store := c_store s @ [?nb], c_reader := RRead (length (c_store s))\<rparr>"
    using step pc Nil assms(4) by (simp add: reader_step_def pool_Get_def)
  show ?thesis
  proof (rule good_stepI)
    have "flight_data s' = flight_data s"
      using flight_owned [OF inv(2)] by (intro flight_same) (auto simp: s' in_flight_def pc nth_append)
    then show "data_inv f d w0 s'" by (intro data_same [OF inv(1)]) (simp_all add: s')
    have "owned s' = owned s @ [length (c_store s)]" by (simp add: owned_def s' pc Nil)
    then show "buffers_wf c s'" using inv(2) wf by (auto simp: buffers_wf_def s' less_Suc_eq)
  qed (use inv pc in \<open>auto simp: s' control_simps\<close>)
next
  case (Cons i p)
  have s': "s' = s\<lparr>c_pool := p, c_reader := RRead i\<rparr>"
    using step pc Cons by (simp add: reader_step_def pool_Get_def)
  show ?thesis
  proof (rule good_stepI)
    show "data_inv f d w0 s'"
      by (rule data_same [OF inv(1)]) (simp_all add: s' pc flight_data_def in_flight_def)
    show "buffers_wf c s'" using inv(2) Cons pc by (auto simp: buffers_wf_def owned_def s')
  qed (use inv pc in \<open>auto simp: s' control_simps\<close>)
qed

lemma reader_read:
  assumes inv: "data_inv f d w0 s" "buffers_wf c s" "control (rem (c_r s) = []) s"
    and c: "0 < cp_in c" "cp_read c = rd" and pc: "c_reader s = RRead i" and step: "reader_step c s = Some s'"
  shows "good_step c f d w0 s s'"
proof -
  have i: "i < length (c_store s)" "i \<notin> set (own_w (c_writer s) @ c_ready s @ c_pool s)"
    using inv(2) pc by (auto simp: buffers_wf_def owned_def)
  have cb: "cb_wf (cp_in c) (cp_out c) (cp_transform c) (c_store s ! i)"
    using inv(2) i by (simp add: buffers_wf_def)
  have okr: "okr (c_r s)" using inv(1) by (simp add: data_inv_def)
  obtain n e cb' r' where r: "ReadFrom rd (c_store s ! i) (c_r s) = Some (Ret (n, e), cb', r')" "okr r'"
      "cb_wf (cp_in c) (cp_out c) (cp_transform c) cb'" "rem (c_r s) = payload cb' @ rem r'"
      "n = length (payload cb')" "if e = None then 0 < n else e = Some EOF \<and> rem r' = []"
    using ReadFrom_source [OF cb c(1) okr] by blast
  have s': "s' = s\<lparr>c_store := (c_store s)[i := cb'], c_r := r', c_reader := (if n > 0 then RSend i n e else RCheck n e)\<rparr>"
    using step pc r(1) c(2) by (simp add: reader_step_def)
  have other: "payload ((c_store s)[i := cb'] ! j) = payload (c_store s ! j)"
    if "j \<in> set (pend_w (c_writer s) @ c_ready s)" for j
    using that i(2) pend_own(1) [of "c_writer s"] by (cases "j = i") auto
  have fl: "flight_data s' = flight_data s @ payload cb'"
    using other i(1) pc r(5) by (cases "n = 0") (auto simp: flight_data_def in_flight_def s' cong: map_cong)
  show ?thesis
  proof (rule good_stepI)
    show "data_inv f d w0 s'" using inv(1) fl r(2,4) by (auto simp: data_inv_def s')
    have "set (owned s') \<subseteq> set (owned s)" "distinct (owned s')"
      using inv(2) pc by (auto simp: buffers_wf_def owned_def s')
    moreover have "cb_wf (cp_in c) (cp_out c) (cp_transform c) b" if "b \<in> set (c_store s')" for b
      using that inv(2) r(3) set_update_subset_insert [of "c_store s" i cb'] by (auto simp: buffers_wf_def s')
    ultimately show "buffers_wf c s'" using inv(2) by (auto simp: buffers_wf_def s')
    show "control (rem (c_r s') = []) s'"
      using inv(3) pc r(6) by (auto simp: control_simps s' split: if_splits)
    show "measure_of s' < measure_of s"
      using pc r(4,5,6) by (cases "payload cb'") (auto simp: steps_left_def s' split: if_splits)
  qed
qed

lemma reader_send:
  assumes inv: "data_inv f d w0 s" "buffers_wf c s" "control (rem (c_r s) = []) s"
    and pc: "c_reader s = RSend i n e" and step: "reader_step c s = Some s'"
  shows "good_step c f d w0 s s'"
proof (cases "length (c_ready s) < cp_depth c")
  case True
  then have s': "s' = s\<lparr>c_ready := c_ready s @ [i], c_reader := RCheck n e\<rparr>"
    using step pc by (simp add: reader_step_def)
  have nd: "\<not> c_closed s" using inv(3) pc by (auto simp: control_simps)
  show ?thesis
  proof (rule good_stepI)
    show "data_inv f d w0 s'"
      by (rule data_same [OF inv(1)]) (simp_all add: s' pc flight_data_def in_flight_def)
    show "buffers_wf c s'" using inv(2) pc True by (auto simp: buffers_wf_def owned_def s')
  qed (use inv pc nd in \<open>auto simp: s' control_simps\<close>)
next
  case False
  then have s': "s' = s\<lparr>c_writer := WWrite i, c_reader := RCheck n e\<rparr>" and w: "c_writer s = WRecv" "c_ready s = []"
    using step pc inv(2) by (auto simp: reader_step_def buffers_wf_def split: if_splits)
  show ?thesis
  proof (rule good_stepI)
    show "data_inv f d w0 s'"
      by (rule data_same [OF inv(1)]) (simp_all add: s' pc w flight_data_def in_flight_def)
    show "buffers_wf c s'" using inv(2) pc w by (auto simp: buffers_wf_def owned_def s')
  qed (use inv pc w in \<open>auto simp: s' control_simps writer_ctl_def\<close>)
qed

lemma reader_check:
  assumes inv: "data_inv f d w0 s" "buffers_wf c s" "control (rem (c_r s) = []) s"
    and pc: "c_reader s = RCheck n e" and step: "reader_step c s = Some s'"
  shows "good_step c f d w0 s s'"
proof -
  have s': "s' = s\<lparr>c_reader := (if e = None then RSelect else RExit)\<rparr>" and e: "e = None \<or> rem (c_r s) = []"
    using step pc inv(3) by (auto simp: reader_step_def control_simps)
  show ?thesis
  proof (rule good_stepI)
    show "data_inv f d w0 s'"
      by (rule data_same [OF inv(1)]) (simp_all add: s' pc flight_data_def in_flight_def)
    show "buffers_wf c s'" using inv(2) pc by (auto simp: buffers_wf_def owned_def s')
  qed (use inv pc e in \<open>auto simp: s' control_simps\<close>)
qed

lemma reader_leaves:
  assumes inv: "data_inv f d w0 s" "buffers_wf c s" "control (rem (c_r s) = []) s"
    and pc: "c_reader s \<in> {RExit, RClose}" and step: "reader_step c s = Some s'"
  shows "good_step c f d w0 s s'"
proof -
  have s': "s' = (if c_reader s = RExit then s\<lparr>c_wg := True, c_reader := RClose\<rparr>
                  else s\<lparr>c_closed := True, c_reader := RDone\<rparr>)"
    using step pc by (auto simp: reader_step_def)
  show ?thesis
  proof (rule good_stepI)
    show "data_inv f d w0 s'"
      using pc by (intro data_same [OF inv(1)]) (auto simp: s' flight_data_def in_flight_def)
    show "buffers_wf c s'" using inv(2) pc by (auto simp: buffers_wf_def owned_def s')
    show "control (rem (c_r s') = []) s'"
      using inv(3) pc by (auto simp: s' control_simps writer_ctl_def split: writer_pc.splits)
  qed (use pc in \<open>auto simp: s' control_simps\<close>)
qed

lemma writer_recv:
  assumes inv: "data_inv f d w0 s" "buffers_wf c s" "control (rem (c_r s) = []) s"
    and pc: "c_writer s = WRecv" and step: "writer_step c s = Some s'"
  shows "good_step c f d w0 s s'"
proof -
  have s': "s' = (case c_ready s of i # q \<Rightarrow> s\<lparr>c_ready := q, c_writer := WWrite i\<rparr> | [] \<Rightarrow> s\<lparr>c_writer := WClose None\<rparr>)"
    and cl: "c_ready s = [] \<Longrightarrow> c_closed s"
    using step pc by (auto simp: writer_step_def split: list.splits if_splits)
  show ?thesis
  proof (rule good_stepI)
    show "data_inv f d w0 s'"
      by (rule data_same [OF inv(1)]) (simp_all add: s' pc flight_data_def in_flight_def split: list.split)
    show "buffers_wf c s'" using inv(2) pc by (auto simp: buffers_wf_def owned_def s' split: list.split)
  qed (use inv pc cl in \<open>auto simp: s' control_def writer_ctl_def steps_left_def split: list.split\<close>)
qed

lemma writer_write:
  assumes inv: "data_inv f d w0 s" "buffers_wf c s" "control (rem (c_r s) = []) s"
    and c: "setting c ok f" "list_all ok d" and pc: "c_writer s = WWrite i" and step: "writer_step c s = Some s'"
  shows "good_step c f d w0 s s'"
proof -
  let ?p = "payload (c_store s ! i)"
  have cb: "cb_wf (cp_in c) (cp_out c) (cp_transform c) (c_store s ! i)"
    using inv(2) pc by (simp add: buffers_wf_def owned_def)
  obtain dn where dn: "c_w s = app w0 (map f dn)" "bytesWritten s = wrap64 (int (length dn))"
      "d = dn @ flight_data s @ rem (c_r s)" and okr: "okr (c_r s)" "okw (c_w s)"
    using inv(1) by (auto simp: data_inv_def)
  have "list_all ok ?p" using c(2) dn(3) pc by (auto simp: flight_data_def in_flight_def)
  then have "WriteTo wr (c_store s ! i) (c_w s) = Some (Ret (int (length ?p), None), app (c_w s) (map f ?p))"
    using c(1) okr(2) by (intro WriteTo_sink [OF cb, where ok = ok]) (simp_all add: setting_def)
  then have s': "s' = s\<lparr>c_w := app (c_w s) (map f ?p), bytesWritten := wrap64 (bytesWritten s + int (length ?p)),
      c_writer := WPut i\<rparr>"
    using step pc c(1) by (simp add: writer_step_def setting_def)
  have fl: "flight_data s = ?p @ flight_data s'" by (simp add: flight_data_def in_flight_def s' pc)
  show ?thesis
  proof (rule good_stepI)
    have "c_w s' = app w0 (map f (dn @ ?p))" "bytesWritten s' = wrap64 (int (length (dn @ ?p)))" "c_r s' = c_r s"
      "okw (c_w s')"
      by (simp_all add: s' dn(1,2) app_app wrap64_add okw_app [OF okr(2), simplified dn(1) app_app])
    moreover have "d = (dn @ ?p) @ flight_data s' @ rem (c_r s)" using dn(3) fl by simp
    ultimately show "data_inv f d w0 s'" using okr unfolding data_inv_def by metis
    show "buffers_wf c s'" using inv(2) pc by (auto simp: buffers_wf_def owned_def s')
  qed (use inv pc in \<open>auto simp: s' control_def writer_ctl_def steps_left_def\<close>)
qed

lemma writer_put:
  assumes inv: "data_inv f d w0 s" "buffers_wf c s" "control (rem (c_r s) = []) s"
    and pc: "c_writer s = WPut i" and step: "writer_step c s = Some s'"
  shows "good_step c f d w0 s s'"
proof -
  have s': "s' = s\<lparr>c_pool := (if length (c_pool s) < cp_depth c then c_pool s @ [i] else c_pool s), c_writer := WRecv\<rparr>"
    using step pc by (auto simp: writer_step_def pool_Put_def)
  show ?thesis
  proof (rule good_stepI)
    show "data_inv f d w0 s'"
      by (rule data_same [OF inv(1)]) (simp_all add: s' pc flight_data_def in_flight_def)
    show "buffers_wf c s'" using inv(2) pc by (auto simp: buffers_wf_def owned_def s')
  qed (use inv pc in \<open>auto simp: s' control_def writer_ctl_def steps_left_def\<close>)
qed

lemma writer_leaves:
  assumes inv: "data_inv f d w0 s" "buffers_wf c s" "control (rem (c_r s) = []) s"
    and pc: "c_writer s = WClose e \<or> c_writer s = WWait e" and step: "writer_step c s = Some s'"
  shows "good_step c f d w0 s s'"
proof -
  have e: "e = None" "c_errs s = None" using inv(3) pc by (auto simp: control_def writer_ctl_def steps_left_def)
  have s': "s' = (if c_writer s = WClose None then s\<lparr>c_quit := True, c_writer := WWait None\<rparr>
                  else s\<lparr>c_writer := WDone None\<rparr>)"
    using step pc e by (auto simp: writer_step_def split: if_splits)
  show ?thesis
  proof (rule good_stepI)
    show "data_inv f d w0 s'"
      using pc e by (intro data_same [OF inv(1)]) (auto simp: s' flight_data_def in_flight_def)
    show "buffers_wf c s'" using inv(2) pc by (auto simp: buffers_wf_def owned_def s')
  qed (use inv pc e in \<open>auto simp: s' control_def writer_ctl_def steps_left_def\<close>)
qed

end

context source_sink
begin

lemma step_good:
  assumes c: "setting c ok f" "list_all ok d" and inv: "copy_inv c f d w0 s" and step: "copy_step c s s'"
  shows "good_step c f d w0 s s'"
proof -
  have i: "data_inv f d w0 s" "buffers_wf c s" "control (rem (c_r s) = []) s"
    using inv by (simp_all add: copy_inv_def)
  have c': "0 < cp_in c" "cp_read c = rd" using c by (simp_all add: setting_def)
  consider (r) "reader_step c s = Some s'" | (w) "writer_step c s = Some s'"
    using step by (auto simp: copy_step_iff)
  then show ?thesis
  proof cases
    case r
    show ?thesis
    proof (cases "c_reader s")
      case RSelect then show ?thesis by (rule reader_select [OF i _ r])
    next
      case RGet then show ?thesis by (rule reader_get [OF i c'(1) _ r])
    next
      case (RRead j) then show ?thesis by (rule reader_read [OF i c' _ r])
    next
      case (RSend j n e) then show ?thesis by (rule reader_send [OF i _ r])
    next
      case (RCheck n e) then show ?thesis by (rule reader_check [OF i _ r])
    next
      case RExit then show ?thesis by (intro reader_leaves [OF i _ r]) simp
    next
      case RClose then show ?thesis by (intro reader_leaves [OF i _ r]) simp
    qed (use r in \<open>simp_all add: reader_step_def\<close>)
  next
    case w
    show ?thesis
    proof (cases "c_writer s")
      case WRecv then show ?thesis by (rule writer_recv [OF i _ w])
    next
      case (WWrite j) then show ?thesis by (rule writer_write [OF i c _ w])
    next
      case (WPut j) then show ?thesis by (rule writer_put [OF i _ w])
    next
      case (WClose e) then show ?thesis by (intro writer_leaves [OF i _ w]) simp
    next
      case (WWait e) then show ?thesis by (intro writer_leaves [OF i _ w]) simp
    qed (use w in \<open>simp_all add: writer_step_def\<close>)
  qed
qed

lemma start_inv: "okr r \<Longrightarrow> okw w0 \<Longrightarrow> copy_inv c f (rem r) w0 (copy_start r w0)"
  by (auto simp: copy_inv_def data_inv_def buffers_wf_def control_def flight_data_def in_flight_def owned_def
      reader_ctl_def writer_ctl_def copy_start_def wrap64_def)

lemma run_bound:
  assumes "setting c ok f" and "list_all ok d"
  shows "(copy_step c ^^ k) s s' \<Longrightarrow> copy_inv c f d w0 s \<Longrightarrow> copy_inv c f d w0 s' \<and> measure_of s' + k \<le> measure_of s"
proof (induction k arbitrary: s')
  case (Suc k)
  then obtain t where "(copy_step c ^^ k) s t" "copy_step c t s'" by auto
  with Suc step_good [OF assms, of w0 t s'] show ?case by (fastforce simp: good_step_def)
qed simp

lemma not_stuck:
  assumes c: "setting c ok f" "list_all ok d" and inv: "copy_inv c f d w0 s" and nd: "c_writer s \<noteq> WDone None"
  shows "\<exists>s'. copy_step c s s'"
proof -
  have i: "data_inv f d w0 s" "buffers_wf c s" "control (rem (c_r s) = []) s"
    using inv by (simp_all add: copy_inv_def)
  have np: "\<not> panicked (c_reader s) (c_writer s)"
    using i(3) by (cases "c_reader s"; cases "c_writer s") (simp_all add: control_def reader_ctl_def writer_ctl_def)
  have reader: "\<exists>s'. reader_step c s = Some s'"
    if "c_reader s \<noteq> RDone" "\<And>j n e. c_reader s = RSend j n e \<Longrightarrow> length (c_ready s) < cp_depth c \<or> cp_depth c = 0 \<and> c_writer s = WRecv"
  proof (cases "c_reader s")
    case (RRead j)
    then have "cb_wf (cp_in c) (cp_out c) (cp_transform c) (c_store s ! j)"
      using i(2) by (simp add: buffers_wf_def owned_def)
    with RRead c(1) i(1) ReadFrom_source show ?thesis
      by (fastforce simp: reader_step_def setting_def data_inv_def)
  qed (use that i(3) in \<open>auto simp: reader_step_def control_def reader_ctl_def\<close>)
  show ?thesis
  proof (cases "c_writer s")
    case WRecv
    then show ?thesis
    proof (cases "c_ready s = [] \<and> \<not> c_closed s")
      case True
      then have "\<exists>s'. reader_step c s = Some s'" using WRecv i(3) by (intro reader) (auto simp: control_def)
      with np show ?thesis by (auto simp: copy_step_iff)
    next
      case False
      with WRecv np show ?thesis by (auto simp: copy_step_iff writer_step_def split: list.splits)
    qed
  next
    case (WWrite j)
    then have cb: "cb_wf (cp_in c) (cp_out c) (cp_transform c) (c_store s ! j)"
      using i(2) by (simp add: buffers_wf_def owned_def)
    have "list_all ok (payload (c_store s ! j))"
      using c(2) i(1) WWrite by (auto simp: data_inv_def flight_data_def in_flight_def)
    then have "WriteTo wr (c_store s ! j) (c_w s) \<noteq> None"
      using WriteTo_sink [OF cb, where ok = ok and f = f] c(1) i(1) by (simp add: setting_def data_inv_def)
    then show ?thesis
      using WWrite np c(1) by (auto simp: copy_step_iff writer_step_def setting_def split: option.splits prod.splits outcome.splits)
  next
    case (WWait e)
    then have "c_wg s" using i(3) by (auto simp: control_def writer_ctl_def)
    with WWait np show ?thesis by (auto simp: copy_step_iff writer_step_def)
  qed (use nd np i(3) in \<open>auto simp: copy_step_iff writer_step_def control_def writer_ctl_def\<close>)
qed

lemma run_result:
  assumes "setting c ok f" and "list_all ok (rem r)" and "okr r" and "okw w0"
    and run: "(copy_step c ^^ k) (copy_start r w0) s"
  shows "k \<le> 10 * length (rem r) + 15"
    and "(\<nexists>s'. copy_step c s s') \<Longrightarrow> c_writer s = WDone None"
    and "c_writer s = WDone e \<Longrightarrow>
      e = None \<and> c_w s = app w0 (map f (rem r)) \<and> bytesWritten s = wrap64 (int (length (rem r)))"
proof -
  have inv: "copy_inv c f (rem r) w0 s" and k: "measure_of s + k \<le> measure_of (copy_start r w0)"
    using run_bound [OF assms(1,2) run start_inv [OF assms(3,4)]] by auto
  show "k \<le> 10 * length (rem r) + 15" using k by (simp add: steps_left_def copy_start_def)
  show "c_writer s = WDone None" if "\<nexists>s'. copy_step c s s'"
    using not_stuck [OF assms(1,2) inv] that by blast
  show "e = None \<and> c_w s = app w0 (map f (rem r)) \<and> bytesWritten s = wrap64 (int (length (rem r)))"
    if "c_writer s = WDone e"
  proof -
    have "e = None" "c_closed s" "c_ready s = []" "c_reader s = RDone" "rem (c_r s) = []"
      using inv that by (auto simp: copy_inv_def control_def writer_ctl_def reader_ctl_def)
    with that inv show ?thesis
      by (auto simp: copy_inv_def data_inv_def flight_data_def in_flight_def)
  qed
qed

end

section \<open>A section of a stream is a source\<close>

definition stream_rem :: "('r \<Rightarrow> bytes) \<Rightarrow> 'r sectionReader \<Rightarrow> bytes" where
  "stream_rem rem s =
     (if s_offset s = 0 \<and> s_base s \<noteq> 0
      then take (nat (s_limit s - s_base s)) (drop (nat (s_base s)) (rem (s_Reader s)))
      else take (nat (s_limit s - s_offset s)) (rem (s_Reader s)))"

definition stream_ok :: "('r \<Rightarrow> bool) \<Rightarrow> 'r sectionReader \<Rightarrow> bool" where
  "stream_ok okr s \<longleftrightarrow> okr (s_Reader s) \<and> 0 \<le> s_base s \<and> 0 \<le> s_offset s \<and> s_limit s < 2 ^ 63"

context byte_source
begin

lemma section_read_on_source:
  assumes "stream_ok okr s" and "0 < n" and skipped: "s_offset s \<noteq> 0 \<or> s_base s = 0"
  shows "\<exists>b e s'. section_read_on rd n s = Some (Ret (b, e), s') \<and> stream_ok okr s' \<and>
    stream_rem rem s = b @ stream_rem rem s' \<and> length b \<le> n \<and>
    (if e = None then b \<noteq> [] else e = Some EOF \<and> stream_rem rem s' = [])"
proof (cases "s_offset s \<ge> s_limit s")
  case True
  with assms show ?thesis by (auto simp: section_read_on_def stream_rem_def)
next
  case False
  define m where "m = (if int n > s_limit s - s_offset s then nat (s_limit s - s_offset s) else n)"
  have m: "0 < m" "m \<le> n" "int m \<le> s_limit s - s_offset s" using False assms(2) by (auto simp: m_def)
  obtain b e r' where r: "rd m (s_Reader s) = Some (Ret (b, e), r')" "okr r'" "rem (s_Reader s) = b @ rem r'"
      "length b \<le> m" "if e = None then b \<noteq> [] else e = Some EOF \<and> rem r' = []"
    using read [of "s_Reader s" m] assms(1) m by (auto simp: stream_ok_def)
  define s' where "s' = s\<lparr>s_Reader := r', s_offset := s_offset s + int (length b)\<rparr>"
  have "wrap64 (s_offset s + int (length b)) = s_offset s + int (length b)"
    using assms(1) m r(4) by (intro wrap64_small) (auto simp: stream_ok_def)
  then have "section_read_on rd n s = Some (Ret (b, e), s')"
    using False r(1,5) by (auto simp: section_read_on_def Let_def m_def s'_def split: if_splits)
  moreover have "stream_ok okr s'" using assms(1) r(2) by (simp add: stream_ok_def s'_def)
  moreover have rem': "stream_rem rem s' = take (nat (s_limit s - s_offset s) - length b) (rem r')"
  proof -
    have "nat (s_limit s - (s_offset s + int (length b))) = nat (s_limit s - s_offset s) - length b" by linarith
    then show ?thesis using skipped assms(1) by (auto simp: stream_rem_def s'_def stream_ok_def)
  qed
  moreover have "stream_rem rem s = b @ stream_rem rem s'"
    unfolding rem' using skipped r(3,4) m(3) by (auto simp: stream_rem_def)
  ultimately show ?thesis using r(4,5) m(2) by (auto split: if_splits)
qed

lemma sectionReader_source:
  assumes "stream_ok okr s" and "0 < n"
  shows "\<exists>b e s'. sectionReader_Read rd n s = Some (Ret (b, e), s') \<and> stream_ok okr s' \<and>
    stream_rem rem s = b @ stream_rem rem s' \<and> length b \<le> n \<and>
    (if e = None then b \<noteq> [] else e = Some EOF \<and> stream_rem rem s' = [])"
proof (cases "s_offset s = 0 \<and> s_base s \<noteq> 0")
  case False
  then show ?thesis using section_read_on_source [OF assms] by (auto simp: sectionReader_Read_def)
next
  case True
  obtain r' where r: "CopyN_Discard rd (s_base s) (s_Reader s) =
      Some (Ret (if s_base s \<le> int (length (rem (s_Reader s))) then (s_base s, None)
                 else (int (length (rem (s_Reader s))), Some EOF)), r')"
      "okr r'" "rem r' = drop (nat (s_base s)) (rem (s_Reader s))"
    using CopyN_Discard_source [of "s_Reader s" "s_base s"] assms(1) by (auto simp: stream_ok_def)
  show ?thesis
  proof (cases "s_base s \<le> int (length (rem (s_Reader s)))")
    case short: False
    then show ?thesis
      using True r assms(1) by (auto simp: sectionReader_Read_def stream_ok_def stream_rem_def)
  next
    case enough: True
    let ?s = "s\<lparr>s_Reader := r', s_offset := s_base s\<rparr>"
    have "sectionReader_Read rd n s = section_read_on rd n ?s"
      using True enough r(1) by (simp add: sectionReader_Read_def)
    moreover have "stream_rem rem ?s = stream_rem rem s" using True r(3) by (simp add: stream_rem_def)
    moreover have "stream_ok okr ?s" using assms(1) r(2) by (simp add: stream_ok_def)
    ultimately show ?thesis using section_read_on_source [of ?s n] assms(2) True by simp
  qed
qed

end

section \<open>The streams of the command\<close>

fun in_rem :: "('i \<Rightarrow> bytes) \<Rightarrow> 'i in_stream \<Rightarrow> bytes" where
  "in_rem rem (FromFile d sr) = section_rem d sr"
| "in_rem rem (FromStdin s) = stream_rem rem s"

fun in_ok :: "('i \<Rightarrow> bool) \<Rightarrow> 'i in_stream \<Rightarrow> bool" where
  "in_ok okr (FromFile d sr) = section_ok sr"
| "in_ok okr (FromStdin s) = stream_ok okr s"

fun out_app :: "('o \<Rightarrow> bytes \<Rightarrow> 'o) \<Rightarrow> 'o out_stream \<Rightarrow> bytes \<Rightarrow> 'o out_stream" where
  "out_app app (ToFile p) b = ToFile (file_append p b)"
| "out_app app (ToStdout w) b = ToStdout (app w b)"

fun out_ok :: "('o \<Rightarrow> bool) \<Rightarrow> 'o out_stream \<Rightarrow> bool" where
  "out_ok okw (ToFile p) = True"
| "out_ok okw (ToStdout w) = okw w"

text \<open>Standard input and standard output satisfy the contracts.\<close>

locale dd_streams = source_sink

sublocale dd_streams \<subseteq> dd: source_sink "in_Read rd" "in_rem rem" "in_ok okr" "out_Write wr" "out_app app" "out_ok okw"
proof
  fix r and n :: nat
  assume "in_ok okr r" "0 < n"
  then show "\<exists>b e r'. in_Read rd n r = Some (Ret (b, e), r') \<and> in_ok okr r' \<and> in_rem rem r = b @ in_rem rem r' \<and>
      length b \<le> n \<and> (if e = None then b \<noteq> [] else e = Some EOF \<and> in_rem rem r' = [])"
  proof (cases r)
    case (FromFile d sr)
    then obtain b e sr' where "SectionReader_Read (file_at d) n sr = Some (Ret (b, e), sr')" "section_ok sr'"
        "section_rem d sr = b @ section_rem d sr'" "length b \<le> n"
        "if e = None then b \<noteq> [] else e = Some EOF \<and> section_rem d sr' = []"
      using file_section.read [of sr n d] \<open>in_ok okr r\<close> \<open>0 < n\<close> by auto
    then show ?thesis
      by (intro exI [of _ b] exI [of _ e] exI [of _ "FromFile d sr'"]) (simp add: in_Read_def FromFile)
  next
    case (FromStdin s)
    then obtain b e s' where "sectionReader_Read rd n s = Some (Ret (b, e), s')" "stream_ok okr s'"
        "stream_rem rem s = b @ stream_rem rem s'" "length b \<le> n"
        "if e = None then b \<noteq> [] else e = Some EOF \<and> stream_rem rem s' = []"
      using sectionReader_source [of s n] \<open>in_ok okr r\<close> \<open>0 < n\<close> by auto
    then show ?thesis
      by (intro exI [of _ b] exI [of _ e] exI [of _ "FromStdin s'"]) (simp add: in_Read_def FromStdin)
  qed
next
  fix b s assume "out_ok okw s"
  then show "out_Write wr b s = ((length b, None), out_app app s b)" "out_ok okw (out_app app s b)"
    by (cases s; simp add: out_Write_def writes okw_app file_sink.writes)+
next
  fix s show "out_app app s [] = s" by (cases s) simp_all
next
  fix s a b show "out_app app (out_app app s a) b = out_app app s (a @ b)"
    by (cases s) (simp_all add: app_app file_sink.app_app)
qed

text \<open>A pipe: the pieces in which the other end has written; a read delivers from the first piece.\<close>

fun pipe_read :: "bytes list io_reader" where
  "pipe_read n [] = Some (Ret ([], Some EOF), [])"
| "pipe_read n (p # ps) =
     Some (Ret (take n p, None), if length p \<le> n then ps else drop n p # ps)"

interpretation pipe: dd_streams pipe_read concat "\<lambda>ps. [] \<notin> set ps" buf_write "(@)" "\<lambda>_. True"
proof
  fix r :: "bytes list" and n :: nat
  assume "[] \<notin> set r" "0 < n"
  then show "\<exists>b e r'. pipe_read n r = Some (Ret (b, e), r') \<and> [] \<notin> set r' \<and> concat r = b @ concat r' \<and>
      length b \<le> n \<and> (if e = None then b \<noteq> [] else e = Some EOF \<and> concat r' = [])"
    by (cases r) auto
qed

end
