(* ===== verification/Dd_Props.thy ===== *)
theory Dd_Props
  imports Dd
begin

text \<open>
  What \<^verbatim>\<open>dd\<close> does: every run of the copy between a finite source and a sink that accepts everything ends
  with the whole input written in order; the same from the command line for files; and what happens when
  the output fails and when a file is skipped without a count.
\<close>

section \<open>Properties of the copy\<close>

lemma parallelChunkedCopy_Ret:
  assumes "0 < ib"
  shows "parallelChunkedCopy rd wr r w ib ob t =
    Ret (\<lparr>cp_read = rd, cp_write = wr, cp_in = ib, cp_out = ob, cp_transform = t,
          cp_depth = nat (min 8192 (1073741824 div ib))\<rparr>, copy_start r w)"
  using assms by (simp add: parallelChunkedCopy_def quot_int_def Let_def pos_imp_zdiv_neg_iff min_less_iff_disj)

lemma copy_result:
  assumes "byte_source rd rem okr" and "byte_sink wr app okw"
    and start: "parallelChunkedCopy rd wr r w ib ob t = Ret (c, s0)"
    and sizes: "0 < ib" "ib < 2 ^ 62" "0 < ob" "ob < 2 ^ 63"
    and data: "bytewise ok f t" "list_all ok (rem r)" "okr r" "okw w"
    and run: "(copy_step c ^^ k) s0 s"
  shows "k \<le> 10 * length (rem r) + 15 \<and>
    ((\<exists>s'. copy_step c s s') \<or>
     c_writer s = WDone None \<and> c_w s = app w (map f (rem r)) \<and> bytesWritten s = wrap64 (int (length (rem r))))"
proof -
  have ss: "source_sink rd rem okr wr app okw" using assms(1,2) by (rule source_sink.intro)
  have s0: "s0 = copy_start r w" and "source_sink.setting rd wr c ok f"
    using start sizes data(1) parallelChunkedCopy_Ret [OF sizes(1), of rd wr r w ob t]
    by (auto simp: source_sink.setting_def [OF ss])
  then show ?thesis
    using source_sink.run_result [OF ss _ data(2-4) run [unfolded s0]] by blast
qed

text \<open>
  C15. The copy loop of dd: for a source of finitely many bytes, a sink that accepts everything and a
  conversion that maps single bytes, however the two goroutines are scheduled, the copy makes at most ten
  steps for each byte of the input and fifteen more; it is never stuck before its end, and at its end it has
  returned no error, the sink has received the converted input in order, and the byte count is right.
\<close>

theorem dd_copy_total:
  assumes "byte_source rd rem okr" and "byte_sink wr app okw"
    and "parallelChunkedCopy rd wr r w ib ob t = Ret (c, s0)"
    and "0 < ib" "ib < 2 ^ 62" "0 < ob" "ob < 2 ^ 63"
    and "bytewise ok f t" "list_all ok (rem r)" "okr r" "okw w"
    and "(copy_step c ^^ k) s0 s"
  shows "k \<le> 10 * length (rem r) + 15 \<and>
    ((\<exists>s'. copy_step c s s') \<or>
     c_writer s = WDone None \<and> c_w s = app w (map f (rem r)) \<and> bytesWritten s = wrap64 (int (length (rem r))))"
  using assms by (rule copy_result)

theorem dd_copy_total_witness:
  "\<exists>c s0. parallelChunkedCopy pipe_read buf_write [''ab'', ''c''] ''x'' 512 4 id = Ret (c, s0) \<and>
     ((\<exists>s'. copy_step c s0 s') \<or> c_writer s0 = WDone None \<and> c_w s0 = ''xabc'' \<and> bytesWritten s0 = 3)"
proof -
  obtain c s0 where r: "parallelChunkedCopy pipe_read buf_write [''ab'', ''c''] ''x'' 512 4 id = Ret (c, s0)"
    using parallelChunkedCopy_Ret [of 512 pipe_read buf_write "[''ab'', ''c'']" "''x''" 4 id] by auto
  have "bytewise (\<lambda>_. True) id id" by (simp add: bytewise_def)
  then have "(\<exists>s'. copy_step c s0 s') \<or> c_writer s0 = WDone None \<and> c_w s0 = ''xabc'' \<and> bytesWritten s0 = 3"
    using dd_copy_total [OF pipe.byte_source_axioms buf_sink.byte_sink_axioms r, of "\<lambda>_. True" id 0 s0]
    by (simp add: wrap64_def list_all_iff)
  with r show ?thesis by blast
qed

text \<open>Files on both sides: nothing is asked of the standard streams.\<close>

interpretation dd_files: dd_streams stdin "\<lambda>_. []" "\<lambda>_. False" stdout "\<lambda>s b. s" "\<lambda>_. False" for stdin stdout
  by unfold_locales simp_all

section \<open>The command line\<close>

lemma split2_assign: "CHR ''='' \<notin> set x \<Longrightarrow> split2 (x @ CHR ''='' # v) = [x, v]"
  by (simp add: split2_def Let_def takeWhile_append)

lemma dd_copy_files:
  assumes files: "env_open env a = Inr d" "env_create env b = None" "a \<noteq> []" "b \<noteq> []"
    and flags: "inName fl = a" "outName fl = b" "ibs fl = n" "obs fl = n" "skip fl = k" "seek fl = j" "dd_count fl = m"
    and sizes: "0 < n" "n < 2 ^ 62" "0 \<le> k" "0 \<le> m" "m < 2 ^ 63 - 1" "0 \<le> j" "(k + m) * n < 2 ^ 63" "j * n < 2 ^ 63"
  shows "\<exists>c s0. dd_copy env t fl = DdRun c s0 \<and>
    parallelChunkedCopy (in_Read (env_stdin env)) (out_Write (env_stdout env))
      (FromFile d \<lparr>sr_off = k * n, sr_limit = (k + m) * n\<rparr>) (ToFile ([], nat (j * n))) n n t = Ret (c, s0)"
proof -
  let ?i = "FromFile d \<lparr>sr_off = k * n, sr_limit = (k + m) * n\<rparr>" and ?w = "ToFile ([], nat (j * n))"
  have "k * n + m * n < 2 ^ 63" "0 \<le> k * n" "0 \<le> m * n" "0 \<le> j * n"
    using sizes by (simp_all add: distrib_right)
  then have "wrap64 (m * n) = m * n" "wrap64 (n * k) = k * n" "wrap64 (k * n + m * n) = k * n + m * n"
      "wrap64 (j * n) = j * n"
    using sizes(8) by (auto intro!: wrap64_small simp: mult.commute [of n])
  then have i: "inFile (env_open env) (env_in env) a n k m = Inr ?i" and
    w: "outFile (env_create env) (env_seek env) (env_out env) b n j = Inr ?w"
    using files sizes \<open>0 \<le> j * n\<close>
    by (auto simp: inFile_def outFile_def NewSectionReader_def out_Seek_def distrib_right Let_def mult_less_0_iff)
  obtain c s0 where
    "parallelChunkedCopy (in_Read (env_stdin env)) (out_Write (env_stdout env)) ?i ?w n n t = Ret (c, s0)"
    by (rule that) (rule parallelChunkedCopy_Ret [OF sizes(1)])
  with i w show ?thesis by (simp add: dd_copy_def flags)
qed

lemma dd_parse:
  assumes "0 \<le> n" "n < 2 ^ 63" "0 \<le> k" "k < 2 ^ 63" "0 \<le> m" "m < 2 ^ 63" "0 \<le> j" "j < 2 ^ 63"
  shows "Parse dd_formal dd_defaults (drop 1 (convertArgs
      [''dd'', ''if='' @ a, ''of='' @ b, ''bs='' @ Itoa n, ''skip='' @ Itoa k, ''count='' @ Itoa m, ''seek='' @ Itoa j])) =
    Inr (dd_defaults\<lparr>inName := a, outName := b, bs := n, skip := k, dd_count := m, seek := j\<rparr>, [])"
proof -
  have "split2 ''dd'' = [''dd'']" by code_simp
  moreover have "split2 (''if='' @ a) = [''if'', a]" "split2 (''of='' @ b) = [''of'', b]"
    "split2 (''bs='' @ v) = [''bs'', v]" "split2 (''skip='' @ v) = [''skip'', v]"
    "split2 (''count='' @ v) = [''count'', v]" "split2 (''seek='' @ v) = [''seek'', v]" for v
    using split2_assign [of "''if''" a] split2_assign [of "''of''" b] split2_assign [of "''bs''" v]
      split2_assign [of "''skip''" v] split2_assign [of "''count''" v] split2_assign [of "''seek''" v]
    by simp_all
  ultimately show ?thesis
    using assms
    by (simp add: Parse_value [where n = "''if''"] Parse_value [where n = "''of''"] Parse_value [where n = "''bs''"]
        Parse_value [where n = "''skip''"] Parse_value [where n = "''count''"] Parse_value [where n = "''seek''"]
        dd_formal_def string_flag_def int64_flag_def ParseInt0_Itoa Parse_done dd_defaults_def)
qed

text \<open>
  C16. \<open>dd if=a of=b bs=n skip=k count=m seek=j\<close> between two files: as long as the offsets fit in 63 bits, the
  command starts, every run ends within a bounded number of steps, and the output file then consists of
  \<open>j * n\<close> zero bytes followed by the bytes of the input from \<open>k * n\<close> on, at most \<open>m * n\<close> of them.
\<close>

theorem dd_copies_file:
  assumes "env_open env a = Inr d" "env_create env b = None" "a \<noteq> []" "b \<noteq> []"
    and "0 < n" "n < 2 ^ 62" "0 \<le> k" "k < 2 ^ 63" "0 \<le> m" "m < 2 ^ 63 - 1" "0 \<le> j" "j < 2 ^ 63"
    and "(k + m) * n < 2 ^ 63" "j * n < 2 ^ 63"
    and "x = take (nat (m * n)) (drop (nat (k * n)) d)"
  shows "\<exists>c s0.
    dd_main env [''dd'', ''if='' @ a, ''of='' @ b, ''bs='' @ Itoa n, ''skip='' @ Itoa k, ''count='' @ Itoa m,
      ''seek='' @ Itoa j] = DdRun c s0 \<and>
    (\<forall>i s. (copy_step c ^^ i) s0 s \<longrightarrow>
       i \<le> 10 * length x + 15 \<and>
       ((\<exists>s'. copy_step c s s') \<or>
        c_writer s = WDone None \<and>
        c_w s = ToFile (if x = [] then [] else replicate (nat (j * n)) CHR 0x00 @ x, nat (j * n) + length x)))"
proof -
  let ?fl = "dd_defaults\<lparr>inName := a, outName := b, bs := n, skip := k, dd_count := m, seek := j, ibs := n, obs := n\<rparr>"
  let ?in = "FromFile d \<lparr>sr_off = k * n, sr_limit = (k + m) * n\<rparr>" and ?out = "ToFile ([], nat (j * n))"
  obtain c s0 where c: "dd_copy env (\<lambda>b. b) ?fl = DdRun c s0"
      "parallelChunkedCopy (in_Read (env_stdin env)) (out_Write (env_stdout env)) ?in ?out n n (\<lambda>b. b) = Ret (c, s0)"
    using dd_copy_files [OF assms(1-4), of ?fl n k j m "\<lambda>b. b"] assms by auto
  have "dd_main env [''dd'', ''if='' @ a, ''of='' @ b, ''bs='' @ Itoa n, ''skip='' @ Itoa k, ''count='' @ Itoa m,
      ''seek='' @ Itoa j] = DdRun c s0"
    using assms c(1) unfolding dd_main_def by (subst dd_parse) (simp_all add: dd_defaults_def convs_def)
  moreover have "i \<le> 10 * length x + 15 \<and> ((\<exists>s'. copy_step c s s') \<or> c_writer s = WDone None \<and>
      c_w s = ToFile (if x = [] then [] else replicate (nat (j * n)) CHR 0x00 @ x, nat (j * n) + length x))"
    if "(copy_step c ^^ i) s0 s" for i s
  proof -
    have "in_rem (\<lambda>_. []) ?in = x"
      using assms by (simp add: section_rem_def distrib_right)
    moreover have "in_ok (\<lambda>_. False) ?in"
    proof -
      have "0 \<le> k * n" "0 \<le> m * n" using assms by simp_all
      then show ?thesis
        using assms(13) by (simp only: in_ok.simps section_ok_def SectionReader.simps distrib_right)
          (intro conjI TrueI; linarith)
    qed
    moreover have "out_app (\<lambda>s b. s) ?out x =
        ToFile (if x = [] then [] else replicate (nat (j * n)) CHR 0x00 @ x, nat (j * n) + length x)"
      by (simp add: file_append_def put_at_def)
    ultimately show ?thesis
      using copy_result [OF dd_files.dd.byte_source_axioms dd_files.dd.byte_sink_axioms c(2) _ _ _ _ _ _ _ _ that, where ok = "\<lambda>_. True" and f = "\<lambda>x. x"] assms(5,6)
      by (auto simp: bytewise_def list_all_iff)
  qed
  ultimately show ?thesis by blast
qed

theorem dd_copies_file_witness:
  "\<exists>c s0. dd_main \<lparr>env_open = (\<lambda>n. if n = ''in'' then Inr ''hello'' else Inl EOF), env_create = (\<lambda>_. None),
        env_stdin = pipe_read, env_in = [], env_stdout = buf_write, env_out = [], env_seek = (\<lambda>_ w. (None, w)),
        env_upper = id, env_lower = id\<rparr>
      [''dd'', ''if=in'', ''of=out'', ''bs=2'', ''skip=1'', ''count=1'', ''seek=0''] = DdRun c s0 \<and>
    ((\<exists>s'. copy_step c s0 s') \<or> c_writer s0 = WDone None \<and> c_w s0 = ToFile (''ll'', 2))"
proof -
  let ?env = "\<lparr>env_open = (\<lambda>n. if n = ''in'' then Inr ''hello'' else Inl EOF),
        env_create = (\<lambda>_. None), env_stdin = pipe_read, env_in = [], env_stdout = buf_write, env_out = [],
        env_seek = (\<lambda>_ w. (None, w)), env_upper = id, env_lower = id\<rparr>"
  have "Itoa 2 = ''2''" "Itoa 1 = ''1''" "Itoa 0 = ''0''" by code_simp+
  then obtain c s0 where "dd_main ?env [''dd'', ''if=in'', ''of=out'', ''bs=2'', ''skip=1'', ''count=1'', ''seek=0''] = DdRun c s0"
    and "\<And>i s. (copy_step c ^^ i) s0 s \<Longrightarrow> (\<exists>s'. copy_step c s s') \<or> c_writer s = WDone None \<and> c_w s = ToFile (''ll'', 2)"
    using dd_copies_file [of ?env "''in''" "''hello''" "''out''" 2 1 1 0 "''ll''"] by (auto simp: numeral_2_eq_2)
  from this(1) this(2) [of 0 s0] show ?thesis by auto
qed

text \<open>
  Skipping in a named file without a count reads nothing: the end of the section, offset plus the
  largest integer, wraps around below the offset, so that already the first read reports the end of the file.
\<close>

lemma dd_skip_reads_nothing:
  assumes "name \<noteq> []" and "opn name = Inr d" and "0 < n" and "0 < k" and "n * k < 2 ^ 63"
  shows "\<exists>s. inFile opn i name n k (2 ^ 63 - 1) = Inr s \<and> in_Read stdin m s = Some (Ret ([], Some EOF), s)"
proof -
  have nk: "0 < n * k" using assms by simp
  then have "wrap64 (n * k) = n * k" using assms(5) by (intro wrap64_small) auto
  moreover have "wrap64 (n * k + (2 ^ 63 - 1)) = n * k - 1 - 2 ^ 63"
  proof -
    have "(n * k - 1 + 2 ^ 64) mod 2 ^ 64 = (n * k - 1) mod 2 ^ 64" by (rule mod_add_self2)
    also have "\<dots> = n * k - 1" using nk assms(5) by (intro mod_pos_pos_trivial) auto
    finally show ?thesis by (simp add: wrap64_def algebra_simps)
  qed
  ultimately show ?thesis using assms(1,2)
    by (simp add: inFile_def Let_def NewSectionReader_def in_Read_def SectionReader_Read_def)
qed

section \<open>A failing output\<close>

definition filled :: "('r, 's) copier \<Rightarrow> ('r, 's) copy_state \<Rightarrow> nat \<Rightarrow> bool" where
  "filled c s i \<longleftrightarrow>
     i < length (c_store s) \<and> cb_wf (cp_in c) (cp_out c) (cp_transform c) (c_store s ! i) \<and>
     0 < cb_length (c_store s ! i)"

text \<open>The states of a copy whose buffers are never given back, with \<open>k\<close> buffers in the queue.\<close>

definition backlog :: "('r, 's) copier \<Rightarrow> nat \<Rightarrow> reader_pc \<Rightarrow> writer_pc \<Rightarrow> ('r, 's) copy_state \<Rightarrow> bool" where
  "backlog c k p w s \<longleftrightarrow>
     c_reader s = p \<and> c_writer s = w \<and> \<not> c_quit s \<and> \<not> c_closed s \<and> \<not> c_wg s \<and> c_pool s = [] \<and>
     length (c_ready s) = k \<and> (\<forall>i \<in> set (c_ready s) \<union> set (pend_w w) \<union> set (pend_r p). filled c s i)"

abbreviation may_reach :: "('r, 's) copier \<Rightarrow> ('r, 's) copy_state \<Rightarrow> ('r, 's) copy_state \<Rightarrow> bool" where
  "may_reach c \<equiv> (copy_step c)\<^sup>*\<^sup>*"

lemma reach_reader:
  "\<not> panicked (c_reader s) (c_writer s) \<Longrightarrow> reader_step c s = Some s' \<Longrightarrow> may_reach c s' t \<Longrightarrow> may_reach c s t"
  by (meson converse_rtranclp_into_rtranclp copy_step.reader_moves)

lemma reach_writer:
  "\<not> panicked (c_reader s) (c_writer s) \<Longrightarrow> writer_step c s = Some s' \<Longrightarrow> may_reach c s' t \<Longrightarrow> may_reach c s t"
  by (meson converse_rtranclp_into_rtranclp copy_step.writer_moves)

text \<open>An endless source, and an output on which every write fails.\<close>

definition endless :: "'r io_reader \<Rightarrow> bool" where
  "endless rd \<longleftrightarrow>
     (\<forall>n r. 0 < n \<longrightarrow> (\<exists>b r'. rd n r = Some (Ret (b, None), r') \<and> b \<noteq> [] \<and> length b \<le> n))"

definition broken :: "'s io_writer \<Rightarrow> bool" where
  "broken wr \<longleftrightarrow> (\<forall>b w. snd (fst (wr b w)) \<noteq> None)"

fun calm :: "writer_pc \<Rightarrow> bool" where
  "calm WRecv = True"
| "calm (WWrite i) = True"
| "calm _ = False"

lemma backlog_read:
  assumes b: "backlog c k RSelect w s" and c: "0 < cp_in c" "endless (cp_read c)" and w: "calm w"
  shows "\<exists>i n t. may_reach c s t \<and> backlog c k (RSend i n None) w t \<and> 0 < n"
proof -
  let ?nb = "newChunkedBuffer (cp_in c) (cp_out c) (cp_transform c)" and ?l = "length (c_store s)"
  have len: "length (cb_data ?nb) = nat (cp_in c)" by (simp add: newChunkedBuffer_def)
  then obtain x r' where x: "cp_read c (length (cb_data ?nb)) (c_r s) = Some (Ret (x, None), r')" "x \<noteq> []"
      "length x \<le> nat (cp_in c)"
    using c unfolding endless_def by (metis zero_less_nat_eq)
  let ?cb = "?nb\<lparr>cb_length := length x, cb_data := x @ drop (length x) (cb_data ?nb)\<rparr>"
  let ?s1 = "s\<lparr>c_reader := RGet\<rparr>"
  let ?s2 = "s\<lparr>c_store := c_store s @ [?nb], c_reader := RRead ?l\<rparr>"
  let ?s3 = "s\<lparr>c_store := c_store s @ [?cb], c_r := r', c_reader := RSend ?l (length x) None\<rparr>"
  have s1: "reader_step c s = Some ?s1" using b by (simp add: backlog_def reader_step_def)
  have s2: "reader_step c ?s1 = Some ?s2" using b c by (simp add: backlog_def reader_step_def pool_Get_def)
  have s3: "reader_step c ?s2 = Some ?s3" using x by (simp add: reader_step_def ReadFrom_def)
  have np: "\<not> panicked (c_reader s) (c_writer s)" "\<not> panicked (c_reader ?s1) (c_writer ?s1)"
    "\<not> panicked (c_reader ?s2) (c_writer ?s2)"
    using b w by (cases w; simp add: backlog_def)+
  have "may_reach c s ?s3"
    by (rule reach_reader [OF np(1) s1], rule reach_reader [OF np(2) s2], rule reach_reader [OF np(3) s3]) simp
  moreover have "cb_wf (cp_in c) (cp_out c) (cp_transform c) ?cb"
    using c(1) x(3) by (simp add: cb_wf_def newChunkedBuffer_def)
  then have "backlog c k (RSend ?l (length x) None) w ?s3"
    using b x(2) by (auto simp: backlog_def filled_def nth_append intro: less_SucI)
  ultimately show ?thesis using x(2) by blast
qed

lemma backlog_send:
  assumes b: "backlog c k (RSend i n None) w s" and "k < cp_depth c" and w: "calm w" and "0 < n"
  shows "\<exists>t. may_reach c s t \<and> backlog c (Suc k) RSelect w t"
proof -
  let ?s1 = "s\<lparr>c_ready := c_ready s @ [i], c_reader := RCheck n None\<rparr>"
  let ?s2 = "s\<lparr>c_ready := c_ready s @ [i], c_reader := RSelect\<rparr>"
  have s1: "reader_step c s = Some ?s1" using assms by (simp add: backlog_def reader_step_def)
  have s2: "reader_step c ?s1 = Some ?s2" using assms(4) by (simp add: reader_step_def)
  have np: "\<not> panicked (c_reader s) (c_writer s)" "\<not> panicked (c_reader ?s1) (c_writer ?s1)"
    using b w by (cases w; simp add: backlog_def)+
  have "may_reach c s ?s2" by (rule reach_reader [OF np(1) s1], rule reach_reader [OF np(2) s2]) simp
  moreover have "backlog c (Suc k) RSelect w ?s2" using b by (auto simp: backlog_def filled_def)
  ultimately show ?thesis by blast
qed

lemma backlog_fill:
  assumes c: "0 < cp_in c" "endless (cp_read c)"
  shows "k \<le> cp_depth c \<Longrightarrow> \<exists>t. may_reach c (copy_start r w) t \<and> backlog c k RSelect WRecv t"
proof (induction k)
  case 0
  have "backlog c 0 RSelect WRecv (copy_start r w)" by (simp add: backlog_def copy_start_def)
  then show ?case by blast
next
  case (Suc k)
  then obtain t where t: "may_reach c (copy_start r w) t" "backlog c k RSelect WRecv t" by auto
  obtain i n u where u: "may_reach c t u" "backlog c k (RSend i n None) WRecv u" "0 < n"
    using backlog_read [OF t(2) c] by auto
  obtain v where "may_reach c u v" "backlog c (Suc k) RSelect WRecv v"
    using backlog_send [OF u(2) _ _ u(3)] Suc.prems by auto
  with t(1) u(1) show ?case by (meson rtranclp_trans)
qed

text \<open>The queue is full, and the writer holds a buffer.\<close>

lemma backlog_writing:
  assumes c: "0 < cp_in c" "endless (cp_read c)"
  shows "\<exists>i t. may_reach c (copy_start r w) t \<and> backlog c (cp_depth c) RSelect (WWrite i) t"
proof -
  obtain t where t: "may_reach c (copy_start r w) t" "backlog c (cp_depth c) RSelect WRecv t"
    using backlog_fill [OF c order_refl] by blast
  obtain i n u where u: "may_reach c t u" "backlog c (cp_depth c) (RSend i n None) WRecv u" "0 < n"
    using backlog_read [OF t(2) c] by auto
  have np: "\<not> panicked (c_reader u) (c_writer u)" using u(2) by (simp add: backlog_def)
  show ?thesis
  proof (cases "cp_depth c")
    case 0
    let ?v = "u\<lparr>c_writer := WWrite i, c_reader := RCheck n None\<rparr>"
    let ?x = "u\<lparr>c_writer := WWrite i, c_reader := RSelect\<rparr>"
    have st: "reader_step c u = Some ?v" "reader_step c ?v = Some ?x"
      using u 0 by (simp_all add: backlog_def reader_step_def)
    have "may_reach c u ?x" by (rule reach_reader [OF np st(1)], rule reach_reader [OF _ st(2)]) simp_all
    moreover have "backlog c 0 RSelect (WWrite i) ?x" using u(2) 0 by (auto simp: backlog_def filled_def)
    ultimately show ?thesis using t(1) u(1) 0 by (metis rtranclp_trans)
  next
    case (Suc d)
    then obtain j q where q: "c_ready u = j # q" using u(2) by (auto simp: backlog_def length_Suc_conv)
    let ?v = "u\<lparr>c_ready := q, c_writer := WWrite j\<rparr>"
    have "writer_step c u = Some ?v" using u(2) q by (simp add: backlog_def writer_step_def)
    then have v: "may_reach c u ?v" by (rule reach_writer [OF np]) simp
    have "backlog c d (RSend i n None) (WWrite j) ?v" using u(2) q Suc by (auto simp: backlog_def filled_def)
    from backlog_send [OF this _ _ u(3)] Suc obtain x where
      "may_reach c ?v x" "backlog c (cp_depth c) RSelect (WWrite j) x" by auto
    then show ?thesis using t(1) u(1) v by (meson rtranclp_trans)
  qed
qed

lemma broken_WriteTo:
  assumes "broken wr" and "cb_wf inb out t cb" and "0 < cb_length cb" "0 < out" "out < 2 ^ 63" "inb < 2 ^ 62"
  shows "\<exists>k e w'. WriteTo wr cb w = Some (Ret (k, Some e), w')"
proof -
  have l: "int (cb_length cb) < 2 ^ 62" using assms by (simp add: cb_wf_def)
  then have "wrap64 (outChunk cb) = outChunk cb" "wrap64 (int (cb_length cb)) = int (cb_length cb)"
    using assms by (auto intro!: wrap64_small simp: cb_wf_def)
  then have size: "0 < chunk_size cb 0" "wrap64 (chunk_size cb 0) = chunk_size cb 0" "chunk_size cb 0 \<le> int (cb_length cb)"
    using assms by (auto simp: chunk_size_def cb_wf_def)
  obtain got e w' where "wr (transform cb (take (nat (chunk_size cb 0)) (cb_data cb))) w = ((got, Some e), w')"
    using assms(1) unfolding broken_def by (metis option.exhaust prod.collapse)
  then show ?thesis
    using size assms(2,3) by (simp add: WriteTo_def write_loop.simps [of wr cb 0] cb_wf_def)
qed

text \<open>
  C17. When the output fails, dd can hang: for every endless input, every output that fails and all buffer
  sizes, there is a run of the copy that reaches a state in which the main goroutine waits for the reader to
  exit and the reader waits to send a buffer on the full queue, and no step is possible.
\<close>

theorem dd_write_error_hangs:
  assumes start: "parallelChunkedCopy rd wr r w ib ob t = Ret (c, s0)"
    and "0 < ib" "ib < 2 ^ 62" "0 < ob" "ob < 2 ^ 63" and "endless rd" and "broken wr"
  shows "\<exists>s. (copy_step c)\<^sup>*\<^sup>* s0 s \<and> (\<nexists>s'. copy_step c s s') \<and>
    c_writer s = WWait (Some (Errorf ''output error: %v'')) \<and> (\<exists>i n. c_reader s = RSend i n None)"
proof -
  have c: "cp_in c = ib" "cp_out c = ob" "cp_read c = rd" "cp_write c = wr" and s0: "s0 = copy_start r w"
    using start by (auto simp: parallelChunkedCopy_def Let_def split: if_splits)
  obtain i u where u: "may_reach c s0 u" "backlog c (cp_depth c) RSelect (WWrite i) u"
    using backlog_writing [of c r w] assms c s0 by auto
  obtain j n v where v: "may_reach c u v" "backlog c (cp_depth c) (RSend j n None) (WWrite i) v"
    using backlog_read [OF u(2)] assms c by auto
  have np: "\<not> panicked (c_reader v) (c_writer v)" using v(2) by (simp add: backlog_def)
  let ?e = "Some (Errorf ''output error: %v'')"
  obtain k e w' where W: "WriteTo wr (c_store v ! i) (c_w v) = Some (Ret (k, Some e), w')"
    using broken_WriteTo [OF \<open>broken wr\<close>, of ib ob "cp_transform c" "c_store v ! i" "c_w v"] v(2) assms c
    by (auto simp: backlog_def filled_def)
  let ?x = "v\<lparr>c_w := w', c_writer := WClose ?e\<rparr>" and ?y = "v\<lparr>c_w := w', c_quit := True, c_writer := WWait ?e\<rparr>"
  have st: "writer_step c v = Some ?x" "writer_step c ?x = Some ?y"
    using v(2) W c by (simp_all add: backlog_def writer_step_def)
  have "may_reach c v ?y"
    by (rule reach_writer [OF np st(1)], rule reach_writer [OF _ st(2)]) (use v(2) in \<open>simp_all add: backlog_def\<close>)
  moreover have "\<nexists>s'. copy_step c ?y s'"
    using v(2) by (auto simp: copy_step_iff reader_step_def writer_step_def backlog_def)
  ultimately show ?thesis using u(1) v by (auto simp: backlog_def intro!: exI [of _ ?y])
qed

theorem dd_write_error_hangs_witness:
  "\<exists>c s0 s. parallelChunkedCopy (\<lambda>n r. Some (Ret (''z'', None), r)) (\<lambda>b w. ((0, Some (Errno ''ENOSPC'')), w)) (0 :: nat) (0 :: nat) 512 512 id =
       Ret (c, s0) \<and>
     (copy_step c)\<^sup>*\<^sup>* s0 s \<and> (\<nexists>s'. copy_step c s s') \<and> c_writer s = WWait (Some (Errorf ''output error: %v''))"
proof -
  let ?rd = "\<lambda>n (r :: nat). Some (Ret (''z'', None), r)" and ?wr = "\<lambda>b (w :: nat). ((0, Some (Errno ''ENOSPC'')), w)"
  have "endless ?rd" "broken ?wr" by (auto simp: endless_def broken_def)
  moreover obtain c s0 where "parallelChunkedCopy ?rd ?wr (0 :: nat) (0 :: nat) 512 512 id = Ret (c, s0)"
    by (simp add: parallelChunkedCopy_def quot_int_def)
  ultimately show ?thesis using dd_write_error_hangs [of ?rd ?wr 0 0 512 512 id c s0] by auto
qed

end
