(* ===== verification/Wc.thy ===== *)
theory Wc
  imports Go_Flag
begin

text \<open>
  \<^verbatim>\<open>src/cmds/wc/wc.go\<close>: lines, words, runes, broken runes and bytes. The source counts line by line;
  the main result is that this gives the counts of the whole text, because no rune and no word reaches
  over a newline.
\<close>

section \<open>Runes and words\<close>

text \<open>\<^verbatim>\<open>utf8.RuneCount\<close>.\<close>

definition RuneCount :: "bytes \<Rightarrow> nat" where
  "RuneCount s = length (runes s)"

text \<open>\<^verbatim>\<open>bytes.Fields\<close>: the maximal groups of runes that are not spaces.\<close>

fun group_fields :: "bytes list \<Rightarrow> bytes \<Rightarrow> bytes list" where
  "group_fields [] cur = (if cur = [] then [] else [cur])"
| "group_fields (r # rs) cur =
     (if IsSpace r then (if cur = [] then [] else [cur]) @ group_fields rs [] else group_fields rs (cur @ r))"

definition Fields :: "bytes \<Rightarrow> bytes list" where
  "Fields s = group_fields (runes s) []"

section \<open>Counting\<close>

function invalidCount :: "bytes \<Rightarrow> nat" where
  "invalidCount p =
     (case p of
        [] \<Rightarrow> 0
      | c # cs \<Rightarrow>
          if (of_char c :: nat) < 0x80 then invalidCount cs
          else (if rune_size p = 1 then 1 else 0) + invalidCount (drop (rune_size p) p))"
  by pat_completeness auto
termination
  by (relation "measure length") (auto simp: rune_size_pos)

declare invalidCount.simps [simp del]

record cnt =
  nline :: nat
  nword :: nat
  nrune :: nat
  nbadr :: nat
  nchar :: nat

definition cnt_zero :: cnt where
  "cnt_zero = \<lparr>nline = 0, nword = 0, nrune = 0, nbadr = 0, nchar = 0\<rparr>"

text \<open>
  The loop of \<^verbatim>\<open>count\<close> over an input that delivers \<open>s\<close> and then ends with the error \<open>err\<close>; after another
  error than the end of the file there are no partial counts.
\<close>

function count_loop :: "bytes \<Rightarrow> goerr \<Rightarrow> cnt \<Rightarrow> cnt" where
  "count_loop s err c =
     (case read_chunk s of (line, eof, rest) \<Rightarrow>
        if eof \<and> err \<noteq> EOF then cnt_zero
        else
          let c' = \<lparr>nline = (if eof then nline c else nline c + 1), nword = nword c + length (Fields line),
                    nrune = nrune c + RuneCount line, nbadr = nbadr c + invalidCount line,
                    nchar = nchar c + length line\<rparr>
          in if eof then c' else count_loop rest err c')"
  by pat_completeness auto
termination
  by (relation "measure (\<lambda>(s, _, _). length s)") (auto dest: read_chunk_less [OF sym])

declare count_loop.simps [simp del]

definition wc_count :: "bytes \<Rightarrow> goerr \<Rightarrow> cnt" where
  "wc_count s err = count_loop s err cnt_zero"

record wc_flags =
  wc_lines :: bool
  wc_words :: bool
  wc_runes :: bool
  wc_broken :: bool
  wc_chars :: bool

definition wc_formal :: "wc_flags formal" where
  "wc_formal = map_of
     [(''l'', bool_flag (\<lambda>b f. f\<lparr>wc_lines := b\<rparr>)), (''w'', bool_flag (\<lambda>b f. f\<lparr>wc_words := b\<rparr>)),
      (''r'', bool_flag (\<lambda>b f. f\<lparr>wc_runes := b\<rparr>)), (''b'', bool_flag (\<lambda>b f. f\<lparr>wc_broken := b\<rparr>)),
      (''c'', bool_flag (\<lambda>b f. f\<lparr>wc_chars := b\<rparr>))]"

definition report :: "wc_flags \<Rightarrow> cnt \<Rightarrow> string \<Rightarrow> string" where
  "report f c fname =
     join_with '' ''
       ((if wc_lines f then [format_nat 10 (nline c)] else []) @
        (if wc_words f then [format_nat 10 (nword c)] else []) @
        (if wc_runes f then [format_nat 10 (nrune c)] else []) @
        (if wc_broken f then [format_nat 10 (nbadr c)] else []) @
        (if wc_chars f then [format_nat 10 (nchar c)] else []) @
        (if fname \<noteq> [] then [fname] else [])) @ [newline]"

definition cnt_add :: "cnt \<Rightarrow> cnt \<Rightarrow> cnt" where
  "cnt_add a b =
     \<lparr>nline = nline a + nline b, nword = nword a + nword b, nrune = nrune a + nrune b,
      nbadr = nbadr a + nbadr b, nchar = nchar a + nchar b\<rparr>"

text \<open>
  \<^verbatim>\<open>main\<close>: standard output and the exit status. \<open>opn\<close> opens a file: its bytes and the error that ends it.
\<close>

fun wc_files :: "(string \<Rightarrow> goerr + (bytes \<times> goerr)) \<Rightarrow> wc_flags \<Rightarrow> string list \<Rightarrow> cnt \<Rightarrow> string \<Rightarrow> (cnt \<times> string) option \<times> string" where
  "wc_files opn f [] totals out = (Some (totals, out), out)"
| "wc_files opn f (v # vs) totals out =
     (case opn v of
        Inl e \<Rightarrow> (None, out)
      | Inr (s, err) \<Rightarrow>
          let c = wc_count s err in wc_files opn f vs (cnt_add totals c) (out @ report f c v))"

definition wc_main ::
    "(string \<Rightarrow> goerr + (bytes \<times> goerr)) \<Rightarrow> bytes \<times> goerr \<Rightarrow> string list \<Rightarrow> nat \<times> string" where
  "wc_main opn stdin args =
     (case Parse wc_formal \<lparr>wc_lines = False, wc_words = False, wc_runes = False, wc_broken = False, wc_chars = False\<rparr> args of
        Inl e \<Rightarrow> (2, [])
      | Inr (f, files) \<Rightarrow>
          let f = (if wc_lines f \<or> wc_words f \<or> wc_runes f \<or> wc_broken f \<or> wc_chars f then f
                   else f\<lparr>wc_lines := True, wc_words := True, wc_chars := True\<rparr>)
          in if files = [] then (0, report f (wc_count (fst stdin) (snd stdin)) [])
             else (case wc_files opn f files cnt_zero [] of
                     (None, out) \<Rightarrow> (1, out)
                   | (Some (totals, out), _) \<Rightarrow>
                       (0, if length files > 1 then out @ report f totals ''total'' else out)))"

section \<open>Counting line by line\<close>

lemma not_cont_newline: "0x80 \<le> lo \<Longrightarrow> \<not> cont lo hi newline"
  by (simp add: cont_def)

lemma rune_size_newline: "rune_size (x @ newline # r) = rune_size (x @ [newline])"
proof (cases x)
  case (Cons b bs)
  have nl: "\<not> cont 0x80 0xBF newline" "\<not> cont 0xA0 0xBF newline" "\<not> cont 0x80 0x9F newline"
    "\<not> cont 0x90 0xBF newline" "\<not> cont 0x80 0x8F newline"
    by (simp_all add: cont_def)
  show ?thesis
  proof (cases bs)
    case Nil
    with Cons nl show ?thesis by (simp add: rune_size_def Let_def)
  next
    case b1: (Cons b1 bs1)
    show ?thesis
    proof (cases bs1)
      case Nil
      with Cons b1 nl show ?thesis by (simp add: rune_size_def Let_def)
    next
      case b2: (Cons b2 bs2)
      with Cons b1 nl show ?thesis by (cases bs2) (simp_all add: rune_size_def Let_def)
    qed
  qed
qed (simp add: rune_size_def Let_def)

lemma rune_size_before: "x \<noteq> [] \<Longrightarrow> rune_size (x @ [newline]) \<le> length x"
proof -
  assume "x \<noteq> []"
  have nl: "\<not> cont 0x80 0xBF newline" "\<not> cont 0xA0 0xBF newline" "\<not> cont 0x80 0x9F newline"
    "\<not> cont 0x90 0xBF newline" "\<not> cont 0x80 0x8F newline"
    by (simp_all add: cont_def)
  from \<open>x \<noteq> []\<close> obtain b bs where x: "x = b # bs" by (cases x) auto
  show ?thesis
  proof (cases bs)
    case Nil
    with x nl show ?thesis by (simp add: rune_size_def Let_def)
  next
    case b1: (Cons b1 bs1)
    show ?thesis
    proof (cases bs1)
      case Nil
      with x b1 nl show ?thesis by (simp add: rune_size_def Let_def)
    next
      case b2: (Cons b2 bs2)
      with x b1 nl show ?thesis by (cases bs2) (simp_all add: rune_size_def Let_def)
    qed
  qed
qed

lemma runes_newline: "runes (newline # r) = [newline] # runes r"
  by (subst runes.simps) (simp add: rune_size_def Let_def)

lemma runes_line: "runes (x @ newline # r) = runes (x @ [newline]) @ runes r"
proof (induction "length x" arbitrary: x rule: less_induct)
  case less
  show ?case
  proof (cases "x = []")
    case True
    then show ?thesis using runes_newline [of r] runes_newline [of "[]"] by (simp add: runes.simps [of "[]"])
  next
    case False
    let ?k = "rune_size (x @ [newline])"
    have k: "?k \<le> length x" "0 < ?k" using False by (simp_all add: rune_size_before rune_size_pos)
    have "runes (drop ?k x @ newline # r) = runes (drop ?k x @ [newline]) @ runes r"
      using less.hyps [of "drop ?k x"] k False by simp
    then show ?thesis
      using k by (simp add: runes.simps [of "x @ newline # r"] runes.simps [of "x @ [newline]"] rune_size_newline [of x r])
  qed
qed

lemma runes_line_end: "\<exists>rs. runes (x @ [newline]) = rs @ [[newline]]"
proof (induction "length x" arbitrary: x rule: less_induct)
  case less
  show ?case
  proof (cases "x = []")
    case True
    then show ?thesis using runes_newline [of "[]"] by (simp add: runes.simps [of "[]"])
  next
    case False
    let ?k = "rune_size (x @ [newline])"
    have k: "?k \<le> length x" "0 < ?k" using False by (simp_all add: rune_size_before rune_size_pos)
    then obtain rs where "runes (drop ?k x @ [newline]) = rs @ [[newline]]"
      using less.hyps [of "drop ?k x"] False by auto
    with k show ?thesis by (simp add: runes.simps [of "x @ [newline]"])
  qed
qed

lemma group_fields_newline:
  "group_fields (rs @ [newline] # ts) cur = group_fields (rs @ [[newline]]) cur @ group_fields ts []"
  by (induction rs arbitrary: cur) (simp_all add: IsSpace_def)

lemma Fields_line: "Fields (x @ newline # r) = Fields (x @ [newline]) @ Fields r"
proof -
  obtain rs where rs: "runes (x @ [newline]) = rs @ [[newline]]" using runes_line_end by blast
  then show ?thesis
    using group_fields_newline [of rs "runes r" "[]"] runes_line [of x r] by (simp add: Fields_def)
qed

definition bad_rune :: "bytes \<Rightarrow> bool" where
  "bad_rune r \<longleftrightarrow> length r = 1 \<and> 0x80 \<le> (of_char (hd r) :: nat)"

lemma rune_size_ascii: "(of_char c :: nat) < 0x80 \<Longrightarrow> rune_size (c # cs) = 1"
  by (simp add: rune_size_def Let_def)

lemma rune_size_le: "rune_size s \<le> length s"
  by (cases s) (auto simp: rune_size_def Let_def simp del: length_greater_0_conv)

lemma invalidCount_runes: "invalidCount s = length (filter bad_rune (runes s))"
proof (induction s rule: invalidCount.induct)
  case (1 p)
  show ?case
  proof (cases p)
    case Nil
    then show ?thesis by (simp add: invalidCount.simps [of "[]"] runes.simps [of "[]"])
  next
    case (Cons c cs)
    have len: "length (take (rune_size p) p) = rune_size p" by (simp add: rune_size_le)
    show ?thesis
    proof (cases "(of_char c :: nat) < 0x80")
      case True
      then show ?thesis
        using 1 Cons by (simp add: invalidCount.simps [of "c # cs"] runes.simps [of "c # cs"] rune_size_ascii bad_rune_def)
    next
      case False
      moreover have "hd (take (rune_size p) p) = c" using Cons rune_size_pos [of p] by (simp add: take_Cons')
      ultimately have "bad_rune (take (rune_size p) p) \<longleftrightarrow> rune_size p = 1"
        using len by (simp add: bad_rune_def)
      then show ?thesis using 1 Cons False by (simp add: invalidCount.simps [of "c # cs"] runes.simps [of "c # cs"])
    qed
  qed
qed

lemma invalidCount_line: "invalidCount (x @ newline # r) = invalidCount (x @ [newline]) + invalidCount r"
  using runes_line [of x r] by (simp add: invalidCount_runes)

definition whole_count :: "bytes \<Rightarrow> cnt" where
  "whole_count s =
     \<lparr>nline = count_list s newline, nword = length (Fields s), nrune = RuneCount s,
      nbadr = invalidCount s, nchar = length s\<rparr>"

lemma whole_count_line:
  "newline \<notin> set x \<Longrightarrow> whole_count (x @ newline # r) =
     cnt_add \<lparr>nline = 1, nword = length (Fields (x @ [newline])), nrune = RuneCount (x @ [newline]),
              nbadr = invalidCount (x @ [newline]), nchar = Suc (length x)\<rparr> (whole_count r)"
  using Fields_line [of x r] runes_line [of x r] invalidCount_line [of x r]
  by (simp add: whole_count_def cnt_add_def RuneCount_def count_list_0_iff)

lemma count_loop_whole: "count_loop s EOF c = cnt_add c (whole_count s)"
proof (induction s EOF c rule: count_loop.induct)
  case (1 s c)
  obtain l e r where s: "read_chunk s = (l, e, r)" by (cases "read_chunk s") auto
  show ?case
  proof (cases e)
    case True
    with read_chunk_eof [of s] s show ?thesis
      by (auto simp: count_loop.simps [of s] cnt_add_def whole_count_def count_list_0_iff)
  next
    case False
    with s obtain x where x: "l = x @ [newline]" "newline \<notin> set x" using read_chunk_line [of s l r] by auto
    then have sx: "s = x @ newline # r" using read_chunk_append [OF s] by simp
    let ?c = "\<lparr>nline = nline c + 1, nword = nword c + length (Fields l), nrune = nrune c + RuneCount l,
               nbadr = nbadr c + invalidCount l, nchar = nchar c + length l\<rparr>"
    have "count_loop s EOF c = count_loop r EOF ?c" using s False by (subst count_loop.simps) simp
    also have "\<dots> = cnt_add ?c (whole_count r)" using 1 s False by simp
    also have "\<dots> = cnt_add c (whole_count s)"
      unfolding sx whole_count_line [OF x(2), of r] by (simp add: cnt_add_def x(1))
    finally show ?thesis .
  qed
qed

text \<open>
  C21. wc counts line by line what the whole text has: the newlines, the words, the runes, the bytes that are
  no valid UTF-8, and the bytes; after a read error it reports zeros.
\<close>

theorem wc_counts_text:
  "wc_count s err =
     (if err = EOF
      then \<lparr>nline = count_list s newline, nword = length (Fields s), nrune = RuneCount s,
            nbadr = length (filter bad_rune (runes s)), nchar = length s\<rparr>
      else cnt_zero)"
proof (cases "err = EOF")
  case True
  then show ?thesis
    using count_loop_whole [of s cnt_zero]
    by (simp add: wc_count_def cnt_add_def cnt_zero_def whole_count_def invalidCount_runes)
next
  case False
  then have "count_loop s err c = cnt_zero" for c
  proof (induction s err c rule: count_loop.induct)
    case (1 s err c)
    then show ?case by (subst count_loop.simps) (auto split: prod.split)
  qed
  with False show ?thesis by (simp add: wc_count_def)
qed

end
