(* ===== verification/Uniq.thy ===== *)
theory Uniq
  imports Go_Flag
begin

text \<open>
  \<^verbatim>\<open>src/cmds/uniq/uniq.go\<close>: one line for each group of equal adjacent lines. The loop reads one line
  ahead; \<open>oline\<close> is the line of the current group and \<open>cnt\<close> the number of its lines.
\<close>

record uniq_flags =
  uniques :: bool
  duplicates :: bool
  uniq_count :: bool

text \<open>What is printed for a group when the next one starts.\<close>

definition print_group :: "uniq_flags \<Rightarrow> nat \<Rightarrow> bytes \<Rightarrow> bytes" where
  "print_group f n line =
     (if uniq_count f then format_nat 10 n @ [tab] @ line
      else if n > 1 \<and> uniques f then []
      else if n = 1 \<and> duplicates f then []
      else line)"

text \<open>What is printed after the loop: the line read last, without a count.\<close>

definition print_last :: "uniq_flags \<Rightarrow> nat \<Rightarrow> bytes \<Rightarrow> bytes" where
  "print_last f n line =
     (if n > 1 \<and> uniques f then []
      else if n = 1 \<and> duplicates f then []
      else line)"

lemma read_chunk_le: "read_chunk s = (l, e, r) \<Longrightarrow> length r < length s \<or> length r = length s \<and> e"
  using read_chunk_append [of s l e r] read_chunk_less [of s l r] by (cases e) auto

function uniq_loop :: "uniq_flags \<Rightarrow> bytes \<Rightarrow> bytes option \<Rightarrow> nat \<Rightarrow> bytes" where
  "uniq_loop f s oline n =
     (case read_chunk s of (line, isLast, rest) \<Rightarrow>
        (case oline of
           None \<Rightarrow> uniq_loop f rest (Some line) n
         | Some l \<Rightarrow>
             if line \<noteq> l
             then print_group f n l @ (if isLast then print_last f 1 line else uniq_loop f rest (Some line) 1)
             else if isLast then print_last f (Suc n) line
             else uniq_loop f rest (Some l) (Suc n)))"
  by pat_completeness auto
termination
  by (relation "measures [\<lambda>(_, s, _, _). length s, \<lambda>(_, _, l, _). if l = None then 1 else 0]")
    (auto dest!: read_chunk_le [OF sym])

declare uniq_loop.simps [simp del]

definition uniq :: "uniq_flags \<Rightarrow> bytes \<Rightarrow> bytes" where
  "uniq f s = uniq_loop f s None 1"

definition uniq_formal :: "uniq_flags formal" where
  "uniq_formal = map_of
     [(''u'', bool_flag (\<lambda>b f. f\<lparr>uniques := b\<rparr>)), (''d'', bool_flag (\<lambda>b f. f\<lparr>duplicates := b\<rparr>)),
      (''c'', bool_flag (\<lambda>b f. f\<lparr>uniq_count := b\<rparr>))]"

fun uniq_files :: "(string \<Rightarrow> goerr + bytes) \<Rightarrow> uniq_flags \<Rightarrow> string list \<Rightarrow> bytes \<Rightarrow> nat \<times> bytes" where
  "uniq_files opn f [] out = (0, out)"
| "uniq_files opn f (fn # fns) out =
     (case opn fn of
        Inl e \<Rightarrow> (1, out)
      | Inr s \<Rightarrow> uniq_files opn f fns (out @ uniq f s))"

definition uniq_main :: "(string \<Rightarrow> goerr + bytes) \<Rightarrow> bytes \<Rightarrow> string list \<Rightarrow> nat \<times> bytes" where
  "uniq_main opn stdin args =
     (case Parse uniq_formal \<lparr>uniques = False, duplicates = False, uniq_count = False\<rparr> args of
        Inl e \<Rightarrow> (2, [])
      | Inr (f, fns) \<Rightarrow> if fns \<noteq> [] then uniq_files opn f fns [] else (0, uniq f stdin))"

section \<open>Groups of lines\<close>

text \<open>The groups of equal adjacent lines, with their sizes.\<close>

fun groups :: "bytes list \<Rightarrow> (nat \<times> bytes) list" where
  "groups [] = []"
| "groups (l # ls) =
     (case groups ls of
        (n, l') # gs \<Rightarrow> if l' = l then (Suc n, l) # gs else (1, l) # (n, l') # gs
      | [] \<Rightarrow> [(1, l)])"

definition terminated :: "bytes \<Rightarrow> bool" where
  "terminated l \<longleftrightarrow> l \<noteq> [] \<and> last l = newline \<and> newline \<notin> set (butlast l)"

lemma read_chunk_terminated: "terminated l \<Longrightarrow> read_chunk (l @ s) = (l, False, s)"
proof (induction l)
  case (Cons c l)
  then show ?case by (cases l) (auto simp: terminated_def split: if_splits)
qed (simp add: terminated_def)

text \<open>A group of \<open>n\<close> lines that the lines \<open>ls\<close> may still extend.\<close>

definition group_on :: "nat \<Rightarrow> bytes \<Rightarrow> bytes list \<Rightarrow> (nat \<times> bytes) list" where
  "group_on n l ls =
     (case groups ls of
        (m, l') # gs \<Rightarrow> if l' = l then (n + m, l) # gs else (n, l) # (m, l') # gs
      | [] \<Rightarrow> [(n, l)])"

lemma groups_Cons: "groups (l # ls) = group_on 1 l ls"
  by (simp add: group_on_def split: list.split)

lemma group_on_Cons: "group_on n l (l2 # ls) = (if l2 = l then group_on (Suc n) l ls else (n, l) # group_on 1 l2 ls)"
proof (cases "groups ls")
  case Nil
  then show ?thesis by (simp add: group_on_def)
next
  case (Cons g gs)
  then show ?thesis by (cases g) (simp add: group_on_def)
qed

lemma uniq_loop_groups:
  "list_all terminated ls \<Longrightarrow> l \<noteq> [] \<Longrightarrow> 0 < n \<Longrightarrow>
   uniq_loop f (concat ls) (Some l) n = concat (map (\<lambda>(n, l). print_group f n l) (group_on n l ls))"
proof (induction ls arbitrary: l n)
  case Nil
  then show ?case by (simp add: uniq_loop.simps [of f "[]"] group_on_def print_last_def)
next
  case (Cons l2 ls)
  then have "read_chunk (l2 @ concat ls) = (l2, False, concat ls)" "l2 \<noteq> []"
    by (auto simp: read_chunk_terminated terminated_def)
  with Cons show ?case
    by (simp add: uniq_loop.simps [of f "l2 @ concat ls"] group_on_Cons)
qed

lemma uniq_prints_groups:
  assumes "list_all terminated ls"
  shows "uniq f (concat ls) = concat (map (\<lambda>(n, l). print_group f n l) (groups ls))"
proof (cases ls)
  case Nil
  have "uniq f [] = []"
    by (simp add: uniq_def uniq_loop.simps [of f "[]" None] uniq_loop.simps [of f "[]" "Some []"] print_last_def)
  with Nil show ?thesis by simp
next
  case (Cons l ls')
  with assms have l: "read_chunk (l @ concat ls') = (l, False, concat ls')" "l \<noteq> []" "list_all terminated ls'"
    by (auto simp: read_chunk_terminated terminated_def)
  then have "uniq f (concat ls) = uniq_loop f (concat ls') (Some l) 1"
    by (simp add: Cons uniq_def uniq_loop.simps [of f "l @ concat ls'" None])
  also have "\<dots> = concat (map (\<lambda>(n, l). print_group f n l) (group_on 1 l ls'))"
    using l uniq_loop_groups by simp
  finally show ?thesis by (simp only: Cons groups_Cons)
qed

lemma groups_pos: "\<forall>(n, l) \<in> set (groups ls). 0 < n"
  by (induction ls) (auto split: list.splits)

lemma print_groups:
  assumes "\<forall>(n, l) \<in> set gs. 0 < n"
  shows "concat (map (\<lambda>(n, l). print_group f n l) gs) =
    (if uniq_count f then concat (map (\<lambda>(n, l). format_nat 10 n @ [tab] @ l) gs)
     else concat (map snd (filter (\<lambda>(n, l). (uniques f \<longrightarrow> n = 1) \<and> (duplicates f \<longrightarrow> n > 1)) gs)))"
  using assms by (induction gs) (auto simp: print_group_def)

text \<open>
  C22. uniq on lines that all end with a newline works on the groups of equal adjacent lines: with \<^verbatim>\<open>-c\<close> it
  prints for every group its size, a tab and the line; otherwise it prints the line of every group, but with
  \<^verbatim>\<open>-u\<close> only of the groups of one line, and with \<^verbatim>\<open>-d\<close> only of the groups of several lines.
\<close>

theorem uniq_groups:
  assumes "list_all terminated ls"
  shows "uniq f (concat ls) =
    (if uniq_count f then concat (map (\<lambda>(n, l). format_nat 10 n @ [tab] @ l) (groups ls))
     else concat (map snd (filter (\<lambda>(n, l). (uniques f \<longrightarrow> n = 1) \<and> (duplicates f \<longrightarrow> n > 1)) (groups ls))))"
  unfolding uniq_prints_groups [OF assms] by (rule print_groups) (rule groups_pos)

theorem uniq_groups_witness:
  "uniq \<lparr>uniques = False, duplicates = True, uniq_count = False\<rparr>
     (concat [[CHR ''a'', newline], [CHR ''a'', newline], [CHR ''b'', newline]]) = [CHR ''a'', newline]"
proof -
  have "list_all terminated [[CHR ''a'', newline], [CHR ''a'', newline], [CHR ''b'', newline]]"
    by (simp add: terminated_def)
  from uniq_groups [OF this, of "\<lparr>uniques = False, duplicates = True, uniq_count = False\<rparr>"] show ?thesis by simp
qed

end
