(* ===== verification/Cmp.thy ===== *)
theory Cmp
  imports Go_Flag
begin

text \<open>
  \<^verbatim>\<open>src/cmds/cmp/cmp.go\<close>: compare two files byte by byte. Each file is sent over a channel that is closed
  at its end, and a receive from a closed channel gives the zero byte; the model receives from the list of
  bytes still to come.
\<close>

record cmp_flags =
  long :: bool
  cmp_line :: bool
  silent :: bool

text \<open>
  \<^verbatim>\<open>emit\<close>: the bytes that a file sends; the flag says whether it can seek. A failed seek ends the program.
\<close>

definition emit :: "bytes \<times> bool \<Rightarrow> int \<Rightarrow> bytes option" where
  "emit f offset =
     (if offset > 0 then (if snd f then Some (drop (nat offset) (fst f)) else None) else Some (fst f))"

definition recv :: "bytes \<Rightarrow> char" where
  "recv c = (case c of [] \<Rightarrow> CHR 0x00 | b # _ \<Rightarrow> b)"

text \<open>The formats \<^verbatim>\<open>%8d\<close> and \<^verbatim>\<open>%#.2o\<close>.\<close>

definition pad8 :: "string \<Rightarrow> string" where
  "pad8 s = replicate (8 - length s) CHR '' '' @ s"

definition octal2 :: "char \<Rightarrow> string" where
  "octal2 b =
     (let d = format_nat 8 (of_char b); d = (if length d < 2 then CHR ''0'' # d else d)
      in if hd d = CHR ''0'' then d else CHR ''0'' # d)"

definition differ :: "string \<Rightarrow> string \<Rightarrow> nat \<Rightarrow> string" where
  "differ n1 n2 charno = n1 @ '' '' @ n2 @ '' differ: char '' @ format_nat 10 charno"

text \<open>The comparing loop of \<^verbatim>\<open>main\<close>: exit status and error output.\<close>

function cmp_loop :: "cmp_flags \<Rightarrow> string \<Rightarrow> string \<Rightarrow> bytes \<Rightarrow> bytes \<Rightarrow> nat \<Rightarrow> nat \<Rightarrow> string \<Rightarrow> nat \<times> string" where
  "cmp_loop f n1 n2 c0 c1 charno lineno err =
     (let b1 = recv c0; b2 = recv c1;
          skip = (\<lambda>err.
            if b1 = CHR 0x00 \<and> b2 = CHR 0x00 then (0, err)
            else cmp_loop f n1 n2 (tl c0) (tl c1) (Suc charno) (if b1 = newline then Suc lineno else lineno) err)
      in if b1 \<noteq> b2 then
           if silent f then (1, err)
           else if cmp_line f then (1, err @ differ n1 n2 charno @ '' line '' @ format_nat 10 lineno @ [newline])
           else if long f then
             if b1 = CHR 0x00 then (1, err @ ''EOF on '' @ n1 @ [newline])
             else if b2 = CHR 0x00 then (1, err @ ''EOF on '' @ n2 @ [newline])
             else skip (err @ pad8 (format_nat 10 charno) @ '' '' @ octal2 b1 @ '' '' @ octal2 b2 @ [newline])
           else (1, err @ differ n1 n2 charno @ [newline])
         else skip err)"
  by pat_completeness auto
termination
  by (relation "measure (\<lambda>(_, _, _, c0, c1, _, _, _). length c0 + length c1)")
    (auto simp: recv_def split: list.splits)

declare cmp_loop.simps [simp del]

text \<open>
  \<^verbatim>\<open>main\<close> after \<^verbatim>\<open>flag.Parse\<close>. \<open>opn\<close> opens a name; \<open>-\<close> is standard input. A malformed offset ends the
  program with status 0.
\<close>

definition openFile :: "(string \<Rightarrow> goerr + (bytes \<times> bool)) \<Rightarrow> bytes \<times> bool \<Rightarrow> string \<Rightarrow> goerr + (bytes \<times> bool)" where
  "openFile opn stdin name = (if name = ''-'' then Inr stdin else opn name)"

definition cmp_offsets :: "string list \<Rightarrow> (string option, int \<times> int) sum" where
  "cmp_offsets fnames =
     (case fnames of
        [_, _] \<Rightarrow> Inr (0, 0)
      | [_, _, x] \<Rightarrow> (case ParseInt0 x of Inl e \<Rightarrow> Inl (Some ''bad offset1'') | Inr i \<Rightarrow> Inr (i, 0))
      | [_, _, x, y] \<Rightarrow>
          (case ParseInt0 x of
             Inl e \<Rightarrow> Inl (Some ''bad offset1'')
           | Inr i \<Rightarrow> (case ParseInt0 y of Inl e \<Rightarrow> Inl (Some ''bad offset2'') | Inr j \<Rightarrow> Inr (i, j)))
      | _ \<Rightarrow> Inl None)"

definition cmp_main ::
    "(string \<Rightarrow> goerr + (bytes \<times> bool)) \<Rightarrow> bytes \<times> bool \<Rightarrow> cmp_flags \<Rightarrow> string list \<Rightarrow> nat \<times> string" where
  "cmp_main opn stdin f fnames =
     (case cmp_offsets fnames of
        Inl (Some m) \<Rightarrow> (0, m)
      | Inl None \<Rightarrow> (1, ''expected two filenames (and one to two optional offsets)'')
      | Inr (o0, o1) \<Rightarrow>
          (case openFile opn stdin (fnames ! 0) of
             Inl e \<Rightarrow> (1, ''Failed to open'')
           | Inr f0 \<Rightarrow>
               (case openFile opn stdin (fnames ! 1) of
                  Inl e \<Rightarrow> (1, ''Failed to open'')
                | Inr f1 \<Rightarrow>
                    (case (emit f0 o0, emit f1 o1) of
                       (Some c0, Some c1) \<Rightarrow> cmp_loop f (fnames ! 0) (fnames ! 1) c0 c1 1 1 []
                     | _ \<Rightarrow> (1, ''seek'')))))"

section \<open>The exit status\<close>

definition before_nul :: "bytes \<Rightarrow> bytes" where
  "before_nul s = takeWhile (\<lambda>c. c \<noteq> CHR 0x00) s"

lemma before_nul_step:
  "before_nul s = (if recv s = CHR 0x00 then [] else recv s # before_nul (tl s))"
  by (cases s) (simp_all add: before_nul_def recv_def)

lemma cmp_loop_status:
  "\<not> long f \<Longrightarrow> fst (cmp_loop f n1 n2 c0 c1 charno lineno err) = (if before_nul c0 = before_nul c1 then 0 else 1)"
proof (induction f n1 n2 c0 c1 charno lineno err rule: cmp_loop.induct)
  case (1 f n1 n2 c0 c1 charno lineno err)
  show ?case
  proof (cases "recv c0 = recv c1")
    case False
    then have "before_nul c0 \<noteq> before_nul c1"
      by (subst before_nul_step [of c0], subst before_nul_step [of c1]) auto
    with False "1.prems" show ?thesis by (subst cmp_loop.simps) (simp add: Let_def)
  next
    case True
    then have "before_nul c0 = before_nul c1 \<longleftrightarrow>
        recv c0 = CHR 0x00 \<or> before_nul (tl c0) = before_nul (tl c1)"
      by (subst before_nul_step [of c0], subst before_nul_step [of c1]) auto
    with True 1 show ?thesis by (subst cmp_loop.simps) (simp add: Let_def)
  qed
qed

text \<open>
  C23. Without the flag \<^verbatim>\<open>-l\<close>, cmp of two files that can be opened exits with status 0 if and only if the files
  agree up to their first zero byte: a zero byte is taken for the end of a file, so what stands behind it is
  never compared.
\<close>

theorem cmp_status:
  assumes "opn a = Inr f0" and "opn b = Inr f1" and "a \<noteq> ''-''" and "b \<noteq> ''-''" and "\<not> long f"
  shows "fst (cmp_main opn stdin f [a, b]) = (if before_nul (fst f0) = before_nul (fst f1) then 0 else 1)"
  using assms cmp_loop_status by (simp add: cmp_main_def cmp_offsets_def openFile_def emit_def)

theorem cmp_status_witness:
  "fst (cmp_main (\<lambda>n. if n = ''a'' then Inr ([CHR ''x'', CHR 0x00, CHR ''y''], True) else Inr (''x'', True)) ([], False)
     \<lparr>long = False, cmp_line = False, silent = False\<rparr> [''a'', ''b'']) = 0"
  using cmp_status [of "\<lambda>n. if n = ''a'' then Inr ([CHR ''x'', CHR 0x00, CHR ''y''], True) else Inr (''x'', True)"
      "''a''" "([CHR ''x'', CHR 0x00, CHR ''y''], True)" "''b''" "(''x'', True)"
      "\<lparr>long = False, cmp_line = False, silent = False\<rparr>" "([], False)"]
  by (simp add: before_nul_def)

end
