(* ===== verification/Comm.thy ===== *)
theory Comm
  imports Go_Flag "HOL-Library.Multiset" "HOL-Library.List_Lexorder" "HOL-Library.Char_ord"
begin

text \<open>
  \<^verbatim>\<open>src/cmds/comm/comm.go\<close>: the lines that two sorted files have in common. The goroutines \<^verbatim>\<open>reader\<close> and
  \<^verbatim>\<open>outer\<close> each own the ends of their channels, so what they send is a function of what they receive. Go
  compares strings byte by byte, which is the lexicographic order of lists of characters.
\<close>

definition reader :: "bytes \<Rightarrow> string list" where
  "reader f = map (\<lambda>s. trim_right s {CHR 0x0D, newline}) (read_all_chunks f)"

record out =
  o_s1 :: string
  o_s2 :: string
  o_s3 :: string

fun outer :: "string list \<Rightarrow> string list \<Rightarrow> out list" where
  "outer (s1 # c1) (s2 # c2) =
     (if s1 < s2 then \<lparr>o_s1 = s1, o_s2 = '''', o_s3 = ''''\<rparr> # outer c1 (s2 # c2)
      else if s1 > s2 then \<lparr>o_s1 = '''', o_s2 = s2, o_s3 = ''''\<rparr> # outer (s1 # c1) c2
      else \<lparr>o_s1 = '''', o_s2 = '''', o_s3 = s2\<rparr> # outer c1 c2)"
| "outer (s1 # c1) [] = \<lparr>o_s1 = s1, o_s2 = '''', o_s3 = ''''\<rparr> # outer c1 []"
| "outer [] (s2 # c2) = \<lparr>o_s1 = '''', o_s2 = s2, o_s3 = ''''\<rparr> # outer [] c2"
| "outer [] [] = []"

record comm_flags =
  supp1 :: bool
  supp2 :: bool
  supp3 :: bool
  comm_help :: bool

definition comm_line :: "comm_flags \<Rightarrow> out \<Rightarrow> string" where
  "comm_line f out =
     (let line = (if supp1 f then '''' else o_s1 out) @ [tab] @ (if supp2 f then '''' else o_s2 out) @ [tab] @
                 (if supp3 f then '''' else o_s3 out)
      in if line \<noteq> [tab, tab] then trim_right line {tab} @ [newline] else '''')"

definition comm_formal :: "comm_flags formal" where
  "comm_formal = map_of
     [(''1'', bool_flag (\<lambda>b f. f\<lparr>supp1 := b\<rparr>)), (''2'', bool_flag (\<lambda>b f. f\<lparr>supp2 := b\<rparr>)),
      (''3'', bool_flag (\<lambda>b f. f\<lparr>supp3 := b\<rparr>)), (''h'', bool_flag (\<lambda>b f. f\<lparr>comm_help := b\<rparr>))]"

text \<open>\<^verbatim>\<open>main\<close>: exit status and standard output.\<close>

definition comm_main :: "(string \<Rightarrow> goerr + bytes) \<Rightarrow> string list \<Rightarrow> nat \<times> string" where
  "comm_main opn args =
     (case Parse comm_formal \<lparr>supp1 = False, supp2 = False, supp3 = False, comm_help = False\<rparr> args of
        Inl e \<Rightarrow> (2, '''')
      | Inr (f, files) \<Rightarrow>
          if length files \<noteq> 2 \<or> comm_help f then (1, '''')
          else (case opn (files ! 0) of
                  Inl e \<Rightarrow> (1, '''')
                | Inr f1 \<Rightarrow>
                    (case opn (files ! 1) of
                       Inl e \<Rightarrow> (1, '''')
                     | Inr f2 \<Rightarrow> (0, concat (map (comm_line f) (outer (reader f1) (reader f2)))))))"

section \<open>The columns\<close>

lemma read_chunk_newline: "newline \<notin> set l \<Longrightarrow> read_chunk (l @ newline # r) = (l @ [newline], False, r)"
  by (induction l) auto

lemma read_chunk_last: "newline \<notin> set s \<Longrightarrow> read_chunk s = (s, True, [])"
  by (induction s) auto

lemma trim_no_newline: "newline \<notin> set l \<Longrightarrow> trim_right l {CHR 0x0D, newline} = trim_right l {CHR 0x0D}"
  unfolding trim_right_def by (intro arg_cong [of _ _ rev] dropWhile_cong) auto

text \<open>The lines that \<^verbatim>\<open>reader\<close> sends: the texts between the newlines, without carriage returns at the end.\<close>

lemma reader_split: "reader f = map (\<lambda>l. trim_right l {CHR 0x0D}) (split_on newline f)"
proof (induction "length f" arbitrary: f rule: less_induct)
  case less
  show ?case
  proof (cases "newline \<in> set f")
    case True
    then obtain l r where f: "f = l @ newline # r" "newline \<notin> set l" using split_list_first by metis
    have "trim_right (l @ [newline]) {CHR 0x0D, newline} = trim_right l {CHR 0x0D}"
      using trim_no_newline [OF f(2)] by (simp add: trim_right_def)
    with less [of r] f show ?thesis
      by (simp add: reader_def read_all_chunks.simps [of "l @ newline # r"] read_chunk_newline split_append_sep)
  next
    case False
    then show ?thesis
      by (simp add: reader_def read_all_chunks.simps [of f] read_chunk_last split_no_sep trim_no_newline)
  qed
qed

text \<open>The lines of a text that are not empty.\<close>

definition text_lines :: "bytes \<Rightarrow> string list" where
  "text_lines f = filter (\<lambda>l. l \<noteq> []) (map (\<lambda>l. trim_right l {CHR 0x0D}) (split_on newline f))"

text \<open>The texts of a column that are not empty.\<close>

definition column :: "(out \<Rightarrow> string) \<Rightarrow> out list \<Rightarrow> string multiset" where
  "column c outs = mset (filter (\<lambda>s. s \<noteq> []) (map c outs))"

lemma column_simps [simp]:
  "column c [] = {#}"
  "column c (x # outs) = (if c x = [] then column c outs else add_mset (c x) (column c outs))"
  by (simp_all add: column_def)

lemma not_below: "sorted (y # ys) \<Longrightarrow> x < y \<Longrightarrow> x \<notin># mset (y # ys)" for x y :: "'a :: linorder"
  by (auto simp: not_less)

lemma add_columns:
  "x \<notin># B \<Longrightarrow> add_mset x A - B = add_mset x (A - B)" "x \<notin># B \<Longrightarrow> B - add_mset x A = B - A"
  "x \<notin># B \<Longrightarrow> add_mset x A \<inter># B = A \<inter># B" "x \<notin># B \<Longrightarrow> B \<inter># add_mset x A = B \<inter># A"
  by (simp_all add: diff_add_mset_swap minus_add_mset_if_not_in_lhs inter_add_left1 inter_add_right1)

lemma outer_columns:
  fixes xs ys
  defines "A \<equiv> mset (filter (\<lambda>l. l \<noteq> []) xs)" and "B \<equiv> mset (filter (\<lambda>l. l \<noteq> []) ys)"
  assumes "sorted (filter (\<lambda>l. l \<noteq> []) xs)" and "sorted (filter (\<lambda>l. l \<noteq> []) ys)"
  shows "column o_s1 (outer xs ys) = A - B \<and> column o_s2 (outer xs ys) = B - A \<and> column o_s3 (outer xs ys) = A \<inter># B"
  using assms(3,4) unfolding A_def B_def
proof (induction xs ys rule: outer.induct)
  case (1 s1 c1 s2 c2)
  let ?c1 = "filter (\<lambda>l. l \<noteq> []) c1" and ?c2 = "filter (\<lambda>l. l \<noteq> []) c2"
  consider "s1 < s2" | "s2 < s1" | "s1 = s2" by fastforce
  then show ?case
  proof cases
    case l: 1
    then have s2: "s2 \<noteq> []" by auto
    show ?thesis
    proof (cases "s1 = []")
      case False
      have "s1 \<notin># mset (s2 # ?c2)" using 1(5) s2 l by (intro not_below) simp_all
      with False s2 l 1(1) 1(4,5) show ?thesis by (simp add: add_columns)
    qed (use l s2 1(1) 1(4,5) in simp)
  next
    case g: 2
    then have s1: "s1 \<noteq> []" and g1: "\<not> s1 < s2" by auto
    show ?thesis
    proof (cases "s2 = []")
      case False
      have "s2 \<notin># mset (s1 # ?c1)" using 1(4) s1 g by (intro not_below) simp_all
      with False s1 g g1 1(2) 1(4,5) show ?thesis by (simp add: add_columns)
    qed (use g g1 s1 1(2) 1(4,5) in simp)
  next
    case 3
    with 1(3) 1(4,5) show ?thesis by (simp split: if_splits)
  qed
qed (simp_all split: if_splits)

text \<open>
  C20. comm of two files whose non-empty lines are sorted, whatever empty lines they contain and whether or not their
  last line ends with a newline: of the lines that are not empty, taken without carriage returns at their end, the first
  column has those that only the first file has, the second those that only the second has, the third the common ones,
  each as often as it occurs. Empty lines appear in no column.
\<close>

theorem comm_columns:
  assumes "sorted (text_lines f1)" and "sorted (text_lines f2)"
  shows "column o_s1 (outer (reader f1) (reader f2)) = mset (text_lines f1) - mset (text_lines f2) \<and>
    column o_s2 (outer (reader f1) (reader f2)) = mset (text_lines f2) - mset (text_lines f1) \<and>
    column o_s3 (outer (reader f1) (reader f2)) = mset (text_lines f1) \<inter># mset (text_lines f2)"
  using outer_columns [of "reader f1" "reader f2"] assms by (simp only: reader_split text_lines_def)

theorem comm_columns_witness:
  "column o_s1 (outer (reader [newline, CHR ''a'', newline, CHR ''b'', newline]) (reader [CHR ''b'', newline, newline, CHR ''c''])) = {#''a''#} \<and>
   column o_s3 (outer (reader [newline, CHR ''a'', newline, CHR ''b'', newline]) (reader [CHR ''b'', newline, newline, CHR ''c''])) = {#''b''#}"
proof -
  have lines: "text_lines [newline, CHR ''a'', newline, CHR ''b'', newline] = [''a'', ''b'']"
    "text_lines [CHR ''b'', newline, newline, CHR ''c''] = [''b'', ''c'']"
    by (simp_all add: text_lines_def trim_right_def)
  have "sorted (text_lines [newline, CHR ''a'', newline, CHR ''b'', newline])"
    "sorted (text_lines [CHR ''b'', newline, newline, CHR ''c''])"
    unfolding lines by (simp_all add: less_eq_char_def)
  from comm_columns [OF this] show ?thesis unfolding lines by (simp add: inter_mset_def)
qed

end
