(* ===== verification/Field.thy ===== *)
theory Field
  imports Go_Flag
begin

text \<open>
  \<^verbatim>\<open>src/cmds/field/field.go\<close>: print selected fields of every line. The lexer and the parser of the field
  list, and the selection of fields. A call of \<^verbatim>\<open>fatal\<close> ends the program; it is the value \<open>Inl\<close> of its
  message. Runes are their UTF-8 bytes; decimal digits outside ASCII are the parameter \<open>uni\<close>.
\<close>

section \<open>The lexer\<close>

datatype toktype = tokError | tokEOF | tokComma | tokPipe | tokDash | tokNum | tokSpace | tokNF

record lexer =
  lx_input :: string
  lx_tok :: string
  lx_typ :: toktype
  lx_start :: nat
  lx_pos :: nat
  lx_width :: nat

text \<open>\<^verbatim>\<open>nextrune\<close>: \<open>None\<close> is the end of the input.\<close>

definition nextrune :: "lexer \<Rightarrow> bytes option \<times> lexer" where
  "nextrune lx =
     (if lx_pos lx \<ge> length (lx_input lx) then (None, lx\<lparr>lx_width := 0\<rparr>)
      else
        let s = drop (lx_pos lx) (lx_input lx)
        in (Some (take (rune_size s) s), lx\<lparr>lx_width := rune_size s\<rparr>))"

definition lex_consume :: "lexer \<Rightarrow> lexer" where
  "lex_consume lx = lx\<lparr>lx_pos := lx_pos lx + lx_width lx, lx_width := 0\<rparr>"

definition lex_ignore :: "lexer \<Rightarrow> lexer" where
  "lex_ignore lx = lx\<lparr>lx_width := 0\<rparr>"

definition lex_token :: "lexer \<Rightarrow> string \<times> lexer" where
  "lex_token lx =
     (let lx = lex_consume lx
      in (take (lx_pos lx - lx_start lx) (drop (lx_start lx) (lx_input lx)), lx\<lparr>lx_start := lx_pos lx\<rparr>))"

text \<open>\<^verbatim>\<open>unicode.IsDigit\<close>.\<close>

definition IsDigit :: "(bytes \<Rightarrow> bool) \<Rightarrow> bytes \<Rightarrow> bool" where
  "IsDigit uni r \<longleftrightarrow> (if length r = 1 then is_digit (hd r) else uni r)"

text \<open>The loop that consumes runes as long as \<open>p\<close> holds.\<close>

lemma nextrune_shorter:
  "nextrune lx = (Some r, lx') \<Longrightarrow>
   length (lx_input (lex_consume lx')) - lx_pos (lex_consume lx') < length (lx_input lx) - lx_pos lx"
  by (auto simp: nextrune_def lex_consume_def Let_def rune_size_pos split: if_splits intro!: diff_less_mono2)

function consume_while :: "(bytes \<Rightarrow> bool) \<Rightarrow> lexer \<Rightarrow> lexer" where
  "consume_while p lx =
     (case nextrune lx of
        (Some r, lx') \<Rightarrow> if p r then consume_while p (lex_consume lx') else lx'
      | (None, lx') \<Rightarrow> lx')"
  by pat_completeness auto
termination
  by (relation "measure (\<lambda>(_, lx). length (lx_input lx) - lx_pos lx)") (auto dest: nextrune_shorter [OF sym])

declare consume_while.simps [simp del]

definition finish_token :: "toktype \<Rightarrow> lexer \<Rightarrow> string + ((string \<times> toktype) \<times> lexer)" where
  "finish_token typ lx = (case lex_token lx of (tok, lx') \<Rightarrow> Inr ((tok, typ), lx'))"

definition lex_scan :: "(bytes \<Rightarrow> bool) \<Rightarrow> lexer \<Rightarrow> string + ((string \<times> toktype) \<times> lexer)" where
  "lex_scan uni lx =
     (case nextrune lx of
        (None, lx) \<Rightarrow> Inr (('''', tokEOF), lx)
      | (Some r, lx) \<Rightarrow>
          if r = '','' then finish_token tokComma lx
          else if r = ''|'' then finish_token tokPipe lx
          else if r = ''-'' then finish_token tokDash lx
          else if r = ''N'' then
            (let lx = lex_consume lx
             in case nextrune lx of (r, lx) \<Rightarrow>
                  finish_token tokNF (lex_ignore (if r = Some ''F'' then lex_consume lx else lx)))
          else if IsDigit uni r then finish_token tokNum (lex_ignore (consume_while (IsDigit uni) lx))
          else if IsSpace r then finish_token tokSpace (lex_ignore (consume_while IsSpace lx))
          else Inl ''Lexical error at character'')"

definition lex_next :: "(bytes \<Rightarrow> bool) \<Rightarrow> lexer \<Rightarrow> string + ((string \<times> toktype) \<times> lexer)" where
  "lex_next uni lx =
     (case lex_scan uni lx of
        Inl e \<Rightarrow> Inl e
      | Inr ((tok, typ), lx') \<Rightarrow> Inr ((lx_tok lx, lx_typ lx), lx'\<lparr>lx_tok := tok, lx_typ := typ\<rparr>))"

section \<open>The parser\<close>

definition lastField :: int where
  "lastField = 0x7FFFFFFF"

record frange =
  fr_begin :: int
  fr_end :: int

definition isdelim :: "toktype \<Rightarrow> bool" where
  "isdelim typ \<longleftrightarrow> typ = tokComma \<or> typ = tokPipe \<or> typ = tokSpace"

text \<open>The value of \<^verbatim>\<open>num, _ := strconv.Atoi(tok)\<close>, the error dropped.\<close>

definition Atoi_value :: "string \<Rightarrow> int" where
  "Atoi_value s =
     (case Atoi s of
        Inr i \<Rightarrow> i
      | Inl e \<Rightarrow> if e = ErrRange then (if fst (parse_sign s) then - (2 ^ 63) else 2 ^ 63 - 1) else 0)"

definition parsenum :: "(bytes \<Rightarrow> bool) \<Rightarrow> lexer \<Rightarrow> string + (int \<times> lexer)" where
  "parsenum uni lx =
     (case lex_next uni lx of
        Inl e \<Rightarrow> Inl e
      | Inr ((tok, typ), lx) \<Rightarrow>
          if typ = tokEOF then Inl ''EOF in number parser''
          else if typ = tokNum then Inr (Atoi_value tok, lx)
          else if typ \<noteq> tokDash then Inl ''number parser error: unexpected token''
          else (case lex_next uni lx of
                  Inl e \<Rightarrow> Inl e
                | Inr ((tok, typ), lx) \<Rightarrow>
                    if typ = tokEOF then Inl ''negative number parse error: unexpected EOF''
                    else if typ \<noteq> tokNum then Inl ''number parser error: bad lexical token''
                    else Inr (wrap64 (- Atoi_value tok), lx)))"

definition parsefield :: "(bytes \<Rightarrow> bool) \<Rightarrow> lexer \<Rightarrow> string + ((int \<times> toktype) \<times> lexer)" where
  "parsefield uni lx =
     (if lx_typ lx = tokNF
      then (case lex_next uni lx of Inl e \<Rightarrow> Inl e | Inr (_, lx) \<Rightarrow> Inr ((lastField, tokNF), lx))
      else (case parsenum uni lx of Inl e \<Rightarrow> Inl e | Inr (n, lx) \<Rightarrow> Inr ((n, tokNum), lx)))"

definition parserange :: "(bytes \<Rightarrow> bool) \<Rightarrow> lexer \<Rightarrow> string + (frange \<times> lexer)" where
  "parserange uni lx =
     (if lx_typ lx = tokEOF then Inl ''EOF at start of range''
      else (case parsefield uni lx of
              Inl e \<Rightarrow> Inl e
            | Inr ((fnum, typ), lx) \<Rightarrow>
                if typ = tokNF \<or> lx_typ lx \<noteq> tokDash then Inr (\<lparr>fr_begin = fnum, fr_end = fnum\<rparr>, lx)
                else (case lex_next uni lx of
                        Inl e \<Rightarrow> Inl e
                      | Inr (_, lx) \<Rightarrow>
                          if lx_typ lx \<noteq> tokEOF \<and> \<not> isdelim (lx_typ lx)
                          then (case parsefield uni lx of
                                  Inl e \<Rightarrow> Inl e
                                | Inr ((n, _), lx) \<Rightarrow> Inr (\<lparr>fr_begin = fnum, fr_end = n\<rparr>, lx))
                          else Inr (\<lparr>fr_begin = fnum, fr_end = lastField\<rparr>, lx))))"

text \<open>
  The loop of \<^verbatim>\<open>parseranges\<close>. Every round consumes a token, so as many rounds as there are bytes, and one more,
  are enough; the bound is the first argument.
\<close>

fun ranges_loop :: "nat \<Rightarrow> (bytes \<Rightarrow> bool) \<Rightarrow> lexer \<Rightarrow> frange list \<Rightarrow> (string + frange list) option" where
  "ranges_loop 0 uni lx rs = None"
| "ranges_loop (Suc k) uni lx rs =
     (case (if lx_typ lx = tokSpace then lex_next uni lx else Inr (('''', tokError), lx)) of
        Inl e \<Rightarrow> Some (Inl e)
      | Inr (_, lx) \<Rightarrow>
          (case parserange uni lx of
             Inl e \<Rightarrow> Some (Inl e)
           | Inr (r, lx) \<Rightarrow>
               if lx_typ lx = tokEOF then Some (Inr (rs @ [r]))
               else if \<not> isdelim (lx_typ lx) then Some (Inl ''Syntax error in field list'')
               else (case lex_next uni lx of
                       Inl e \<Rightarrow> Some (Inl e)
                     | Inr (_, lx) \<Rightarrow> ranges_loop k uni lx (rs @ [r]))))"

definition parseranges :: "(bytes \<Rightarrow> bool) \<Rightarrow> string \<Rightarrow> (string + frange list) option" where
  "parseranges uni input =
     (if input = [] then Some (Inl ''Empty field range'')
      else (case lex_next uni \<lparr>lx_input = input, lx_tok = '''', lx_typ = tokError, lx_start = 0, lx_pos = 0, lx_width = 0\<rparr> of
              Inl e \<Rightarrow> Some (Inl e)
            | Inr (_, lx) \<Rightarrow> ranges_loop (Suc (length input)) uni lx []))"

section \<open>Selecting fields\<close>

record field_flags =
  nuloutsep :: bool
  preserveEmpty :: bool
  discardEmpty :: bool
  insep :: string
  outsep :: string
  visited :: "string set"

definition shouldcollapse :: "field_flags \<Rightarrow> string \<Rightarrow> bool" where
  "shouldcollapse f s =
     (if preserveEmpty f then False
      else if discardEmpty f then True
      else
        let l = length (runes s)
        in l > 1 \<and> (l \<noteq> 2 \<or> hd (runes s) \<noteq> [CHR 0x5C]))"

definition field_split :: "bytes \<Rightarrow> (bytes \<Rightarrow> bytes list) \<Rightarrow> bool \<Rightarrow> bytes list" where
  "field_split s delim collapse = (if collapse then filter (\<lambda>s. s \<noteq> []) (delim s) else delim s)"

definition pprefix :: "field_flags \<Rightarrow> string \<Rightarrow> string" where
  "pprefix f prefix = (if prefix = [] then [] else if nuloutsep f then [CHR 0x00] else prefix)"

text \<open>The printing loop over the fields; the state is the prefix, whether anything was printed, and the output.\<close>

type_synonym printer = "string \<times> bool \<times> string"

definition print_item :: "field_flags \<Rightarrow> string \<Rightarrow> printer \<Rightarrow> printer" where
  "print_item f x st = (case st of (prefix, _, out) \<Rightarrow> (outsep f, True, out @ pprefix f prefix @ x))"

fun print_fields :: "field_flags \<Rightarrow> bytes list \<Rightarrow> nat \<Rightarrow> nat \<Rightarrow> printer \<Rightarrow> printer" where
  "print_fields f fs i 0 st = st"
| "print_fields f fs i (Suc k) st =
     (if i < length fs then print_fields f fs (Suc i) k (print_item f (fs ! i) st) else st)"

definition print_range :: "field_flags \<Rightarrow> bytes \<Rightarrow> bytes list \<Rightarrow> frange \<Rightarrow> printer \<Rightarrow> printer" where
  "print_range f line fs r st =
     (let n = int (length fs);
          st = (if fr_begin r = 0 then print_item f line st else st);
          b = (if fr_begin r = 0 then 0
               else if fr_begin r = lastField then n - 1
               else if fr_begin r < 0 then fr_begin r + n
               else fr_begin r - 1);
          e = (if fr_end r < 0 then fr_end r + n + 1 else fr_end r)
      in if b < 0 \<or> e < 0 \<or> e < b \<or> n < b then st
         else print_fields f fs (nat b) (nat (e - b)) st)"

definition process_line :: "field_flags \<Rightarrow> frange list \<Rightarrow> (bytes \<Rightarrow> bytes list) \<Rightarrow> bool \<Rightarrow> bytes \<Rightarrow> string" where
  "process_line f rv delim collapse line =
     (case fold (print_range f line (field_split line delim collapse)) rv ([], False, []) of (_, printed, out) \<Rightarrow>
        if printed \<or> \<not> collapse then out @ [newline] else out)"

definition process :: "field_flags \<Rightarrow> bytes \<Rightarrow> frange list \<Rightarrow> (bytes \<Rightarrow> bytes list) \<Rightarrow> bool \<Rightarrow> string" where
  "process f file rv delim collapse = concat (map (process_line f rv delim collapse) (fst (scanner_lines file)))"

section \<open>The command\<close>

definition field_formal :: "field_flags formal" where
  "field_formal = map_of
     [(''0'', bool_flag (\<lambda>b f. f\<lparr>nuloutsep := b, visited := insert ''0'' (visited f)\<rparr>)),
      (''e'', bool_flag (\<lambda>b f. f\<lparr>preserveEmpty := b, visited := insert ''e'' (visited f)\<rparr>)),
      (''E'', bool_flag (\<lambda>b f. f\<lparr>discardEmpty := b, visited := insert ''E'' (visited f)\<rparr>)),
      (''F'', string_flag (\<lambda>v f. f\<lparr>insep := v, visited := insert ''F'' (visited f)\<rparr>)),
      (''O'', string_flag (\<lambda>v f. f\<lparr>outsep := v, visited := insert ''O'' (visited f)\<rparr>))]"

definition field_defaults :: field_flags where
  "field_defaults =
     \<lparr>nuloutsep = False, preserveEmpty = False, discardEmpty = False,
      insep = [CHR ''['', CHR '' '', tab, CHR 0x0B, CHR 0x0D, CHR '']'', CHR ''+''], outsep = '' '', visited = {}\<rparr>"

fun field_files ::
    "(string \<Rightarrow> goerr + bytes) \<Rightarrow> bytes \<Rightarrow> (bytes \<Rightarrow> string) \<Rightarrow> string list \<Rightarrow> string" where
  "field_files opn stdin proc [] = []"
| "field_files opn stdin proc (n # ns) =
     (if n = ''-'' then proc stdin @ field_files opn (scanner_rest stdin) proc ns
      else (case opn n of Inl e \<Rightarrow> field_files opn stdin proc ns | Inr s \<Rightarrow> proc s @ field_files opn stdin proc ns))"

text \<open>
  \<^verbatim>\<open>main\<close>: exit status and standard output; \<open>re\<close> compiles a regular expression to the function that splits a
  text at its matches. A second use of standard input reads what the first has left.
\<close>

definition field_main ::
    "(bytes \<Rightarrow> bool) \<Rightarrow> (string \<Rightarrow> goerr + (bytes \<Rightarrow> bytes list)) \<Rightarrow> (string \<Rightarrow> goerr + bytes) \<Rightarrow> bytes \<Rightarrow>
     string list \<Rightarrow> (nat \<times> string) option" where
  "field_main uni re opn stdin args =
     (case Parse field_formal field_defaults args of
        Inl e \<Rightarrow> Some (2, [])
      | Inr (f, rest) \<Rightarrow>
          if {''e'', ''E''} \<subseteq> visited f \<or> {''0'', ''O''} \<subseteq> visited f then Some (1, [])
          else (case re (insep f) of
                  Inl e \<Rightarrow> Some (1, [])
                | Inr delim \<Rightarrow>
                    (case rest of
                       [] \<Rightarrow> Some (1, [])
                     | a # files \<Rightarrow>
                         (case parseranges uni a of
                            None \<Rightarrow> None
                          | Some (Inl e) \<Rightarrow> Some (1, [])
                          | Some (Inr rv) \<Rightarrow>
                              let proc = (\<lambda>s. process f s rv delim (shouldcollapse f (insep f)))
                              in if files = [] then Some (0, proc stdin)
                                 else Some (0, field_files opn stdin proc files)))))"

section \<open>What a range selects\<close>

text \<open>
  The items of a range among the fields \<open>fs\<close> of a line, in terms of positions counted from one: field \<open>k\<close>,
  fields \<open>k\<close> to \<open>m\<close>, the \<open>k\<close>-th field from the end for \<open>-k\<close>, the last field, and the whole line for \<open>0\<close>.
\<close>

definition end_pos :: "nat \<Rightarrow> int \<Rightarrow> int" where
  "end_pos n e = (if e < 0 then e + int n + 1 else e)"

definition begin_pos :: "nat \<Rightarrow> int \<Rightarrow> int" where
  "begin_pos n b =
     (if b = lastField then int n else if b < 0 then b + int n + 1 else b)"

definition items :: "bytes \<Rightarrow> bytes list \<Rightarrow> frange \<Rightarrow> bytes list" where
  "items line fs r =
     (let b = begin_pos (length fs) (fr_begin r); e = end_pos (length fs) (fr_end r)
      in (if fr_begin r = 0 then [line] @ take (nat e) fs
          else if b < 1 then []
          else take (nat (e + 1 - b)) (drop (nat (b - 1)) fs)))"

lemma print_fields_fold:
  "print_fields f fs i k st = fold (print_item f) (take k (drop i fs)) st"
proof (induction f fs i k st rule: print_fields.induct)
  case (2 f fs i k st)
  then show ?case by (cases "i < length fs") (simp_all add: Cons_nth_drop_Suc [symmetric])
qed simp

lemma print_range_fold:
  assumes "length fs < nat lastField"
  shows "print_range f line fs r st = fold (print_item f) (items line fs r) st"
proof -
  let ?n = "int (length fs)" and ?e = "end_pos (length fs) (fr_end r)"
  show ?thesis
  proof (cases "fr_begin r = 0")
    case True
    then show ?thesis
      by (cases "?e < 0") (simp_all add: print_range_def items_def Let_def print_fields_fold end_pos_def lastField_def)
  next
    case False
    define b where "b = begin_pos (length fs) (fr_begin r)"
    have "print_range f line fs r st =
        (if b < 1 \<or> ?e < 0 \<or> ?e < b - 1 \<or> ?n < b - 1 then st else print_fields f fs (nat (b - 1)) (nat (?e - (b - 1))) st)"
      using False by (auto simp: print_range_def Let_def b_def begin_pos_def end_pos_def)
    also have "\<dots> = fold (print_item f) (items line fs r) st"
    proof (cases "b < 1")
      case True
      then show ?thesis using False by (simp add: items_def Let_def b_def)
    next
      case b: False
      then have eq: "items line fs r = take (nat (?e + 1 - b)) (drop (nat (b - 1)) fs)"
        using False by (simp add: items_def Let_def b_def)
      have "nat (?e - (b - 1)) = nat (?e + 1 - b)" by simp
      moreover have "take (nat (?e + 1 - b)) (drop (nat (b - 1)) fs) = []" if "?e < b - 1 \<or> ?n < b - 1" 
        using that by auto
      ultimately show ?thesis unfolding eq using b by (auto simp: print_fields_fold)
    qed
    finally show ?thesis .
  qed
qed

lemma fold_print_items:
  assumes "outsep f \<noteq> []" and "\<not> nuloutsep f"
  shows "fold (print_item f) xs ([], False, []) =
    (if xs = [] then ([], False, []) else (outsep f, True, join_with (outsep f) xs))"
proof -
  have more: "fold (print_item f) xs (outsep f, True, out) = (outsep f, True, out @ concat (map (\<lambda>x. outsep f @ x) xs))"
    for xs out using assms by (induction xs arbitrary: out) (simp_all add: print_item_def pprefix_def)
  have join: "join_with (outsep f) (x # xs) = x @ concat (map (\<lambda>x. outsep f @ x) xs)" for x xs
    by (induction xs arbitrary: x) simp_all
  show ?thesis
    using more join by (cases xs) (simp_all add: print_item_def pprefix_def)
qed

text \<open>
  C19. For every line, field prints the items that its ranges select, in the order of the ranges, joined by the
  output separator: fields counted from the start or from the end, ranges of them, or the whole line.
\<close>

theorem field_prints_items:
  assumes "outsep f \<noteq> []" and "\<not> nuloutsep f"
    and "length (field_split line delim collapse) < nat lastField"
  shows "process_line f rv delim collapse line =
    (let xs = concat (map (items line (field_split line delim collapse)) rv)
     in if xs = [] \<and> collapse then [] else join_with (outsep f) xs @ [newline])"
proof -
  let ?fs = "field_split line delim collapse"
  have folded: "fold (print_range f line ?fs) rv st = fold (print_item f) (concat (map (items line ?fs) rv)) st" for st
    by (induction rv arbitrary: st) (simp_all add: print_range_fold [OF assms(3)])
  define xs where "xs = concat (map (items line ?fs) rv)"
  have "fold (print_range f line ?fs) rv ([], False, []) =
      (if xs = [] then ([], False, []) else (outsep f, True, join_with (outsep f) xs))"
    unfolding xs_def by (simp only: fold_print_items [OF assms(1,2)] folded)
  then show ?thesis
    unfolding process_line_def Let_def xs_def [symmetric] by simp
qed

theorem field_prints_items_witness:
  "process_line field_defaults [\<lparr>fr_begin = 2, fr_end = 3\<rparr>, \<lparr>fr_begin = -1, fr_end = -1\<rparr>]
     (split_on CHR '' '') True ''a b c d'' = ''b c d'' @ [newline]"
proof -
  have "split_on CHR '' '' ''a b c d'' = [''a'', ''b'', ''c'', ''d'']" by code_simp
  then show ?thesis
    using field_prints_items [of field_defaults "''a b c d''" "split_on CHR '' ''" True
        "[\<lparr>fr_begin = 2, fr_end = 3\<rparr>, \<lparr>fr_begin = -1, fr_end = -1\<rparr>]"]
    by (simp add: field_defaults_def field_split_def lastField_def items_def begin_pos_def end_pos_def)
qed

section \<open>The parser ends\<close>

definition left_over :: "lexer \<Rightarrow> nat" where
  "left_over lx = length (lx_input lx) - lx_pos lx"

lemma nextrune_simps:
  "nextrune lx = (None, lx') \<Longrightarrow> left_over lx = 0 \<and> left_over lx' = 0"
  "nextrune lx = (Some r, lx') \<Longrightarrow> left_over (lex_consume lx') < left_over lx \<and> left_over lx' = left_over lx"
  using nextrune_shorter [of lx r lx']
  by (auto simp: nextrune_def left_over_def Let_def split: if_splits)

lemma left_over_upd [simp]:
  "left_over (lx\<lparr>lx_width := w\<rparr>) = left_over lx" "left_over (lx\<lparr>lx_start := k\<rparr>) = left_over lx"
  "left_over (lx\<lparr>lx_tok := t\<rparr>) = left_over lx" "left_over (lx\<lparr>lx_typ := y\<rparr>) = left_over lx"
  "left_over (lex_ignore lx) = left_over lx"
  by (simp_all add: left_over_def lex_ignore_def)

lemma left_over_consume: "left_over (lex_consume lx) \<le> left_over lx"
  by (simp add: left_over_def lex_consume_def)

lemma consume_while_left: "left_over (consume_while p lx) \<le> left_over lx"
proof (induction p lx rule: consume_while.induct)
  case (1 p lx)
  obtain r lx1 where n: "nextrune lx = (r, lx1)" by (cases "nextrune lx") auto
  show ?case
  proof (cases r)
    case None
    then show ?thesis using n nextrune_simps(1) [of lx lx1] by (simp add: consume_while.simps [of p lx])
  next
    case (Some x)
    then show ?thesis
      using n 1 [OF n [symmetric]] nextrune_simps(2) [of lx x lx1] by (auto simp: consume_while.simps [of p lx])
  qed
qed

lemma consume_while_less:
  assumes "nextrune lx = (Some r, lx1)" and "p r"
  shows "left_over (consume_while p lx1) < left_over lx"
proof -
  have "nextrune lx1 = (Some r, lx1)" using assms(1) by (auto simp: nextrune_def Let_def split: if_splits)
  then have "consume_while p lx1 = consume_while p (lex_consume lx1)"
    using assms(2) by (subst consume_while.simps) simp
  with consume_while_left [of p "lex_consume lx1"] nextrune_simps(2) [OF assms(1)] show ?thesis by simp
qed

lemma finish_left: "finish_token t lx = Inr (x, lx') \<Longrightarrow> left_over lx' = left_over (lex_consume lx) \<and> snd x = t"
  by (auto simp: finish_token_def lex_token_def Let_def)

lemma scan_progress:
  assumes "lex_scan uni lx = Inr ((tok, typ), lx')"
  shows "if left_over lx = 0 then typ = tokEOF \<and> left_over lx' = 0 else left_over lx' < left_over lx"
proof (cases "nextrune lx")
  case (Pair r lx1)
  show ?thesis
  proof (cases r)
    case None
    then show ?thesis using assms Pair nextrune_simps(1) [of lx lx1] by (auto simp: lex_scan_def)
  next
    case (Some x)
    have n: "nextrune lx = (Some x, lx1)" using Pair Some by simp
    have l: "left_over (lex_consume lx1) < left_over lx" using nextrune_simps(2) [OF n] by simp
    have N: "left_over (lex_consume (lex_ignore (lex_consume y2))) < left_over lx \<and>
        left_over (lex_consume (lex_ignore y2)) < left_over lx"
      if "nextrune (lex_consume lx1) = (y1, y2)" for y1 y2
    proof -
      have "left_over y2 \<le> left_over (lex_consume lx1)"
        using that by (auto simp: nextrune_def Let_def split: if_splits)
      then show ?thesis
        using l left_over_consume [of y2] left_over_consume [of "lex_ignore (lex_consume y2)"]
          left_over_consume [of "lex_ignore y2"] by auto
    qed
    have w: "left_over (lex_consume (lex_ignore (consume_while p lx1))) < left_over lx" if "p x" for p
      using consume_while_less [OF n, of p] that left_over_consume [of "lex_ignore (consume_while p lx1)"] by simp
    have "left_over lx' < left_over lx"
      using assms n l w [of "IsDigit uni"] w [of IsSpace] N
      by (auto simp: lex_scan_def Let_def split: if_splits prod.splits dest!: finish_left)
    then show ?thesis by simp
  qed
qed

text \<open>A bound on the tokens to come, with the current one.\<close>

definition tokens_left :: "lexer \<Rightarrow> nat" where
  "tokens_left lx = left_over lx + (if lx_typ lx = tokEOF then 0 else 1)"

lemma next_progress:
  assumes "lex_next uni lx = Inr (x, lx')"
  shows "x = (lx_tok lx, lx_typ lx)" and "lx_typ lx \<noteq> tokEOF \<Longrightarrow> tokens_left lx' < tokens_left lx"
proof -
  obtain tok ty l where *: "lex_scan uni lx = Inr ((tok, ty), l)" "lx' = l\<lparr>lx_tok := tok, lx_typ := ty\<rparr>"
      "x = (lx_tok lx, lx_typ lx)"
    using assms by (auto simp: lex_next_def split: sum.splits)
  then show "x = (lx_tok lx, lx_typ lx)" by simp
  show "tokens_left lx' < tokens_left lx" if "lx_typ lx \<noteq> tokEOF"
    using scan_progress [OF *(1)] *(2) that by (auto simp: tokens_left_def split: if_splits)
qed

lemma parsenum_progress: "parsenum uni lx = Inr (n, lx') \<Longrightarrow> tokens_left lx' < tokens_left lx"
proof -
  assume p: "parsenum uni lx = Inr (n, lx')"
  then obtain x l where l: "lex_next uni lx = Inr (x, l)" by (auto simp: parsenum_def split: sum.splits)
  have x: "x = (lx_tok lx, lx_typ lx)" by (rule next_progress(1) [OF l])
  then have t: "lx_typ lx \<noteq> tokEOF" using p l by (auto simp: parsenum_def)
  have lt: "tokens_left l < tokens_left lx" by (rule next_progress(2) [OF l t])
  show ?thesis
  proof (cases "lx_typ lx = tokNum")
    case True
    then show ?thesis using p l x lt by (simp add: parsenum_def)
  next
    case False
    then obtain y l2 where l2: "lex_next uni l = Inr (y, l2)" "lx' = l2" "snd y \<noteq> tokEOF"
      using p l x t by (auto simp: parsenum_def split: sum.splits if_splits)
    then have "tokens_left l2 < tokens_left l" using next_progress [OF l2(1)] by simp
    with lt l2(2) show ?thesis by simp
  qed
qed

lemma parsefield_progress: "parsefield uni lx = Inr (x, lx') \<Longrightarrow> tokens_left lx' < tokens_left lx"
  using next_progress(2) [of uni lx _ lx'] parsenum_progress [of uni lx _ lx']
  by (auto simp: parsefield_def split: if_splits sum.splits)

lemma parserange_progress:
  assumes "parserange uni lx = Inr (r, lx')"
  shows "tokens_left lx' < tokens_left lx"
proof -
  obtain x l where l: "parsefield uni lx = Inr (x, l)" using assms by (auto simp: parserange_def split: if_splits sum.splits)
  have lt: "tokens_left l < tokens_left lx" by (rule parsefield_progress [OF l])
  show ?thesis
  proof (cases "snd x = tokNF \<or> lx_typ l \<noteq> tokDash")
    case True
    then show ?thesis using assms l lt by (auto simp: parserange_def split: if_splits prod.splits)
  next
    case False
    then obtain y l2 where l2: "lex_next uni l = Inr (y, l2)"
      using assms l by (auto simp: parserange_def split: if_splits sum.splits prod.splits)
    have "tokens_left l2 < tokens_left l" using next_progress(2) [OF l2] False by simp
    moreover have "lx' = l2 \<or> (\<exists>z. parsefield uni l2 = Inr (z, lx'))"
      using assms l l2 False by (auto simp: parserange_def split: if_splits sum.splits prod.splits)
    ultimately show ?thesis using lt parsefield_progress [of uni l2 _ lx'] by auto
  qed
qed

lemma ranges_loop_total: "tokens_left lx < k \<Longrightarrow> ranges_loop k uni lx rs \<noteq> None"
proof (induction k arbitrary: lx rs)
  case (Suc k)
  let ?start = "if lx_typ lx = tokSpace then lex_next uni lx else Inr (([], tokError), lx)"
  show ?case
  proof (cases ?start)
    case Inl
    then show ?thesis by simp
  next
    case (Inr a)
    obtain x l where a: "a = (x, l)" by (cases a)
    have l: "tokens_left l \<le> tokens_left lx"
      using Inr a next_progress(2) [of uni lx x l] by (cases "lx_typ lx = tokSpace") auto
    show ?thesis
    proof (cases "parserange uni l")
      case Inl
      then show ?thesis using Inr a by simp
    next
      case range: (Inr b)
      obtain r l2 where b: "b = (r, l2)" by (cases b)
      have l2: "tokens_left l2 < tokens_left l" using parserange_progress [of uni l r l2] range b by simp
      show ?thesis
      proof (cases "lx_typ l2 = tokEOF \<or> \<not> isdelim (lx_typ l2)")
        case True
        then show ?thesis using Inr a range b by auto
      next
        case False
        then show ?thesis
        proof (cases "lex_next uni l2")
          case Inl
          then show ?thesis using Inr a range b False by auto
        next
          case nxt: (Inr c)
          obtain y l3 where c: "c = (y, l3)" by (cases c)
          have "tokens_left l3 < k" using next_progress(2) [of uni l2 y l3] nxt c False l l2 Suc.prems by auto
          then show ?thesis using Inr a range b False nxt c Suc.IH [of l3 "rs @ [r]"] by auto
        qed
      qed
    qed
  qed
qed simp

lemma parseranges_total: "\<exists>r. parseranges uni input = Some r"
proof -
  let ?l = "\<lparr>lx_input = input, lx_tok = [], lx_typ = tokError, lx_start = 0, lx_pos = 0, lx_width = 0\<rparr>"
  have "ranges_loop (Suc (length input)) uni lx [] \<noteq> None" if "lex_next uni ?l = Inr (x, lx)" for x lx
  proof (rule ranges_loop_total)
    show "tokens_left lx < Suc (length input)"
      using next_progress(2) [OF that] by (simp add: tokens_left_def left_over_def)
  qed
  then show ?thesis
    by (cases "lex_next uni ?l") (auto simp: parseranges_def simp del: ranges_loop.simps)
qed

section \<open>Printing and parsing field lists\<close>

text \<open>The lexer holds a token and stands before the rest \<open>s\<close> of its input.\<close>

definition lex_at :: "lexer \<Rightarrow> string \<Rightarrow> string \<Rightarrow> toktype \<Rightarrow> bool" where
  "lex_at lx s t y \<longleftrightarrow>
     lx_start lx = lx_pos lx \<and> lx_pos lx \<le> length (lx_input lx) \<and> drop (lx_pos lx) (lx_input lx) = s \<and>
     lx_tok lx = t \<and> lx_typ lx = y"

lemma ascii_rune: "(of_char c :: nat) < 0x80 \<Longrightarrow> rune_size (c # s) = 1"
  by (simp add: rune_size_def Let_def)

lemma nextrune_char:
  assumes "drop (lx_pos lx) (lx_input lx) = c # s" and "(of_char c :: nat) < 0x80"
  shows "nextrune lx = (Some [c], lx\<lparr>lx_width := 1\<rparr>)"
proof -
  have "lx_pos lx < length (lx_input lx)" using assms(1) by (metis drop_eq_Nil linorder_not_less list.discI)
  then show ?thesis using assms by (simp add: nextrune_def ascii_rune Let_def)
qed

lemma nextrune_end: "drop (lx_pos lx) (lx_input lx) = [] \<Longrightarrow> nextrune lx = (None, lx\<lparr>lx_width := 0\<rparr>)"
  by (simp add: nextrune_def)

lemma finish_at:
  assumes "drop (lx_start lx) (lx_input lx) = t @ s" and "lx_pos lx + lx_width lx = lx_start lx + length t"
    and "lx_start lx \<le> length (lx_input lx)"
  shows "\<exists>lx'. finish_token y lx = Inr ((t, y), lx') \<and> lex_at (lx'\<lparr>lx_tok := t, lx_typ := y\<rparr>) s t y"
proof -
  have "drop (lx_start lx + length t) (lx_input lx) = s"
    using arg_cong [OF assms(1), of "drop (length t)"] by (simp add: add.commute)
  moreover have "lx_start lx + length t \<le> length (lx_input lx)"
    using arg_cong [OF assms(1), of length] assms(3) by auto
  ultimately show ?thesis
    using assms by (simp add: finish_token_def lex_token_def lex_consume_def Let_def lex_at_def)
qed

text \<open>The texts of tokens: a single character for punctuation, digits that no digit follows, \<^verbatim>\<open>NF\<close>.\<close>

fun lexes :: "string \<Rightarrow> toktype \<Rightarrow> string \<Rightarrow> bool" where
  "lexes t tokComma s = (t = '','')"
| "lexes t tokDash s = (t = ''-'')"
| "lexes t tokNF s = (t = ''NF'')"
| "lexes t tokNum s = (t \<noteq> [] \<and> list_all is_digit t \<and> (s = [] \<or> (of_char (hd s) :: nat) < 0x80 \<and> \<not> is_digit (hd s)))"
| "lexes t tokEOF s = (t = [] \<and> s = [])"
| "lexes t _ s = False"

lemma consume_digits:
  assumes "list_all is_digit t" and "s = [] \<or> (of_char (hd s) :: nat) < 0x80 \<and> \<not> is_digit (hd s)"
  shows "drop (lx_pos lx) (lx_input lx) = t @ s \<Longrightarrow>
    \<exists>w. consume_while (IsDigit uni) lx = lx\<lparr>lx_pos := lx_pos lx + length t, lx_width := w\<rparr>"
  using assms(1)
proof (induction t arbitrary: lx)
  case Nil
  show ?case
  proof (cases s)
    case Nil
    with \<open>drop _ _ = [] @ s\<close> show ?thesis by (subst consume_while.simps) (auto simp: nextrune_end)
  next
    case (Cons c s')
    with \<open>drop _ _ = [] @ s\<close> assms(2) show ?thesis
      by (subst consume_while.simps) (auto simp: nextrune_char IsDigit_def)
  qed
next
  case (Cons c t)
  have c: "(of_char c :: nat) < 0x80" "is_digit c" using Cons.prems(2) by (auto simp: is_digit_def)
  let ?l = "lex_consume (lx\<lparr>lx_width := 1\<rparr>)"
  have "consume_while (IsDigit uni) lx = consume_while (IsDigit uni) ?l"
    using Cons.prems c by (subst consume_while.simps) (simp add: nextrune_char IsDigit_def)
  moreover have "drop (lx_pos ?l) (lx_input ?l) = t @ s"
    using arg_cong [OF Cons.prems(1), of "drop 1"] by (simp add: lex_consume_def)
  ultimately show ?case
    using Cons.IH [of ?l] Cons.prems(2) by (auto simp: lex_consume_def)
qed

lemma scan_at:
  assumes "lexes t y s" and "drop (lx_pos lx) (lx_input lx) = t @ s" and "lx_start lx = lx_pos lx"
    and "lx_pos lx \<le> length (lx_input lx)"
  shows "\<exists>lx'. lex_scan uni lx = Inr ((t, y), lx') \<and> lex_at (lx'\<lparr>lx_tok := t, lx_typ := y\<rparr>) s t y"
proof (cases y)
  case tokComma
  with assms have "nextrune lx = (Some '','', lx\<lparr>lx_width := 1\<rparr>)" by (intro nextrune_char) simp_all
  with tokComma assms show ?thesis
    using finish_at [of "lx\<lparr>lx_width := 1\<rparr>" t s tokComma] by (simp add: lex_scan_def)
next
  case tokDash
  with assms have "nextrune lx = (Some ''-'', lx\<lparr>lx_width := 1\<rparr>)" by (intro nextrune_char) simp_all
  with tokDash assms show ?thesis
    using finish_at [of "lx\<lparr>lx_width := 1\<rparr>" t s tokDash] by (simp add: lex_scan_def)
next
  case tokNF
  let ?l = "lex_consume (lx\<lparr>lx_width := 1\<rparr>)"
  have "nextrune lx = (Some ''N'', lx\<lparr>lx_width := 1\<rparr>)" using tokNF assms by (intro nextrune_char) simp_all
  moreover have d: "drop (Suc (lx_pos lx)) (lx_input lx) = CHR ''F'' # s"
    using arg_cong [OF assms(2), of "drop 1"] tokNF assms(1) by simp
  then have "nextrune ?l = (Some ''F'', ?l\<lparr>lx_width := 1\<rparr>)"
    by (intro nextrune_char [where s = s]) (simp_all add: lex_consume_def)
  ultimately show ?thesis
    using tokNF assms finish_at [of "lex_ignore (lex_consume (?l\<lparr>lx_width := 1\<rparr>))" t s tokNF]
    by (simp add: lex_scan_def lex_consume_def lex_ignore_def)
next
  case tokNum
  then obtain c t' where t: "t = c # t'" "is_digit c" using assms(1) by (cases t) auto
  then have c: "(of_char c :: nat) < 0x80" "c \<noteq> CHR '',''" "c \<noteq> CHR ''|''" "c \<noteq> CHR ''-''" "c \<noteq> CHR ''N''"
    by (auto simp: is_digit_def)
  let ?l = "lx\<lparr>lx_width := 1\<rparr>"
  have n: "nextrune lx = (Some [c], ?l)" using assms(2) t c by (intro nextrune_char) simp_all
  obtain w where "consume_while (IsDigit uni) ?l = ?l\<lparr>lx_pos := lx_pos lx + length t, lx_width := w\<rparr>"
    using consume_digits [of t s ?l uni] tokNum assms by auto
  then have "lex_scan uni lx =
      finish_token tokNum (lex_ignore (?l\<lparr>lx_pos := lx_pos lx + length t, lx_width := w\<rparr>))"
    using n t c by (simp add: lex_scan_def IsDigit_def)
  then show ?thesis
    using tokNum assms finish_at [of "lex_ignore (?l\<lparr>lx_pos := lx_pos lx + length t, lx_width := w\<rparr>)" t s tokNum]
    by (simp add: lex_ignore_def)
next
  case tokEOF
  with assms show ?thesis by (simp add: lex_scan_def nextrune_end lex_at_def)
qed (use assms in auto)

lemma next_at:
  assumes "lex_at lx (t @ s) t0 y0" and "lexes t y s"
  shows "\<exists>lx'. lex_next uni lx = Inr ((t0, y0), lx') \<and> lex_at lx' s t y"
proof -
  obtain lx' where "lex_scan uni lx = Inr ((t, y), lx')" "lex_at (lx'\<lparr>lx_tok := t, lx_typ := y\<rparr>) s t y"
    using scan_at [OF assms(2), of lx uni] assms(1) by (auto simp: lex_at_def)
  then show ?thesis using assms(1) by (auto simp: lex_next_def lex_at_def)
qed

definition show_field :: "int \<Rightarrow> string" where
  "show_field i = (if i = lastField then ''NF'' else Itoa i)"

definition range_tail :: "frange \<Rightarrow> string" where
  "range_tail r =
     (if fr_begin r = fr_end r then []
      else if fr_end r = lastField then ''-''
      else CHR ''-'' # show_field (fr_end r))"

definition show_range :: "frange \<Rightarrow> string" where
  "show_range r = show_field (fr_begin r) @ range_tail r"

text \<open>The field numbers are machine integers, and the last field is not the start of a longer range.\<close>

definition range_wf :: "frange \<Rightarrow> bool" where
  "range_wf r \<longleftrightarrow>
     - (2 ^ 63) < fr_begin r \<and> fr_begin r < 2 ^ 63 \<and> - (2 ^ 63) < fr_end r \<and> fr_end r < 2 ^ 63 \<and>
     (fr_begin r = lastField \<longrightarrow> fr_end r = lastField)"

definition no_digit :: "string \<Rightarrow> bool" where
  "no_digit s \<longleftrightarrow> s = [] \<or> (of_char (hd s) :: nat) < 0x80 \<and> \<not> is_digit (hd s)"

lemma lexes_number: "0 \<le> i \<Longrightarrow> no_digit s \<Longrightarrow> lexes (Itoa i) tokNum s"
  by (simp add: Itoa_def format_nat_digits no_digit_def)

lemma Atoi_value_Itoa: "0 \<le> i \<Longrightarrow> i < 2 ^ 63 \<Longrightarrow> Atoi_value (Itoa i) = i"
  using Atoi_Itoa [of i] by (simp add: Atoi_value_def)

text \<open>The lexer holds the first token of a field number and stands before its other part and \<open>s\<close>.\<close>

definition at_field :: "lexer \<Rightarrow> int \<Rightarrow> string \<Rightarrow> bool" where
  "at_field lx i s \<longleftrightarrow>
     (if i = lastField then lex_at lx s ''NF'' tokNF
      else if i < 0 then lex_at lx (Itoa (- i) @ s) ''-'' tokDash
      else lex_at lx s (Itoa i) tokNum)"

lemma next_field:
  assumes "lex_at lx (show_field i @ s) t0 y0" and "no_digit s"
  shows "\<exists>lx'. lex_next uni lx = Inr ((t0, y0), lx') \<and> at_field lx' i s"
proof (cases "i = lastField")
  case True
  then show ?thesis using next_at [of lx "''NF''" s t0 y0 tokNF uni] assms by (simp add: show_field_def at_field_def)
next
  case False
  show ?thesis
  proof (cases "i < 0")
    case True
    then have "Itoa i = CHR ''-'' # Itoa (- i)" by (simp add: Itoa_def)
    then show ?thesis
      using next_at [of lx "''-''" "Itoa (- i) @ s" t0 y0 tokDash uni] assms False True
      by (simp add: show_field_def at_field_def)
  next
    case pos: False
    then show ?thesis
      using next_at [of lx "Itoa i" s t0 y0 tokNum uni] lexes_number [of i s] assms False
      by (simp add: show_field_def at_field_def)
  qed
qed

lemma parsefield_at:
  assumes "at_field lx i (t @ s)" and "lexes t y s" and "- (2 ^ 63) < i" and "i < 2 ^ 63" and "no_digit (t @ s)"
  shows "\<exists>lx'. parsefield uni lx = Inr ((i, if i = lastField then tokNF else tokNum), lx') \<and> lex_at lx' s t y"
proof (cases "i = lastField")
  case True
  then have l: "lex_at lx (t @ s) ''NF'' tokNF" using assms(1) by (simp add: at_field_def)
  then have "lx_typ lx = tokNF" by (simp add: lex_at_def)
  with next_at [OF l assms(2), of uni] True show ?thesis by (auto simp: parsefield_def)
next
  case False
  show ?thesis
  proof (cases "i < 0")
    case True
    then have l: "lex_at lx (Itoa (- i) @ t @ s) ''-'' tokDash" using assms(1) False by (simp add: at_field_def)
    then have ty: "lx_typ lx \<noteq> tokNF" by (simp add: lex_at_def)
    obtain l1 where l1: "lex_next uni lx = Inr ((''-'', tokDash), l1)" "lex_at l1 (t @ s) (Itoa (- i)) tokNum"
      using next_at [OF l lexes_number, of uni] True assms(5) by auto
    obtain l2 where l2: "lex_next uni l1 = Inr ((Itoa (- i), tokNum), l2)" "lex_at l2 s t y"
      using next_at [OF l1(2) assms(2)] by auto
    have "wrap64 (- Atoi_value (Itoa (- i))) = i"
      using Atoi_value_Itoa [of "- i"] True assms(3) by (simp add: wrap64_small)
    then show ?thesis using ty l1 l2 False by (simp add: parsefield_def parsenum_def)
  next
    case pos: False
    then have l: "lex_at lx (t @ s) (Itoa i) tokNum" using assms(1) False by (simp add: at_field_def)
    then have ty: "lx_typ lx \<noteq> tokNF" by (simp add: lex_at_def)
    obtain l1 where "lex_next uni lx = Inr ((Itoa i, tokNum), l1)" "lex_at l1 s t y"
      using next_at [OF l assms(2)] by auto
    then show ?thesis
      using ty False pos Atoi_value_Itoa [of i] assms(4) by (simp add: parsefield_def parsenum_def)
  qed
qed

lemma parserange_at:
  assumes wf: "range_wf r" and at: "at_field lx (fr_begin r) (range_tail r @ t @ s)"
    and t: "lexes t y s" "y = tokEOF \<or> y = tokComma"
  shows "\<exists>lx'. parserange uni lx = Inr (r, lx') \<and> lex_at lx' s t y"
proof -
  let ?b = "fr_begin r" and ?e = "fr_end r"
  have nd: "no_digit (t @ s)" using t by (auto simp: no_digit_def is_digit_def)
  have ne: "lx_typ lx \<noteq> tokEOF" using at by (auto simp: at_field_def lex_at_def split: if_splits)
  have b: "- (2 ^ 63) < ?b" "?b < 2 ^ 63" and e: "- (2 ^ 63) < ?e" "?e < 2 ^ 63" using wf by (simp_all add: range_wf_def)
  have r: "r = \<lparr>fr_begin = ?b, fr_end = ?e\<rparr>" by simp
  show ?thesis
  proof (cases "?b = ?e")
    case True
    then obtain l1 where "parsefield uni lx = Inr ((?b, if ?b = lastField then tokNF else tokNum), l1)" "lex_at l1 s t y"
      using parsefield_at [OF _ t(1) b nd, of lx uni] at by (auto simp: range_tail_def)
    with True ne t(2) show ?thesis by (subst r) (auto simp: parserange_def lex_at_def)
  next
    case False
    then have nl: "?b \<noteq> lastField" using wf by (auto simp: range_wf_def)
    let ?u = "if ?e = lastField then [] else show_field ?e"
    have tail: "range_tail r @ t @ s = ''-'' @ ?u @ t @ s" using False by (simp add: range_tail_def)
    obtain l1 where l1: "parsefield uni lx = Inr ((?b, tokNum), l1)" "lex_at l1 (?u @ t @ s) ''-'' tokDash"
      using parsefield_at [of lx ?b "''-''" "?u @ t @ s" tokDash uni] at nl b unfolding tail
      by (auto simp: no_digit_def is_digit_def)
    have d: "lx_typ l1 = tokDash" using l1(2) by (simp add: lex_at_def)
    show ?thesis
    proof (cases "?e = lastField")
      case True
      then obtain l2 where "lex_next uni l1 = Inr ((''-'', tokDash), l2)" "lex_at l2 s t y"
        using next_at [OF _ t(1), of l1 "''-''" tokDash uni] l1(2) by auto
      with l1 d ne nl True t(2) show ?thesis by (subst r) (auto simp: parserange_def lex_at_def isdelim_def)
    next
      case fin: False
      then obtain l2 where l2: "lex_next uni l1 = Inr ((''-'', tokDash), l2)" "at_field l2 ?e (t @ s)"
        using next_field [OF _ nd, of l1 ?e "''-''" tokDash uni] l1(2) by auto
      have "lx_typ l2 \<noteq> tokEOF" "\<not> isdelim (lx_typ l2)"
        using l2(2) by (auto simp: at_field_def lex_at_def isdelim_def split: if_splits)
      moreover obtain l3 where "parsefield uni l2 = Inr ((?e, tokNum), l3)" "lex_at l3 s t y"
        using parsefield_at [OF l2(2) t(1) e nd] fin by auto
      ultimately show ?thesis using l1 l2 d ne nl by (subst r) (simp add: parserange_def)
    qed
  qed
qed

definition more_ranges :: "frange list \<Rightarrow> string" where
  "more_ranges rs = concat (map (\<lambda>r. '','' @ show_range r) rs)"

lemma no_digit_tail: "no_digit (range_tail r @ more_ranges rs)"
  by (cases rs) (auto simp: no_digit_def range_tail_def more_ranges_def is_digit_def)

lemma ranges_loop_at:
  "list_all range_wf (r # rs) \<Longrightarrow> at_field lx (fr_begin r) (range_tail r @ more_ranges rs) \<Longrightarrow> length rs < k \<Longrightarrow>
   ranges_loop k uni lx acc = Some (Inr (acc @ r # rs))"
proof (induction rs arbitrary: r lx acc k)
  case Nil
  have sp: "lx_typ lx \<noteq> tokSpace" using Nil.prems(2) by (auto simp: at_field_def lex_at_def split: if_splits)
  obtain k' where k: "k = Suc k'" using Nil.prems(3) by (cases k) auto
  obtain l1 where "parserange uni lx = Inr (r, l1)" "lex_at l1 [] [] tokEOF"
    using parserange_at [of r lx "[]" "[]" tokEOF uni] Nil.prems by (auto simp: more_ranges_def)
  with sp k show ?case by (simp add: lex_at_def)
next
  case (Cons r2 rs)
  let ?s = "show_field (fr_begin r2) @ range_tail r2 @ more_ranges rs"
  have sp: "lx_typ lx \<noteq> tokSpace" using Cons.prems(2) by (auto simp: at_field_def lex_at_def split: if_splits)
  obtain k' where k: "k = Suc k'" "length rs < k'" using Cons.prems(3) by (cases k) auto
  have "range_tail r @ more_ranges (r2 # rs) = range_tail r @ '','' @ ?s"
    by (simp add: more_ranges_def show_range_def)
  then obtain l1 where l1: "parserange uni lx = Inr (r, l1)" "lex_at l1 ?s '','' tokComma"
    using parserange_at [of r lx "'',''" ?s tokComma uni] Cons.prems by auto
  obtain l2 where l2: "lex_next uni l1 = Inr (('','', tokComma), l2)" "at_field l2 (fr_begin r2) (range_tail r2 @ more_ranges rs)"
    using next_field [OF l1(2) no_digit_tail, of uni] by auto
  have "lx_typ l1 = tokComma" using l1(2) by (simp add: lex_at_def)
  with sp k(1) l1(1) l2(1) have "ranges_loop k uni lx acc = ranges_loop k' uni l2 (acc @ [r])"
    by (simp add: isdelim_def)
  also have "\<dots> = Some (Inr (acc @ r # r2 # rs))"
    using Cons.IH [OF _ l2(2) k(2), of "acc @ [r]"] Cons.prems(1) by simp
  finally show ?case .
qed

lemma join_ranges: "join_with '','' (map show_range (r # rs)) = show_range r @ more_ranges rs"
  by (induction rs arbitrary: r) (simp_all add: more_ranges_def)

lemma more_ranges_length: "length rs \<le> length (more_ranges rs)"
  by (induction rs) (simp_all add: more_ranges_def)

text \<open>
  C18. The field lists that can be written with numbers from the start or the end, ranges of them, open ranges
  and \<^verbatim>\<open>NF\<close>, separated by commas, are read back as the ranges they were written from.
\<close>

theorem field_ranges_roundtrip:
  assumes "rs \<noteq> []" and "list_all range_wf rs"
  shows "parseranges uni (join_with '','' (map show_range rs)) = Some (Inr rs)"
proof -
  obtain r rs' where rs: "rs = r # rs'" using assms(1) by (cases rs) auto
  let ?in = "show_field (fr_begin r) @ range_tail r @ more_ranges rs'"
  let ?l = "\<lparr>lx_input = ?in, lx_tok = [], lx_typ = tokError, lx_start = 0, lx_pos = 0, lx_width = 0\<rparr>"
  have input: "join_with '','' (map show_range rs) = ?in"
    unfolding rs join_ranges by (simp add: show_range_def)
  have "lex_at ?l ?in [] tokError" by (simp add: lex_at_def)
  then obtain l1 where l1: "lex_next uni ?l = Inr (([], tokError), l1)" "at_field l1 (fr_begin r) (range_tail r @ more_ranges rs')"
    using next_field [OF _ no_digit_tail, of ?l "fr_begin r" r rs' "[]" tokError uni] by auto
  have ne: "?in \<noteq> []" by (simp add: show_field_def Itoa_def)
  have "length rs' < Suc (length ?in)" using more_ranges_length [of rs'] by simp
  then have "ranges_loop (Suc (length ?in)) uni l1 [] = Some (Inr ([] @ r # rs'))"
    using ranges_loop_at [OF _ l1(2), of "Suc (length ?in)" uni "[]"] assms(2) rs by blast
  then have "parseranges uni ?in = Some (Inr (r # rs'))"
    using l1(1) ne by (simp add: parseranges_def del: ranges_loop.simps)
  then show ?thesis unfolding input unfolding rs .
qed

theorem field_ranges_roundtrip_witness:
  "parseranges (\<lambda>_. False) (join_with '','' (map show_range
      [\<lparr>fr_begin = 1, fr_end = 1\<rparr>, \<lparr>fr_begin = 3, fr_end = lastField\<rparr>, \<lparr>fr_begin = -2, fr_end = -1\<rparr>])) =
   Some (Inr [\<lparr>fr_begin = 1, fr_end = 1\<rparr>, \<lparr>fr_begin = 3, fr_end = lastField\<rparr>, \<lparr>fr_begin = -2, fr_end = -1\<rparr>])"
  by (rule field_ranges_roundtrip) (simp_all add: range_wf_def lastField_def)

end
