(* ===== verification/Go_Fs.thy ===== *)
theory Go_Fs
  imports Go_Os "HOL-Library.AList"
begin

text \<open>
  The file system as the file commands see it. \<open>os_env\<close> collects the calls that read: \<^verbatim>\<open>os.Stat\<close>,
  \<^verbatim>\<open>os.Lstat\<close>, \<^verbatim>\<open>os.Readlink\<close> and the others; the calls that write go
  through the kernel of \<open>Go_Os\<close>. All of them are parameters, functions of the world \<open>'w\<close>. On top of them
  the library functions of Go 1.9 the commands use: \<^verbatim>\<open>filepath.EvalSymlinks\<close> and
  \<^verbatim>\<open>filepath.Walk\<close>. At the end \<open>ufs\<close>, a small file system with inodes, hard links and symbolic
  links, as a concrete instance.
\<close>

section \<open>Commands\<close>

text \<open>What a piece of a command does: give a value, end the process with a status, or panic.\<close>

datatype 'a res = Val 'a | Exit nat | Crash string

definition then_do :: "'a res \<times> 'w \<Rightarrow> ('a \<Rightarrow> 'w \<Rightarrow> 'b res \<times> 'w) \<Rightarrow> 'b res \<times> 'w" where
  "then_do m f = (case m of (Val x, w) \<Rightarrow> f x w | (Exit n, w) \<Rightarrow> (Exit n, w) | (Crash p, w) \<Rightarrow> (Crash p, w))"

lemma then_do_simps [simp]:
  "then_do (Val x, w) f = f x w"
  "then_do (Exit n, w) f = (Exit n, w)"
  "then_do (Crash p, w) f = (Crash p, w)"
  by (simp_all add: then_do_def)

lemma then_do_assoc: "then_do (then_do m f) g = then_do m (\<lambda>x w. then_do (f x w) g)"
  by (auto simp: then_do_def split: prod.splits res.splits)

lemma then_do_Val_iff: "then_do m g = (Val y, w') \<longleftrightarrow> (\<exists>x w. m = (Val x, w) \<and> g x w = (Val y, w'))"
  by (auto simp: then_do_def split: prod.splits res.splits)

section \<open>Reading the file system\<close>

record 'w os_env =
  os_kernel :: "'w kernel"
  os_stat :: "string \<Rightarrow> 'w \<Rightarrow> goerr + Stat_t"
  os_lstat :: "string \<Rightarrow> 'w \<Rightarrow> goerr + Stat_t"
  os_readlink :: "string \<Rightarrow> 'w \<Rightarrow> goerr + string"
  os_readdir :: "string \<Rightarrow> 'w \<Rightarrow> goerr + string list"
  os_open :: "string \<Rightarrow> 'w \<Rightarrow> goerr option"
  os_read :: "string \<Rightarrow> 'w \<Rightarrow> goerr + bytes"
  os_getwd :: "'w \<Rightarrow> goerr + string"
  os_input :: "'w \<Rightarrow> (goerr + string) \<times> 'w"

definition IsNotExist :: "goerr \<Rightarrow> bool" where
  "IsNotExist e \<longleftrightarrow> e = Errno ''ENOENT''"

definition is_dir :: "Stat_t \<Rightarrow> bool" where
  "is_dir st \<longleftrightarrow> stat_FileMode st AND ModeDir \<noteq> 0"

definition is_symlink :: "Stat_t \<Rightarrow> bool" where
  "is_symlink st \<longleftrightarrow> stat_FileMode st AND ModeSymlink = ModeSymlink"

text \<open>A call whose result the caller looks at.\<close>

definition os_do :: "'w os_env \<Rightarrow> call \<Rightarrow> 'w \<Rightarrow> goerr option res \<times> 'w" where
  "os_do os c w = (case os_kernel os c w of (err, w') \<Rightarrow> (Val err, w'))"

definition os_printf :: "'w os_env \<Rightarrow> string \<Rightarrow> string list \<Rightarrow> 'w \<Rightarrow> unit res \<times> 'w" where
  "os_printf os fmt args w = (Val (), snd (os_kernel os (Printf fmt args) w))"

text \<open>\<^verbatim>\<open>strings.ToLower(answer)[0] == 'y'\<close>\<close>

definition says_yes :: "string \<Rightarrow> bool res" where
  "says_yes answer =
     (case answer of [] \<Rightarrow> Crash ''index out of range'' | c # _ \<Rightarrow> Val (c = CHR ''y'' \<or> c = CHR ''Y''))"

section \<open>filepath.EvalSymlinks\<close>

definition walkLink :: "'w os_env \<Rightarrow> 'w \<Rightarrow> string \<Rightarrow> nat \<Rightarrow> goerr + (string \<times> bool \<times> nat)" where
  "walkLink os w path links =
     (if links > 255 then Inl (Errorf ''EvalSymlinks: too many links'')
      else case os_lstat os path w of
             Inl err \<Rightarrow> Inl err
           | Inr fi \<Rightarrow>
               if stat_FileMode fi AND ModeSymlink = 0 then Inr (path, False, links)
               else case os_readlink os path w of
                      Inl err \<Rightarrow> Inl err
                    | Inr newpath \<Rightarrow> Inr (newpath, True, Suc links))"

lemma path_Split_append: "fst (path_Split p) @ snd (path_Split p) = p"
proof -
  let ?t = "takeWhile (\<lambda>c. c \<noteq> slash) (rev p)"
  have "rev p = ?t @ dropWhile (\<lambda>c. c \<noteq> slash) (rev p)" by simp
  then have "p = rev (dropWhile (\<lambda>c. c \<noteq> slash) (rev p)) @ rev ?t"
    by (metis rev_append rev_rev_ident)
  then have "take (length p - length ?t) p = rev (dropWhile (\<lambda>c. c \<noteq> slash) (rev p))"
    by (metis add_diff_cancel_right' append_eq_conv_conj length_append length_rev)
  with \<open>p = _\<close> show ?thesis by (simp add: path_Split_def Let_def)
qed

lemma path_Split_lengths: "(d, f) = path_Split p \<Longrightarrow> length p = length d + length f"
  using path_Split_append [of p] by (metis fst_conv length_append snd_conv)

text \<open>
  Results: the path, whether it changed is read from the number of links walked. An empty link target makes
  \<^verbatim>\<open>newpath[0]\<close> panic.
\<close>

function walkLinks :: "'w os_env \<Rightarrow> 'w \<Rightarrow> string \<Rightarrow> nat \<Rightarrow> (string \<times> nat) outcome" where
  "walkLinks os w path links =
     (case path_Split path of (dir, file) \<Rightarrow>
        if dir = [] then
          (case walkLink os w file links of Inl err \<Rightarrow> Fail err | Inr (p, _, l) \<Rightarrow> Ret (p, l))
        else if file = [] then
          (if dir = ''/'' then Ret (dir, links) else walkLinks os w (butlast dir) links)
        else
          bind_outcome (walkLinks os w dir links) (\<lambda>(newdir, l).
            case walkLink os w (Join [newdir, file]) l of
              Inl err \<Rightarrow> Fail err
            | Inr (newpath, islink, l') \<Rightarrow>
                if \<not> islink then Ret (newpath, l')
                else if newpath = [] then Panic ''index out of range''
                else if hd newpath = slash then Ret (newpath, l')
                else Ret (Join [newdir, newpath], l')))"
  by pat_completeness auto
termination
  by (relation "measure (\<lambda>(_, _, p, _). length p)") (auto dest: path_Split_lengths)

declare walkLinks.simps [simp del]

lemma walkLink_links: "walkLink os w path links = Inr (p, b, l) \<Longrightarrow> links \<le> l \<and> l \<le> 256"
  by (auto simp: walkLink_def split: if_splits sum.splits)

lemma walkLinks_links: "walkLinks os w path links = Ret (p, l) \<Longrightarrow> links \<le> l \<and> (l = links \<or> l \<le> 256)"
proof (induction os w path links arbitrary: p l rule: walkLinks.induct)
  case (1 os w path links)
  obtain d f where s: "path_Split path = (d, f)" by fastforce
  consider "d = []" | "d \<noteq> []" "f = []" | "d \<noteq> []" "f \<noteq> []" by blast
  then show ?case
  proof cases
    case 1
    with "1.prems" s show ?thesis
      by (auto simp: walkLinks.simps [of os w path] split: sum.splits dest: walkLink_links)
  next
    case 2
    with "1.prems" "1.IH"(1) [OF s [symmetric] 2] s show ?thesis
      by (auto simp: walkLinks.simps [of os w path] split: if_splits)
  next
    case 3
    with "1.prems" s obtain q k where q: "walkLinks os w d links = Ret (q, k)"
      by (cases "walkLinks os w d links") (auto simp: walkLinks.simps [of os w path])
    with "1.prems" s 3 obtain p' i where "walkLink os w (Join [q, f]) k = Inr (p', i, l)"
      by (cases "walkLink os w (Join [q, f]) k") (auto simp: walkLinks.simps [of os w path] split: if_splits)
    with "1.IH"(2) [OF s [symmetric] 3 q] show ?thesis
      by (auto dest: walkLink_links)
  qed
qed

text \<open>The loop of \<^verbatim>\<open>walkSymlinks\<close>; it stops because the number of links walked is bounded.\<close>

function walkSymlinks :: "'w os_env \<Rightarrow> 'w \<Rightarrow> string \<Rightarrow> nat \<Rightarrow> string outcome" where
  "walkSymlinks os w path links =
     (case walkLinks os w path links of
        Ret (newpath, l) \<Rightarrow> if l = links then Ret (Clean newpath) else walkSymlinks os w newpath l
      | Fail err \<Rightarrow> Fail err
      | Panic p \<Rightarrow> Panic p)"
  by pat_completeness auto
termination
proof (relation "measure (\<lambda>(_, _, _, l). 256 - l)")
  fix os :: "'w os_env" and w path links and x :: "string \<times> nat" and newpath l
  assume "walkLinks os w path links = Ret x" "(newpath, l) = x" "l \<noteq> links"
  with walkLinks_links [of os w path links newpath l]
  show "((os, w, newpath, l), os, w, path, links) \<in> measure (\<lambda>(_, _, _, l). 256 - l)" by auto
qed simp

declare walkSymlinks.simps [simp del]

definition EvalSymlinks :: "'w os_env \<Rightarrow> 'w \<Rightarrow> string \<Rightarrow> string outcome" where
  "EvalSymlinks os w path = (if path = [] then Ret [] else walkSymlinks os w path 0)"

section \<open>filepath.Walk\<close>

definition SkipDir :: goerr where
  "SkipDir = Errorf ''skip this directory''"

type_synonym 'w walk_fn = "string \<Rightarrow> Stat_t option \<Rightarrow> goerr option \<Rightarrow> 'w \<Rightarrow> goerr option res \<times> 'w"

text \<open>
  The file system may be arbitrarily deep, so the depth is bounded by fuel; \<open>None\<close> is a walk deeper than that.
\<close>

fun walk_names ::
    "(string \<Rightarrow> Stat_t \<Rightarrow> 'w \<Rightarrow> (goerr option res \<times> 'w) option) \<Rightarrow> 'w os_env \<Rightarrow> 'w walk_fn \<Rightarrow> string \<Rightarrow> string list \<Rightarrow>
     'w \<Rightarrow> (goerr option res \<times> 'w) option" where
  "walk_names rec os fn path [] w = Some (Val None, w)"
| "walk_names rec os fn path (name # names) w =
     (let filename = Join [path, name]
      in case os_lstat os filename w of
           Inl err \<Rightarrow>
             (case fn filename None (Some err) w of
                (Val e, w') \<Rightarrow> if e \<noteq> None \<and> e \<noteq> Some SkipDir then Some (Val e, w')
                              else walk_names rec os fn path names w'
              | r \<Rightarrow> Some r)
         | Inr fi \<Rightarrow>
             (case rec filename fi w of
                Some (Val e, w') \<Rightarrow> if e \<noteq> None \<and> (\<not> is_dir fi \<or> e \<noteq> Some SkipDir) then Some (Val e, w')
                                    else walk_names rec os fn path names w'
              | r \<Rightarrow> r))"

fun walk :: "nat \<Rightarrow> 'w os_env \<Rightarrow> 'w walk_fn \<Rightarrow> string \<Rightarrow> Stat_t \<Rightarrow> 'w \<Rightarrow> (goerr option res \<times> 'w) option" where
  "walk 0 os fn path info w = None"
| "walk (Suc n) os fn path info w =
     (case fn path (Some info) None w of
        (Val (Some err), w') \<Rightarrow> Some (Val (if is_dir info \<and> err = SkipDir then None else Some err), w')
      | (Val None, w') \<Rightarrow>
          if \<not> is_dir info then Some (Val None, w')
          else (case os_readdir os path w' of
                  Inl err \<Rightarrow> Some (fn path (Some info) (Some err) w')
                | Inr names \<Rightarrow> walk_names (walk n os fn) os fn path names w')
      | r \<Rightarrow> Some r)"

definition Walk :: "nat \<Rightarrow> 'w os_env \<Rightarrow> 'w walk_fn \<Rightarrow> string \<Rightarrow> 'w \<Rightarrow> (goerr option res \<times> 'w) option" where
  "Walk n os fn root w =
     (case (case os_lstat os root w of
              Inl err \<Rightarrow> Some (fn root None (Some err) w)
            | Inr info \<Rightarrow> walk n os fn root info w) of
        Some (Val e, w') \<Rightarrow> Some (Val (if e = Some SkipDir then None else e), w')
      | r \<Rightarrow> r)"

section \<open>A file system with inodes\<close>

datatype node =
    Reg u32 bytes
  | Lnk string
  | Dr u32

record ufs =
  fs_names :: "(string \<times> nat) list"
  fs_nodes :: "nat \<Rightarrow> node"
  fs_next :: nat
  fs_stdin :: "string list"
  fs_stdout :: "(string \<times> string list) list"

definition ENOENT :: goerr where
  "ENOENT = Errno ''ENOENT''"

text \<open>The name a path stands for when its last component is followed, at most 40 links.\<close>

fun follow :: "nat \<Rightarrow> ufs \<Rightarrow> string \<Rightarrow> goerr + string" where
  "follow 0 fs p = Inl (Errno ''ELOOP'')"
| "follow (Suc n) fs p =
     (case map_of (fs_names fs) (Clean p) of
        None \<Rightarrow> Inr (Clean p)
      | Some i \<Rightarrow>
          (case fs_nodes fs i of
             Lnk t \<Rightarrow> follow n fs (if is_abs t then t else Join [Dir (Clean p), t])
           | _ \<Rightarrow> Inr (Clean p)))"

definition node_stat :: "nat \<Rightarrow> node \<Rightarrow> Stat_t" where
  "node_stat i nd =
     \<lparr>st_Dev = 1, st_Ino = of_nat i, st_Nlink = 1,
      st_Mode = (case nd of Reg m _ \<Rightarrow> 0x8000 OR m | Lnk _ \<Rightarrow> 0xA1FF | Dr m \<Rightarrow> 0x4000 OR m),
      st_Uid = 0, st_Gid = 0, st_Rdev = 0,
      st_Size = (case nd of Reg _ b \<Rightarrow> of_nat (length b) | Lnk t \<Rightarrow> of_nat (length t) | Dr _ \<Rightarrow> 0), st_Mtim = 0\<rparr>"

definition ufs_lookup :: "ufs \<Rightarrow> string \<Rightarrow> goerr + (nat \<times> node)" where
  "ufs_lookup fs p =
     (case map_of (fs_names fs) (Clean p) of None \<Rightarrow> Inl ENOENT | Some i \<Rightarrow> Inr (i, fs_nodes fs i))"

definition ufs_lstat :: "string \<Rightarrow> ufs \<Rightarrow> goerr + Stat_t" where
  "ufs_lstat p fs = map_sum id (\<lambda>(i, nd). node_stat i nd) (ufs_lookup fs p)"

definition ufs_stat :: "string \<Rightarrow> ufs \<Rightarrow> goerr + Stat_t" where
  "ufs_stat p fs = (case follow 40 fs p of Inl e \<Rightarrow> Inl e | Inr q \<Rightarrow> ufs_lstat q fs)"

definition ufs_readlink :: "string \<Rightarrow> ufs \<Rightarrow> goerr + string" where
  "ufs_readlink p fs =
     (case ufs_lookup fs p of
        Inl e \<Rightarrow> Inl e
      | Inr (_, Lnk t) \<Rightarrow> Inr t
      | Inr _ \<Rightarrow> Inl (Errno ''EINVAL''))"

definition ufs_read :: "string \<Rightarrow> ufs \<Rightarrow> goerr + bytes" where
  "ufs_read p fs =
     (case follow 40 fs p of
        Inl e \<Rightarrow> Inl e
      | Inr q \<Rightarrow> (case ufs_lookup fs q of
                   Inl e \<Rightarrow> Inl e
                 | Inr (_, Reg _ b) \<Rightarrow> Inr b
                 | Inr _ \<Rightarrow> Inl (Errno ''EISDIR'')))"

definition ufs_readdir :: "string \<Rightarrow> ufs \<Rightarrow> goerr + string list" where
  "ufs_readdir p fs =
     (case follow 40 fs p of
        Inl e \<Rightarrow> Inl e
      | Inr q \<Rightarrow> (case ufs_lookup fs q of
                   Inl e \<Rightarrow> Inl e
                 | Inr (_, Dr _) \<Rightarrow> Inr (map Base (filter (\<lambda>n. Dir n = q \<and> n \<noteq> q) (map fst (fs_names fs))))
                 | Inr _ \<Rightarrow> Inl (Errno ''ENOTDIR'')))"

definition parent_ok :: "ufs \<Rightarrow> string \<Rightarrow> bool" where
  "parent_ok fs p \<longleftrightarrow> Dir p \<in> {''.'', ''/''} \<or> (case ufs_stat (Dir p) fs of Inl _ \<Rightarrow> False | Inr st \<Rightarrow> is_dir st)"

definition add_node :: "string \<Rightarrow> node \<Rightarrow> ufs \<Rightarrow> goerr option \<times> ufs" where
  "add_node p nd fs =
     (if map_of (fs_names fs) (Clean p) \<noteq> None then (Some (Errno ''EEXIST''), fs)
      else if \<not> parent_ok fs (Clean p) then (Some ENOENT, fs)
      else (None, fs\<lparr>fs_names := fs_names fs @ [(Clean p, fs_next fs)],
                   fs_nodes := (fs_nodes fs)(fs_next fs := nd), fs_next := Suc (fs_next fs)\<rparr>))"

definition set_content :: "string \<Rightarrow> bytes \<Rightarrow> ufs \<Rightarrow> goerr option \<times> ufs" where
  "set_content p b fs =
     (case follow 40 fs p of
        Inl e \<Rightarrow> (Some e, fs)
      | Inr q \<Rightarrow> (case ufs_lookup fs q of
                   Inr (i, Reg m _) \<Rightarrow> (None, fs\<lparr>fs_nodes := (fs_nodes fs)(i := Reg m b)\<rparr>)
                 | Inr _ \<Rightarrow> (Some (Errno ''EISDIR''), fs)
                 | Inl e \<Rightarrow> (Some e, fs)))"

definition open_trunc :: "string \<Rightarrow> u32 \<Rightarrow> ufs \<Rightarrow> goerr option \<times> ufs" where
  "open_trunc p m fs =
     (case follow 40 fs p of
        Inl e \<Rightarrow> (Some e, fs)
      | Inr q \<Rightarrow> (case ufs_lookup fs q of Inl _ \<Rightarrow> add_node q (Reg m []) fs | Inr _ \<Rightarrow> set_content q [] fs))"

fun ufs_call :: "ufs kernel" where
  "ufs_call (Create p) fs = open_trunc p 0x1B6 fs"
| "ufs_call (OpenTrunc p m) fs = open_trunc p m fs"
| "ufs_call (CopyTo p b) fs = set_content p b fs"
| "ufs_call (WriteFile p b m) fs =
     (case open_trunc p m fs of (None, fs') \<Rightarrow> set_content p b fs' | r \<Rightarrow> r)"
| "ufs_call (Mkdir p m) fs = add_node p (Dr m) fs"
| "ufs_call (Symlink t p) fs = add_node p (Lnk t) fs"
| "ufs_call (Link t p) fs =
     (case map_of (fs_names fs) (Clean t) of
        None \<Rightarrow> (Some ENOENT, fs)
      | Some i \<Rightarrow>
          if map_of (fs_names fs) (Clean p) \<noteq> None then (Some (Errno ''EEXIST''), fs)
          else (None, fs\<lparr>fs_names := fs_names fs @ [(Clean p, i)]\<rparr>))"
| "ufs_call (Remove p) fs =
     (case map_of (fs_names fs) (Clean p) of
        None \<Rightarrow> (Some ENOENT, fs)
      | Some i \<Rightarrow>
          if list_ex (\<lambda>(n, _). Dir n = Clean p) (fs_names fs) then (Some (Errno ''ENOTEMPTY''), fs)
          else (None, fs\<lparr>fs_names := AList.delete (Clean p) (fs_names fs)\<rparr>))"
| "ufs_call (Rename a b) fs =
     (case map_of (fs_names fs) (Clean a) of
        None \<Rightarrow> (Some ENOENT, fs)
      | Some i \<Rightarrow> (None, fs\<lparr>fs_names := AList.update (Clean b) i (AList.delete (Clean a) (fs_names fs))\<rparr>))"
| "ufs_call (Printf fmt args) fs = (None, fs\<lparr>fs_stdout := fs_stdout fs @ [(fmt, args)]\<rparr>)"
| "ufs_call _ fs = (Some (Errno ''ENOSYS''), fs)"

definition ufs_input :: "ufs \<Rightarrow> (goerr + string) \<times> ufs" where
  "ufs_input fs = (case fs_stdin fs of [] \<Rightarrow> (Inl EOF, fs) | l # ls \<Rightarrow> (Inr l, fs\<lparr>fs_stdin := ls\<rparr>))"

definition ufs_os :: "ufs os_env" where
  "ufs_os = \<lparr>os_kernel = ufs_call, os_stat = ufs_stat, os_lstat = ufs_lstat, os_readlink = ufs_readlink,
     os_readdir = ufs_readdir,
     os_open = (\<lambda>p fs. case ufs_stat p fs of Inl e \<Rightarrow> Some e | Inr _ \<Rightarrow> None),
     os_read = ufs_read, os_getwd = (\<lambda>_. Inr ''/''), os_input = ufs_input\<rparr>"

definition ufs_files :: "(string \<times> node) list \<Rightarrow> ufs" where
  "ufs_files nds = \<lparr>fs_names = zip (map fst nds) [0..<length nds], fs_nodes = (\<lambda>i. snd (nds ! i)),
     fs_next = length nds, fs_stdin = [], fs_stdout = []\<rparr>"

lemma follow_numeral:
  "follow (numeral k) fs p =
     (case map_of (fs_names fs) (Clean p) of
        None \<Rightarrow> Inr (Clean p)
      | Some i \<Rightarrow>
          (case fs_nodes fs i of
             Lnk t \<Rightarrow> follow (pred_numeral k) fs (if is_abs t then t else Join [Dir (Clean p), t])
           | _ \<Rightarrow> Inr (Clean p)))"
  by (simp add: numeral_eq_Suc)

lemmas ufs_eval = ufs_os_def ufs_stat_def ufs_lstat_def ufs_lookup_def ufs_files_def ufs_read_def ufs_readdir_def
  ufs_readlink_def open_trunc_def set_content_def add_node_def parent_ok_def ENOENT_def IsNotExist_def
  node_stat_def is_dir_def is_symlink_def stat_FileMode_def mode_defs follow_numeral

lemmas path_eval = Clean_def clean_comps_def Join_def Dir_def Base_def path_Split_def is_abs_def trim_right_def

end
