(* ===== verification/Go_Path.thy ===== *)
theory Go_Path
  imports Go_Strings
begin

text \<open>
  Facts on \<^verbatim>\<open>path/filepath\<close> that the archive builders rely on: what the cleaned elements of a path look
  like, that \<^verbatim>\<open>Dir\<close> gets shorter, and how \<^verbatim>\<open>Dir\<close>, \<^verbatim>\<open>Join\<close> and \<^verbatim>\<open>Rel\<close> act on
  cleaned paths.
\<close>

section \<open>Cleaned elements\<close>

definition proper :: "string \<Rightarrow> bool" where
  "proper e \<longleftrightarrow> e \<noteq> [] \<and> e \<noteq> ''.'' \<and> slash \<notin> set e"

text \<open>\<^verbatim>\<open>..\<close> stands only in front, and not at all in a rooted path.\<close>

definition normal :: "bool \<Rightarrow> string list \<Rightarrow> bool" where
  "normal rooted es \<longleftrightarrow> list_all proper es \<and>
     (\<exists>k ys. es = replicate k ''..'' @ ys \<and> ''..'' \<notin> set ys \<and> (rooted \<longrightarrow> k = 0))"

lemma normal_butlast: "normal rooted es \<Longrightarrow> normal rooted (butlast es)"
proof -
  assume n: "normal rooted es"
  then obtain k ys where es: "es = replicate k ''..'' @ ys" and ys: "''..'' \<notin> set ys" "rooted \<longrightarrow> k = 0"
    by (auto simp: normal_def)
  have p: "list_all proper (butlast es)" using n by (auto simp: normal_def list_all_iff dest: in_set_butlastD)
  show ?thesis
  proof (cases ys rule: rev_cases)
    case Nil
    with es have "butlast es = replicate (k - 1) ''..'' @ []" by (cases k) (simp_all add: replicate_append_same [symmetric])
    with p ys show ?thesis unfolding normal_def by (metis diff_0_eq_0 empty_iff list.set(1))
  next
    case (snoc zs z)
    with es ys have "butlast es = replicate k ''..'' @ zs" "''..'' \<notin> set zs" by (simp_all add: butlast_append)
    with p ys show ?thesis unfolding normal_def by blast
  qed
qed

lemma clean_elems_dots: "\<not> rooted \<Longrightarrow> clean_elems rooted (replicate j ''..'') (replicate k ''..'' @ es) =
    clean_elems rooted (replicate (j + k) ''..'') es"
proof (induction k arbitrary: j)
  case (Suc k)
  have "replicate j ''..'' = [] \<or> (\<exists>ts. replicate j ''..'' = ''..'' # ts)" by (cases j) auto
  with Suc.IH [of "Suc j"] Suc.prems show ?case by (cases j) auto
qed simp

lemma clean_elems_plain:
  "list_all proper ys \<Longrightarrow> ''..'' \<notin> set ys \<Longrightarrow> clean_elems rooted st (ys @ zs) = clean_elems rooted (rev ys @ st) zs"
  by (induction ys arbitrary: st) (auto simp: proper_def)

lemma clean_elems_normal: "normal rooted es \<Longrightarrow> clean_elems rooted [] (es @ zs) = clean_elems rooted (rev es) zs"
proof -
  assume n: "normal rooted es"
  then obtain k ys where es: "es = replicate k ''..'' @ ys" and ys: "''..'' \<notin> set ys" "rooted \<longrightarrow> k = 0"
    by (auto simp: normal_def)
  from n es have p: "list_all proper ys" by (simp add: normal_def)
  have "clean_elems rooted [] (es @ zs) = clean_elems rooted (replicate k ''..'') (ys @ zs)"
    using es ys(2) clean_elems_dots [of rooted 0 k "ys @ zs"] by (cases rooted) auto
  with clean_elems_plain [OF p ys(1)] es show ?thesis by simp
qed

lemma normal_clean_elems:
  assumes "normal rooted (rev st)" and "\<forall>e \<in> set es. slash \<notin> set e"
  shows "normal rooted (clean_elems rooted st es)"
  using assms
proof (induction rooted st es rule: clean_elems.induct)
  case (2 rooted st e es)
  have tl: "normal rooted (rev ts)" if "st = t # ts" for t ts
    using normal_butlast [OF "2.prems"(1)] that by simp
  have dots: "normal rooted (rev (''..'' # st))" if "\<not> rooted" "st = [] \<or> hd st = ''..''"
  proof -
    obtain k ys where r: "rev st = replicate k ''..'' @ ys" "''..'' \<notin> set ys"
      using "2.prems"(1) by (auto simp: normal_def)
    have "ys = []"
    proof (rule ccontr)
      assume "ys \<noteq> []"
      with r(1) have "st \<noteq> []" "last ys = hd st" by (auto simp: hd_rev [of "rev st", simplified])
      with that r(2) \<open>ys \<noteq> []\<close> last_in_set [of ys] show False by auto
    qed
    with r have "rev (''..'' # st) = replicate (Suc k) ''..'' @ []" by (simp add: replicate_append_same)
    moreover have "list_all proper (rev (''..'' # st))" using "2.prems"(1) by (auto simp: normal_def proper_def list_all_iff)
    ultimately show ?thesis using that(1) unfolding normal_def by (metis empty_iff list.set(1))
  qed
  have plain: "normal rooted (rev (e # st))" if "e \<noteq> []" "e \<noteq> ''.''" "e \<noteq> ''..''"
  proof -
    obtain k ys where r: "rev st = replicate k ''..'' @ ys" "''..'' \<notin> set ys" "rooted \<longrightarrow> k = 0"
      using "2.prems"(1) by (auto simp: normal_def)
    have "rev (e # st) = replicate k ''..'' @ (ys @ [e])" "''..'' \<notin> set (ys @ [e])" using r that by auto
    moreover have "list_all proper (rev (e # st))" using "2.prems" that by (auto simp: normal_def proper_def list_all_iff)
    ultimately show ?thesis using r(3) unfolding normal_def by blast
  qed
  show ?case
    using "2.IH" "2.prems" tl dots plain by (cases st) (auto split: if_splits)
qed simp

lemma normal_clean_comps: "normal (is_abs p) (clean_comps p)"
  unfolding clean_comps_def
  by (rule normal_clean_elems) (auto simp: normal_def dest: split_elems_no_sep)

section \<open>Cleaned paths\<close>

definition path_of :: "bool \<Rightarrow> string list \<Rightarrow> string" where
  "path_of rooted es = (if rooted then slash # join_with ''/'' es else if es = [] then ''.'' else join_with ''/'' es)"

lemma Clean_path_of: "Clean p = path_of (is_abs p) (clean_comps p)"
  by (simp add: Clean_def path_of_def)

lemma join_snoc: "xs \<noteq> [] \<Longrightarrow> join_with sep (xs @ [x]) = join_with sep xs @ sep @ x"
  by (induction sep xs rule: join_with.induct) auto

lemma path_Split_slash: "slash \<notin> set b \<Longrightarrow> path_Split (a @ slash # b) = (a @ [slash], b)"
  by (simp add: path_Split_def takeWhile_append Let_def)

lemma path_Split_plain: "slash \<notin> set b \<Longrightarrow> path_Split b = ([], b)"
proof -
  assume "slash \<notin> set b"
  then have "takeWhile (\<lambda>c. c \<noteq> slash) (rev b) = rev b" by (auto simp: takeWhile_eq_all_conv)
  then show ?thesis unfolding path_Split_def Let_def by (simp only: rev_rev_ident diff_self_eq_0 take_0)
qed

lemma split_append_slash: "split_on c (s @ c # t) = split_on c s @ split_on c t"
  by (induction s) (auto split: list.splits)

lemma path_of_proper:
  assumes "normal rooted es"
  shows is_abs_path_of [simp]: "is_abs (path_of rooted es) = rooted"
    and clean_comps_path_of: "clean_comps (path_of rooted es) = es"
    and Clean_id: "Clean (path_of rooted es) = path_of rooted es"
    and Clean_path_slash: "es \<noteq> [] \<Longrightarrow> Clean (path_of rooted es @ [slash]) = path_of rooted es"
proof -
  have p: "\<forall>x \<in> set es. x \<noteq> [] \<and> slash \<notin> set x" using assms by (auto simp: normal_def proper_def list_all_iff)
  show a: "is_abs (path_of rooted es) = rooted"
    using join_comps_not_abs [OF p] by (simp add: path_of_def)
  have s: "es \<noteq> [] \<Longrightarrow> split_on slash (join_with ''/'' es) = es" using split_join [of es slash] p by blast
  have id: "clean_elems rooted [] es = es" using clean_elems_normal [OF assms, of "[]"] by simp
  show c: "clean_comps (path_of rooted es) = es"
    using s id unfolding clean_comps_def a by (cases "es = []"; cases rooted) (simp_all add: path_of_def)
  show "Clean (path_of rooted es) = path_of rooted es"
    unfolding Clean_path_of a c ..
  assume e: "es \<noteq> []"
  have a': "is_abs (path_of rooted es @ [slash]) = rooted"
  proof -
    from e have "path_of rooted es \<noteq> []" using p by (cases es rule: remdups_adj.cases) (auto simp: path_of_def)
    with a show ?thesis by (simp add: is_abs_def)
  qed
  have "clean_elems rooted [] (es @ [[]]) = es" using clean_elems_normal [OF assms, of "[[]]"] by simp
  with s [OF e] e have "clean_comps (path_of rooted es @ [slash]) = es"
    unfolding clean_comps_def a' by (cases rooted) (simp_all add: path_of_def split_append_slash)
  then show "Clean (path_of rooted es @ [slash]) = path_of rooted es" unfolding Clean_path_of a' by simp
qed

lemma Dir_path_of:
  assumes "normal rooted es"
  shows "Dir (path_of rooted es) = path_of rooted (butlast es)"
proof (cases es rule: rev_cases)
  case Nil
  then show ?thesis by (cases rooted) (simp_all add: path_of_def Dir_def path_Split_def Clean_def clean_comps_def is_abs_def)
next
  case (snoc xs x)
  have x: "slash \<notin> set x" using assms snoc by (simp add: normal_def proper_def)
  have n: "normal rooted xs" using normal_butlast [OF assms] snoc by simp
  show ?thesis
  proof (cases "xs = []")
    case True
    show ?thesis
    proof (cases rooted)
      case r: True
      with True snoc have "path_of rooted es = [] @ slash # x" by (simp add: path_of_def)
      then have "Dir (path_of rooted es) = Clean ''/''" using path_Split_slash [OF x, of "[]"] by (simp add: Dir_def)
      with r True snoc show ?thesis by (simp add: Clean_def clean_comps_def path_of_def)
    next
      case False
      with True snoc have "path_of rooted es = x" by (simp add: path_of_def)
      with False True snoc path_Split_plain [OF x] show ?thesis
        by (simp add: Dir_def Clean_def clean_comps_def path_of_def is_abs_def)
    qed
  next
    case False
    with snoc have "path_of rooted es = path_of rooted xs @ slash # x" by (simp add: path_of_def join_snoc)
    then have "Dir (path_of rooted es) = Clean (path_of rooted xs @ [slash])" using path_Split_slash [OF x] by (simp add: Dir_def)
    also have "\<dots> = path_of rooted xs" by (rule Clean_path_slash [OF n False])
    finally show ?thesis using snoc by simp
  qed
qed

lemma Rel_path_of:
  assumes "normal True es"
  shows "Rel ''/'' (path_of True es) = Inr (path_of False es)"
proof -
  have root: "''/'' = path_of True []" "normal True []" by (simp_all add: path_of_def normal_def)
  have n: "es \<noteq> [] \<Longrightarrow> path_of True es \<noteq> path_of True []"
    using clean_comps_path_of [OF assms] clean_comps_path_of [OF root(2)] by metis
  have "clean_comps ''/'' = []" "Clean ''/'' = ''/''" by (simp_all add: Clean_def clean_comps_def)
  with n is_abs_path_of [OF assms] clean_comps_path_of [OF assms] Clean_id [OF assms] show ?thesis
    by (cases "es = []") (auto simp: Rel_def path_of_def)
qed

lemma Join_cases: "Join es = [] \<or> (\<exists>rooted cs. normal rooted cs \<and> Join es = path_of rooted cs)"
  by (auto simp: Join_def Clean_path_of intro: normal_clean_comps split: list.splits)

section \<open>Going up gets shorter\<close>

definition weight :: "string list \<Rightarrow> nat" where
  "weight es = sum_list (map (\<lambda>e. Suc (length e)) es)"

lemma weight_clean_elems:
  "weight (clean_elems rooted st es) \<le> weight (rev st) + weight (filter (\<lambda>e. e \<noteq> []) es)"
  by (induction rooted st es rule: clean_elems.induct) (auto simp: weight_def rev_map [symmetric] split: if_splits list.splits)

lemma weight_filter: "weight (filter P es) \<le> weight es"
  by (induction es) (auto simp: weight_def)

lemma length_join: "es \<noteq> [] \<Longrightarrow> Suc (length (join_with [c] es)) = weight es"
  by (induction "[c]" es rule: join_with.induct) (auto simp: weight_def)

lemma length_split: "weight (split_on c s) = Suc (length s)"
  using length_join [of "split_on c s" c] by (simp add: join_split)

lemma Dir_shorter:
  assumes "Dir p \<noteq> ''/''" "Dir p \<noteq> ''.''"
  shows "length (Dir p) < length p"
proof -
  define q where "q = fst (path_Split p)"
  have q: "q = [] \<or> (\<exists>s. q = s @ [slash])" "length q \<le> length p"
  proof -
    let ?f = "takeWhile (\<lambda>c. c \<noteq> slash) (rev p)" and ?b = "dropWhile (\<lambda>c. c \<noteq> slash) (rev p)"
    have "p = rev ?b @ rev ?f" by (simp only: rev_append [symmetric] takeWhile_dropWhile_id rev_rev_ident)
    then have "take (length p - length ?f) p = rev ?b"
      by (metis append_eq_conv_conj diff_add_inverse2 length_append length_rev)
    then have "q = rev ?b" by (simp add: q_def path_Split_def Let_def)
    moreover have "?b = [] \<or> hd ?b = slash" using hd_dropWhile [of "\<lambda>c. c \<noteq> slash" "rev p"] by auto
    ultimately show "q = [] \<or> (\<exists>s. q = s @ [slash])" by (cases ?b) auto
    show "length q \<le> length p" by (simp add: q_def path_Split_def Let_def)
  qed
  have d: "Dir p = Clean q" by (simp add: Dir_def q_def)
  with assms have c: "clean_comps q \<noteq> []" by (auto simp: Clean_def split: if_splits)
  then obtain s where s: "q = s @ [slash]" using q(1) by (auto simp: clean_comps_def is_abs_def)
  have sp: "split_on slash q = split_on slash s @ [[]]" unfolding s by (simp add: split_append_slash)
  have w: "weight (clean_comps q) \<le> weight (filter (\<lambda>e. e \<noteq> []) (split_on slash q))"
    using weight_clean_elems [of "is_abs q" "[]" "split_on slash q"] by (simp add: clean_comps_def weight_def)
  have "length (Clean q) < length q"
  proof (cases "is_abs q")
    case True
    with s c obtain s' where "s = slash # s'" by (cases s) (auto simp: clean_comps_def)
    with sp have "split_on slash q = [] # split_on slash s' @ [[]]" by simp
    with w length_split [of slash q] weight_filter [of "\<lambda>e. e \<noteq> []" "split_on slash s'"] length_join [OF c, of slash] True show ?thesis
      by (simp add: Clean_def) (simp add: weight_def)
  next
    case False
    with w c sp length_split [of slash q] weight_filter [of "\<lambda>e. e \<noteq> []" "split_on slash s"] length_join [OF c, of slash] show ?thesis
      by (simp add: Clean_def) (simp add: weight_def)
  qed
  with d q(2) show ?thesis by simp
qed

end
