(* ===== verification/Cp_Workers.thy ===== *)
theory Cp_Workers
  imports Go_Io
begin

text \<open>
  The parallel copy of \<^verbatim>\<open>src/cmds/cp/cp.go\<close>: the goroutine \<^verbatim>\<open>nextOff\<close> hands out offsets, the
  \<^verbatim>\<open>worker\<close>s of a file copy one block of 8192 bytes for each offset they take, and
  \<^verbatim>\<open>copyOneFile\<close> starts them and collects their errors. All goroutines of the process are interleaved: the
  state has every worker ever started, also those of files whose copy has already returned. A file is a job with a
  number, in the order in which the command copies them.
\<close>

section \<open>State\<close>

definition buffSize :: nat where
  "buffSize = 8192"

text \<open>
  Where a worker stands: at \<^verbatim>\<open>o := <-offchan\<close>, before \<^verbatim>\<open>s.ReadAt(bp, o)\<close> with the
  variables \<^verbatim>\<open>o\<close>, \<^verbatim>\<open>l\<close> and \<^verbatim>\<open>len(bp)\<close>, before
  \<^verbatim>\<open>d.WriteAt(nb, o)\<close> with \<^verbatim>\<open>o\<close>, \<^verbatim>\<open>l\<close> and \<^verbatim>\<open>nb\<close>, or ended.
\<close>

datatype worker_pc =
    WTake
  | WReadAt nat int nat
  | WWriteAt nat int bytes
  | WEnd

record worker =
  w_job :: nat
  w_pc :: worker_pc

text \<open>
  Where the main goroutine stands: before \<^verbatim>\<open>zerochan <- 0\<close> of a job, before the receipt of result \<open>i\<close> of a
  job, returning from \<^verbatim>\<open>copyOneFile\<close> with an error or nil (the deferred \<^verbatim>\<open>Close\<close>s of
  \<^verbatim>\<open>copyFile\<close> come next), or past the last job.
\<close>

datatype main_pc =
    MZero nat
  | MRecv nat nat
  | MRet nat "goerr option"
  | MDone

record cp_env =
  nwork :: nat
  njobs :: nat
  src_at :: "nat \<Rightarrow> reader_at"
  dst_at :: "nat \<Rightarrow> bytes writer_at"

record cp_state =
  nextOff :: nat
  workers :: "worker list"
  fail_chan :: "nat \<Rightarrow> goerr option list"
  closed :: "nat \<Rightarrow> bool"
  dst_data :: "nat \<Rightarrow> bytes"
  cmain :: main_pc
  results :: "goerr option list"

definition cp_start :: cp_state where
  "cp_start = \<lparr>nextOff = 0, workers = [], fail_chan = (\<lambda>_. []), closed = (\<lambda>_. False), dst_data = (\<lambda>_. []),
     cmain = MZero 0, results = []\<rparr>"

section \<open>Steps\<close>

definition send_fail :: "nat \<Rightarrow> goerr option \<Rightarrow> cp_state \<Rightarrow> cp_state" where
  "send_fail j err s = s\<lparr>fail_chan := (fail_chan s)(j := fail_chan s j @ [err])\<rparr>"

definition file_closed :: goerr where
  "file_closed = Errorf ''use of closed file''"

definition worker_read :: "cp_env \<Rightarrow> nat \<Rightarrow> nat \<Rightarrow> int \<Rightarrow> nat \<Rightarrow> cp_state \<Rightarrow> worker_pc \<times> cp_state" where
  "worker_read e j off l m s =
     (case (if closed s j then ([], Some file_closed) else src_at e j m (int off)) of (b, err) \<Rightarrow>
        if err \<noteq> None \<and> err \<noteq> Some EOF then (WEnd, send_fail j (Some (Errorf ''reading %s at %v: %v'')) s)
        else if b = [] then (WEnd, send_fail j None s)
        else (WWriteAt off l b, s))"

definition worker_write :: "cp_env \<Rightarrow> nat \<Rightarrow> nat \<Rightarrow> int \<Rightarrow> bytes \<Rightarrow> cp_state \<Rightarrow> worker_pc \<times> cp_state" where
  "worker_write e j off l nb s =
     (case (if closed s j then (Some file_closed, dst_data s j) else dst_at e j nb (int off) (dst_data s j)) of (err, d) \<Rightarrow>
        let s' = s\<lparr>dst_data := (dst_data s)(j := d)\<rparr>; n = length nb
        in if err \<noteq> None then (WEnd, send_fail j (Some (Errorf ''writing %s: %v'')) s')
           else if l - int n = 0 then (WTake, s')
           else (WReadAt (off + n) (l - int n) (buffSize - n), s'))"

text \<open>
  \<^verbatim>\<open>worker\<close>, one step. Taking an offset is a rendezvous with \<^verbatim>\<open>nextOff\<close>, which then moves on by
  one block; that goroutine is always ready for it.
\<close>

definition worker_step :: "cp_env \<Rightarrow> worker \<Rightarrow> cp_state \<Rightarrow> (worker \<times> cp_state) option" where
  "worker_step e w s =
     (let j = w_job w
      in case w_pc w of
           WTake \<Rightarrow> Some (w\<lparr>w_pc := WReadAt (nextOff s) (int buffSize) buffSize\<rparr>, s\<lparr>nextOff := nextOff s + buffSize\<rparr>)
         | WReadAt off l m \<Rightarrow> (case worker_read e j off l m s of (pc, s') \<Rightarrow> Some (w\<lparr>w_pc := pc\<rparr>, s'))
         | WWriteAt off l nb \<Rightarrow> (case worker_write e j off l nb s of (pc, s') \<Rightarrow> Some (w\<lparr>w_pc := pc\<rparr>, s'))
         | WEnd \<Rightarrow> None)"

text \<open>
  \<^verbatim>\<open>copyOneFile\<close> and the return from \<^verbatim>\<open>copyFile\<close>: reset the offset, start the workers,
  receive their results until the first error, close the files, go on to the next job.
\<close>

definition copyOneFile_step :: "cp_env \<Rightarrow> cp_state \<Rightarrow> cp_state option" where
  "copyOneFile_step e s =
     (case cmain s of
        MZero j \<Rightarrow>
          Some (s\<lparr>nextOff := 0, workers := workers s @ replicate (nwork e) \<lparr>w_job = j, w_pc = WTake\<rparr>,
            cmain := if nwork e = 0 then MRet j None else MRecv j 0\<rparr>)
      | MRecv j i \<Rightarrow>
          (case fail_chan s j of
             [] \<Rightarrow> None
           | err # rest \<Rightarrow>
               Some (s\<lparr>fail_chan := (fail_chan s)(j := rest),
                 cmain := if err \<noteq> None then MRet j err
                          else if Suc i < nwork e then MRecv j (Suc i) else MRet j None\<rparr>))
      | MRet j err \<Rightarrow>
          Some (s\<lparr>closed := (closed s)(j := True), results := results s @ [err],
            cmain := if Suc j < njobs e then MZero (Suc j) else MDone\<rparr>)
      | MDone \<Rightarrow> None)"

inductive cp_step :: "cp_env \<Rightarrow> cp_state \<Rightarrow> cp_state \<Rightarrow> bool" for e where
  main: "copyOneFile_step e s = Some s' \<Longrightarrow> cp_step e s s'"
| work: "cmain s \<noteq> MDone \<Longrightarrow> workers s = us @ w # vs \<Longrightarrow> worker_step e w s = Some (w', s') \<Longrightarrow>
    cp_step e s (s'\<lparr>workers := us @ w' # vs\<rparr>)"

inductive_cases cp_stepE: "cp_step e s s'"

section \<open>Contract of the files\<close>

text \<open>
  The files of the jobs: a read gives the bytes of the source at the offset or fails; a write puts the bytes at
  the offset or fails. Nothing is assumed about when they fail.
\<close>

locale copy_files =
  fixes e :: cp_env and content :: "nat \<Rightarrow> bytes"
  assumes workers_pos: "0 < nwork e"
    and jobs_pos: "0 < njobs e"
    and read: "(\<exists>b x. src_at e j m (int off) = (b, Some x) \<and> x \<noteq> EOF) \<or> src_at e j m (int off) = file_at (content j) m (int off)"
    and wrt: "(\<exists>x d'. dst_at e j b (int off) d = (Some x, d')) \<or> dst_at e j b (int off) d = file_write_at b (int off) d"
begin

definition owns :: "worker \<Rightarrow> nat \<Rightarrow> bool" where
  "owns w x = (case w_pc w of
     WReadAt off l m \<Rightarrow> off \<le> x \<and> int x < int off + l
   | WWriteAt off l b \<Rightarrow> off \<le> x \<and> int x < int off + l
   | _ \<Rightarrow> False)"

definition pc_ok :: "nat \<Rightarrow> nat \<Rightarrow> worker_pc \<Rightarrow> bool" where
  "pc_ok j lim pc = (case pc of
     WTake \<Rightarrow> True
   | WReadAt off l m \<Rightarrow> l = 8192 \<and> m = 8192 \<and> off + 8192 \<le> lim \<or> off = length (content j) \<and> off \<le> lim \<and> 0 < m
   | WWriteAt off l b \<Rightarrow> l = 8192 \<and> off + 8192 \<le> lim \<and> b = take 8192 (drop off (content j)) \<and> b \<noteq> []
   | WEnd \<Rightarrow> True)"

definition running :: "cp_state \<Rightarrow> nat" where
  "running s = length (filter (\<lambda>w. w_pc w \<noteq> WEnd) (workers s))"

definition data_ok :: "cp_state \<Rightarrow> nat \<Rightarrow> bool" where
  "data_ok s j \<longleftrightarrow> length (dst_data s j) \<le> length (content j) \<and>
     (\<forall>x < length (content j). x < nextOff s \<longrightarrow>
        x < length (dst_data s j) \<and> dst_data s j ! x = content j ! x \<or> (\<exists>w \<in> set (workers s). owns w x))"

definition fresh :: "cp_state \<Rightarrow> nat \<Rightarrow> bool" where
  "fresh s j \<longleftrightarrow> (\<forall>k \<ge> j. fail_chan s k = [] \<and> dst_data s k = [] \<and> \<not> closed s k)"

definition copied :: "cp_state \<Rightarrow> nat \<Rightarrow> bool" where
  "copied s j \<longleftrightarrow> (\<forall>k < j. dst_data s k = content k)"

definition working :: "cp_state \<Rightarrow> nat \<Rightarrow> nat \<Rightarrow> bool" where
  "working s j i \<longleftrightarrow>
     (\<forall>w \<in> set (workers s). w_pc w = WEnd \<or> w_job w = j \<and> pc_ok j (nextOff s) (w_pc w)) \<and>
     running s + i + length (fail_chan s j) = nwork e \<and> i < nwork e \<and> \<not> closed s j \<and>
     (0 < i \<or> None \<in> set (fail_chan s j) \<longrightarrow> length (content j) \<le> nextOff s) \<and>
     (list_all (\<lambda>err. err = None) (fail_chan s j) \<longrightarrow> data_ok s j)"

definition at_job :: "cp_state \<Rightarrow> nat \<Rightarrow> bool" where
  "at_job s j \<longleftrightarrow> j < njobs e \<and> length (results s) = j"

definition good :: "cp_state \<Rightarrow> bool" where
  "good s = (case cmain s of
     MZero j \<Rightarrow> at_job s j \<and> running s = 0 \<and> copied s j \<and> fresh s j
   | MRecv j i \<Rightarrow> at_job s j \<and> working s j i \<and> copied s j \<and> fresh s (Suc j)
   | MRet j err \<Rightarrow> err = None \<longrightarrow> at_job s j \<and> running s = 0 \<and> copied s (Suc j) \<and> fresh s (Suc j)
   | MDone \<Rightarrow> length (results s) = njobs e \<and> copied s (njobs e))"

definition clean :: "cp_state \<Rightarrow> bool" where
  "clean s \<longleftrightarrow> list_all (\<lambda>err. err = None) (results s) \<and> (\<forall>j err. cmain s = MRet j err \<longrightarrow> err = None)"

lemma runningD:
  "workers s = us @ w # vs \<Longrightarrow> running s = running (s\<lparr>workers := us @ vs\<rparr>) + (if w_pc w = WEnd then 0 else 1)"
  by (simp add: running_def)

lemma running_0: "running s = 0 \<longleftrightarrow> (\<forall>w \<in> set (workers s). w_pc w = WEnd)"
  by (auto simp: running_def filter_empty_conv)

lemma idle_no_step: "running s = 0 \<Longrightarrow> w \<in> set (workers s) \<Longrightarrow> worker_step e w s = None"
  by (simp add: running_0 worker_step_def)

lemma pc_ok_mono: "pc_ok j lim pc \<Longrightarrow> lim \<le> lim' \<Longrightarrow> pc_ok j lim' pc"
  by (auto simp: pc_ok_def split: worker_pc.splits)

lemma working_update:
  assumes w: "working s j i" "workers s = us @ w # vs" "w_pc w \<noteq> WEnd"
    and s': "closed s' = closed s" "nextOff s \<le> nextOff s'"
    and w': "w_pc w' \<noteq> WEnd \<and> w_job w' = j \<and> pc_ok j (nextOff s') (w_pc w') \<and> fail_chan s' j = fail_chan s j \<or>
      w_pc w' = WEnd \<and> fail_chan s' j = fail_chan s j @ [err] \<and> (err = None \<longrightarrow> length (content j) \<le> nextOff s')"
    and data: "list_all (\<lambda>err. err = None) (fail_chan s' j) \<Longrightarrow> data_ok s j \<Longrightarrow> data_ok (s'\<lparr>workers := us @ w' # vs\<rparr>) j"
  shows "working (s'\<lparr>workers := us @ w' # vs\<rparr>) j i"
proof -
  have run: "running s = running (s\<lparr>workers := us @ vs\<rparr>) + 1" using runningD [OF w(2)] w(3) by simp
  have run': "running (s'\<lparr>workers := us @ w' # vs\<rparr>) = running (s\<lparr>workers := us @ vs\<rparr>) + (if w_pc w' = WEnd then 0 else 1)"
    by (simp add: running_def)
  have pcs: "w_pc v = WEnd \<or> w_job v = j \<and> pc_ok j (nextOff s') (w_pc v)" if "v \<in> set (us @ w' # vs)" for v
    using that w(1,2) w' pc_ok_mono [OF _ s'(2)] by (auto simp: working_def)
  have old: "list_all (\<lambda>err. err = None) (fail_chan s' j) \<Longrightarrow> list_all (\<lambda>err. err = None) (fail_chan s j)"
    using w' by auto
  have nil: "None \<in> set (fail_chan s' j) \<Longrightarrow> None \<in> set (fail_chan s j) \<or> length (content j) \<le> nextOff s'"
    using w' by auto
  show ?thesis
    unfolding working_def
  proof (intro conjI ballI impI)
    show "running (s'\<lparr>workers := us @ w' # vs\<rparr>) + i + length (fail_chan (s'\<lparr>workers := us @ w' # vs\<rparr>) j) = nwork e"
      using w(1) w' run run' by (auto simp: working_def)
    show "length (content j) \<le> nextOff (s'\<lparr>workers := us @ w' # vs\<rparr>)"
      if "0 < i \<or> None \<in> set (fail_chan (s'\<lparr>workers := us @ w' # vs\<rparr>) j)"
      using that nil w(1) s'(2) by (auto simp: working_def)
  qed (use w(1) pcs data old s' in \<open>simp_all add: working_def\<close>)
qed

lemma working_take:
  assumes w: "working s j i" "workers s = us @ w # vs" and pc: "w_pc w = WTake"
    and st: "worker_step e w s = Some (w', s')"
  shows "working (s'\<lparr>workers := us @ w' # vs\<rparr>) j i"
proof (rule working_update [OF w])
  have eq: "w' = w\<lparr>w_pc := WReadAt (nextOff s) 8192 8192\<rparr>" "s' = s\<lparr>nextOff := nextOff s + 8192\<rparr>"
    using st pc by (simp_all add: worker_step_def buffSize_def)
  have job: "w_job w = j" using w pc by (auto simp: working_def)
  show "w_pc w \<noteq> WEnd" using pc by simp
  show "closed s' = closed s" "nextOff s \<le> nextOff s'" by (simp_all add: eq)
  show "w_pc w' \<noteq> WEnd \<and> w_job w' = j \<and> pc_ok j (nextOff s') (w_pc w') \<and> fail_chan s' j = fail_chan s j \<or>
      w_pc w' = WEnd \<and> fail_chan s' j = fail_chan s j @ [None] \<and> (None = None \<longrightarrow> length (content j) \<le> nextOff s')"
    by (simp add: eq job pc_ok_def)
  assume d: "data_ok s j"
  show "data_ok (s'\<lparr>workers := us @ w' # vs\<rparr>) j"
    unfolding data_ok_def
  proof (intro conjI allI impI)
    show "length (dst_data (s'\<lparr>workers := us @ w' # vs\<rparr>) j) \<le> length (content j)"
      using d by (simp add: data_ok_def eq)
    fix x
    assume x: "x < length (content j)" "x < nextOff (s'\<lparr>workers := us @ w' # vs\<rparr>)"
    have o: "owns w' x" if "\<not> x < nextOff s" using x(2) that by (simp add: owns_def eq)
    have "\<not> owns w x" using pc by (simp add: owns_def)
    with d x(1) w(2) have "x < nextOff s \<Longrightarrow> x < length (dst_data s j) \<and> dst_data s j ! x = content j ! x \<or>
        (\<exists>w \<in> set (us @ w' # vs). owns w x)" by (auto simp: data_ok_def)
    with o show "x < length (dst_data (s'\<lparr>workers := us @ w' # vs\<rparr>) j) \<and> dst_data (s'\<lparr>workers := us @ w' # vs\<rparr>) j ! x = content j ! x \<or>
        (\<exists>w \<in> set (workers (s'\<lparr>workers := us @ w' # vs\<rparr>)). owns w x)"
      by (cases "x < nextOff s") (auto simp: eq)
  qed
qed

lemma working_read:
  assumes w: "working s j i" "workers s = us @ w # vs" and pc: "w_pc w = WReadAt off l m"
    and st: "worker_step e w s = Some (w', s')"
  shows "working (s'\<lparr>workers := us @ w' # vs\<rparr>) j i"
proof -
  have job: "w_job w = j" "\<not> closed s j" "pc_ok j (nextOff s) (WReadAt off l m)" using w pc by (auto simp: working_def)
  let ?b = "take m (drop off (content j))"
  consider (err) "w' = w\<lparr>w_pc := WEnd\<rparr>" "s' = send_fail j (Some (Errorf ''reading %s at %v: %v'')) s"
    | (eof) "w' = w\<lparr>w_pc := WEnd\<rparr>" "s' = send_fail j None s" "?b = []"
    | (some) "w' = w\<lparr>w_pc := WWriteAt off l ?b\<rparr>" "s' = s" "?b \<noteq> []"
    using st pc job read [of j m off]
    by (auto simp: worker_step_def worker_read_def file_at_def Let_def split: prod.splits if_splits)
  then show ?thesis
  proof cases
    case err
    show ?thesis
      by (rule working_update [OF w, where err = "Some (Errorf ''reading %s at %v: %v'')"])
        (simp_all add: pc err send_fail_def)
  next
    case eof
    with job(3) have size: "length (content j) \<le> off" "off \<le> nextOff s" by (auto simp: pc_ok_def)
    have "\<not> owns w x" if "x < length (content j)" for x using that pc size(1) by (simp add: owns_def)
    with w(2) have "data_ok s j \<Longrightarrow> data_ok (s'\<lparr>workers := us @ w' # vs\<rparr>) j"
      by (auto simp: data_ok_def eof(1,2) send_fail_def)
    with size show ?thesis
      by (intro working_update [OF w, where err = None]) (simp_all add: pc eof(1,2) send_fail_def)
  next
    case some
    then have "off < length (content j)" by simp
    with job(3) have pc': "l = 8192" "m = 8192" "off + 8192 \<le> nextOff s" by (auto simp: pc_ok_def)
    have "owns w = owns w'" by (rule ext) (simp add: owns_def some(1) pc)
    with w(2) have "data_ok s j \<Longrightarrow> data_ok (s'\<lparr>workers := us @ w' # vs\<rparr>) j"
      by (simp add: data_ok_def some(2))
    with pc' job some(3) show ?thesis
      by (intro working_update [OF w, where err = None]) (simp_all add: pc some(1,2) pc_ok_def)
  qed
qed

lemma working_write:
  assumes w: "working s j i" "workers s = us @ w # vs" and pc: "w_pc w = WWriteAt off l b"
    and st: "worker_step e w s = Some (w', s')"
  shows "working (s'\<lparr>workers := us @ w' # vs\<rparr>) j i"
proof -
  have job: "w_job w = j" "\<not> closed s j" and oks: "l = 8192" "off + 8192 \<le> nextOff s"
      "b = take 8192 (drop off (content j))" "b \<noteq> []"
    using w pc by (auto simp: working_def pc_ok_def)
  consider (err) d where "w' = w\<lparr>w_pc := WEnd\<rparr>"
      "s' = send_fail j (Some (Errorf ''writing %s: %v'')) (s\<lparr>dst_data := (dst_data s)(j := d)\<rparr>)"
    | (ok) pc' where "w' = w\<lparr>w_pc := pc'\<rparr>" "s' = s\<lparr>dst_data := (dst_data s)(j := put_at (dst_data s j) off b)\<rparr>"
        "pc' = (if length b = 8192 then WTake else WReadAt (off + length b) (8192 - int (length b)) (8192 - length b))"
  proof (cases "dst_at e j b (int off) (dst_data s j) = file_write_at b (int off) (dst_data s j)")
    case True
    with st pc job oks(1,4) ok show ?thesis
      by (simp add: worker_step_def worker_write_def file_write_at_def Let_def buffSize_def split: if_splits)
  next
    case False
    with wrt [of j b off "dst_data s j"] obtain x d where "dst_at e j b (int off) (dst_data s j) = (Some x, d)" by blast
    with st pc job show ?thesis by (intro err [of d]) (simp_all add: worker_step_def worker_write_def Let_def)
  qed
  then show ?thesis
  proof cases
    case err
    show ?thesis
      by (rule working_update [OF w, where err = "Some (Errorf ''writing %s: %v'')"])
        (simp_all add: pc err send_fail_def)
  next
    case ok
    have off: "off + length b \<le> length (content j)" using oks(3,4) by (cases "off < length (content j)") auto
    have len: "length b = min 8192 (length (content j) - off)" using oks(3) by simp
    have "data_ok (s'\<lparr>workers := us @ w' # vs\<rparr>) j" if d: "data_ok s j"
      unfolding data_ok_def
    proof (intro conjI allI impI)
      let ?d = "put_at (dst_data s j) off b"
      show "length (dst_data (s'\<lparr>workers := us @ w' # vs\<rparr>) j) \<le> length (content j)"
        using d off by (simp add: data_ok_def ok(2) length_put_at)
      fix x
      assume x: "x < length (content j)" "x < nextOff (s'\<lparr>workers := us @ w' # vs\<rparr>)"
      have "x < length ?d \<and> ?d ! x = content j ! x \<or> (\<exists>v \<in> set (us @ vs). owns v x)"
      proof (cases "off \<le> x \<and> x < off + length b")
        case True
        then have "x < length ?d" by (simp add: length_put_at less_max_iff_disj)
        moreover have "b ! (x - off) = content j ! x"
        proof -
          have "x - off < 8192" "off \<le> x" "off \<le> length (content j)" using True len off by linarith+
          then show ?thesis by (subst oks(3)) simp
        qed
        ultimately show ?thesis using True by (simp add: put_at_nth)
      next
        case False
        with len x(1) have "\<not> owns w x" by (auto simp: owns_def pc oks(1))
        with d x w(2) have "x < length (dst_data s j) \<and> dst_data s j ! x = content j ! x \<or> (\<exists>v \<in> set (us @ vs). owns v x)"
          by (auto simp: data_ok_def ok(2))
        with False show ?thesis by (auto simp: put_at_nth length_put_at less_max_iff_disj)
      qed
      then show "x < length (dst_data (s'\<lparr>workers := us @ w' # vs\<rparr>) j) \<and>
          dst_data (s'\<lparr>workers := us @ w' # vs\<rparr>) j ! x = content j ! x \<or>
          (\<exists>w \<in> set (workers (s'\<lparr>workers := us @ w' # vs\<rparr>)). owns w x)"
        by (auto simp: ok(2))
    qed
    moreover have "pc' \<noteq> WEnd \<and> pc_ok j (nextOff s') pc'"
      using len off oks(2) by (auto simp: pc_ok_def ok(2,3))
    ultimately show ?thesis
      by (intro working_update [OF w, where err = None]) (simp_all add: pc ok(1,2) job)
  qed
qed

lemma worker_step_frame:
  assumes "worker_step e w s = Some (w', s')"
  shows "cmain s' = cmain s \<and> results s' = results s \<and> closed s' = closed s \<and>
    (\<forall>k. k \<noteq> w_job w \<longrightarrow> dst_data s' k = dst_data s k \<and> fail_chan s' k = fail_chan s k)"
  using assms
  by (auto simp: worker_step_def worker_read_def worker_write_def send_fail_def Let_def
      split: worker_pc.splits prod.splits if_splits)

lemma working_step:
  assumes "working s j i" and "workers s = us @ w # vs" and "worker_step e w s = Some (w', s')"
  shows "working (s'\<lparr>workers := us @ w' # vs\<rparr>) j i"
  using assms working_take [OF assms(1,2) _ assms(3)] working_read [OF assms(1,2) _ assms(3)]
    working_write [OF assms(1,2) _ assms(3)]
  by (cases "w_pc w") (auto simp: worker_step_def)

lemma work_good:
  assumes "good s" and "clean s" and "cmain s \<noteq> MDone" and ws: "workers s = us @ w # vs"
    and st: "worker_step e w s = Some (w', s')"
  shows "good (s'\<lparr>workers := us @ w' # vs\<rparr>)"
proof (cases "\<exists>j i. cmain s = MRecv j i")
  case True
  then obtain j i where m: "cmain s = MRecv j i" by blast
  with assms(1) have g: "working s j i" "copied s j" "fresh s (Suc j)" "at_job s j" by (simp_all add: good_def)
  have "w_job w = j" using g(1) ws st by (auto simp: working_def worker_step_def)
  with worker_step_frame [OF st] g(2,3) have "copied s' j" "fresh s' (Suc j)"
    by (simp_all add: copied_def fresh_def)
  with working_step [OF g(1) ws st] worker_step_frame [OF st] m g(4) show ?thesis
    by (simp add: good_def copied_def fresh_def at_job_def)
next
  case False
  with assms(1-3) have "running s = 0" by (auto simp: good_def clean_def split: main_pc.splits)
  with idle_no_step [of s w] ws st show ?thesis by simp
qed

lemma data_ok_complete:
  assumes "data_ok s j" and "running s = 0" and "length (content j) \<le> nextOff s"
  shows "dst_data s j = content j"
proof (rule nth_equalityI)
  have all: "x < length (dst_data s j) \<and> dst_data s j ! x = content j ! x" if "x < length (content j)" for x
    using assms that by (fastforce simp: data_ok_def running_0 owns_def)
  then show "length (dst_data s j) = length (content j)"
    using assms(1) all [of "length (dst_data s j)"] by (cases "length (dst_data s j) < length (content j)") (auto simp: data_ok_def)
  with all show "dst_data s j ! x = content j ! x" if "x < length (dst_data s j)" for x using that by simp
qed

lemma copied_Suc: "copied s (Suc j) \<longleftrightarrow> copied s j \<and> dst_data s j = content j"
  by (auto simp: copied_def less_Suc_eq)

lemma main_good:
  assumes "good s" and "copyOneFile_step e s = Some s'" and "clean s'"
  shows "good s'"
proof (cases "cmain s")
  case (MZero j)
  with assms(1) have g: "running s = 0" "copied s j" "fresh s j" "at_job s j" by (simp_all add: good_def)
  have s': "s' = s\<lparr>nextOff := 0, workers := workers s @ replicate (nwork e) \<lparr>w_job = j, w_pc = WTake\<rparr>, cmain := MRecv j 0\<rparr>"
    using MZero assms(2) workers_pos by (simp add: copyOneFile_step_def)
  have "running s' = nwork e" using g(1) by (simp add: running_def s')
  with g workers_pos have "working s' j 0"
    by (auto simp: working_def s' running_0 fresh_def pc_ok_def data_ok_def)
  with g show ?thesis by (simp add: good_def s' copied_def fresh_def at_job_def)
next
  case (MRecv j i)
  with assms(1) have g: "working s j i" "copied s j" "fresh s (Suc j)" "at_job s j" by (simp_all add: good_def)
  obtain err rest where f: "fail_chan s j = err # rest"
    using MRecv assms(2) by (auto simp: copyOneFile_step_def split: list.splits)
  with MRecv assms(2) have s': "s' = s\<lparr>fail_chan := (fail_chan s)(j := rest),
      cmain := if err \<noteq> None then MRet j err else if Suc i < nwork e then MRecv j (Suc i) else MRet j None\<rparr>"
    by (simp add: copyOneFile_step_def)
  show ?thesis
  proof (cases "err = None")
    case False
    with assms(3) show ?thesis by (auto simp: clean_def s')
  next
    case True
    have size: "length (content j) \<le> nextOff s" using g(1) f True by (simp add: working_def)
    have frame: "copied s' j" "fresh s' (Suc j)" "at_job s' j"
      using g(2-4) by (auto simp: copied_def fresh_def at_job_def s')
    show ?thesis
    proof (cases "Suc i < nwork e")
      case more: True
      have "working s' j (Suc i)"
        using g(1) f True more size by (auto simp: working_def s' running_def data_ok_def)
      with frame more True show ?thesis by (simp add: good_def s')
    next
      case last: False
      have "running s + i + Suc (length rest) = nwork e" "i < nwork e" using g(1) f by (simp_all add: working_def)
      with last have "length rest = 0" "running s = 0" by linarith+
      with g(1) f True have "dst_data s j = content j"
        by (intro data_ok_complete size) (simp_all add: working_def)
      with frame last True \<open>running s = 0\<close> show ?thesis
        by (simp add: good_def s' copied_Suc running_def)
    qed
  qed
next
  case (MRet j err)
  have s': "s' = s\<lparr>closed := (closed s)(j := True), results := results s @ [err],
      cmain := if Suc j < njobs e then MZero (Suc j) else MDone\<rparr>"
    using MRet assms(2) by (simp add: copyOneFile_step_def)
  have "err = None" using assms(3) by (simp add: clean_def s')
  with MRet assms(1) have g: "running s = 0" "copied s (Suc j)" "fresh s (Suc j)" "at_job s j" by (simp_all add: good_def)
  then have "copied s' (Suc j)" "fresh s' (Suc j)" "running s' = 0"
    by (auto simp: copied_def fresh_def running_def s')
  moreover have "\<not> Suc j < njobs e \<Longrightarrow> copied s' (njobs e)"
    using \<open>copied s' (Suc j)\<close> by (simp add: copied_def)
  ultimately show ?thesis using g(4) by (auto simp: good_def at_job_def s')
next
  case MDone
  with assms(2) show ?thesis by (simp add: copyOneFile_step_def)
qed

lemma clean_back: "cp_step e s s' \<Longrightarrow> clean s' \<Longrightarrow> clean s"
proof (erule cp_stepE)
  assume "clean s'" "copyOneFile_step e s = Some s'"
  then show "clean s"
    by (auto simp: copyOneFile_step_def clean_def split: main_pc.splits list.splits if_splits)
next
  fix us w vs w' s''
  assume "clean s'" "s' = s''\<lparr>workers := us @ w' # vs\<rparr>" "worker_step e w s = Some (w', s'')"
  with worker_step_frame [of w s w' s''] show "clean s" by (simp add: clean_def)
qed

lemma step_good:
  assumes "cp_step e s s'" and "good s" and "clean s'"
  shows "good s'"
  using assms(1)
proof (rule cp_stepE)
  assume "copyOneFile_step e s = Some s'"
  with assms(2,3) show ?thesis by (blast intro: main_good)
next
  fix us w vs w' s''
  assume "s' = s''\<lparr>workers := us @ w' # vs\<rparr>" "cmain s \<noteq> MDone" "workers s = us @ w # vs"
    "worker_step e w s = Some (w', s'')"
  with work_good [OF assms(2) clean_back [OF assms(1,3)]] show ?thesis by blast
qed

lemma start_good: "good cp_start"
  using jobs_pos by (simp add: good_def cp_start_def running_def copied_def fresh_def at_job_def)

lemma reach_good: "(cp_step e)\<^sup>*\<^sup>* cp_start s \<Longrightarrow> clean s \<Longrightarrow> good s"
proof (induction rule: rtranclp_induct)
  case base
  then show ?case by (simp add: start_good)
next
  case (step s s')
  then show ?case using clean_back step_good by blast
qed

lemma done_copied:
  assumes "(cp_step e)\<^sup>*\<^sup>* cp_start s" and "cmain s = MDone" and "list_all (\<lambda>err. err = None) (results s)"
    and "j < njobs e"
  shows "dst_data s j = content j"
proof -
  have "good s" using assms(1-3) by (intro reach_good) (simp_all add: clean_def)
  with assms(2,4) show ?thesis by (simp add: good_def copied_def)
qed

end

text \<open>Files that never fail.\<close>

locale reliable_files = copy_files +
  assumes rd: "src_at e j = file_at (content j)"
    and wr: "dst_at e j = file_write_at"
begin

definition quiet :: "cp_state \<Rightarrow> bool" where
  "quiet s \<longleftrightarrow> good s \<and> clean s \<and> (\<forall>j. list_all (\<lambda>err. err = None) (fail_chan s j))"

definition weight :: "worker \<Rightarrow> nat" where
  "weight w =
     (let n = length (content (w_job w))
      in case w_pc w of
           WTake \<Rightarrow> 3
         | WReadAt off l m \<Rightarrow> 3 * (n - off) + 2
         | WWriteAt off l b \<Rightarrow> 3 * (n - off) + 1
         | WEnd \<Rightarrow> 0)"

definition ahead :: "nat \<Rightarrow> nat \<Rightarrow> nat" where
  "ahead j off = (3 * length (content j) + 2) * (length (content j) - off)"

definition later :: "nat \<Rightarrow> nat" where
  "later j = (\<Sum>k \<leftarrow> [j..<njobs e]. 3 + 3 * nwork e + ahead k 0)"

definition cp_measure :: "cp_state \<Rightarrow> nat" where
  "cp_measure s = (case cmain s of
     MZero j \<Rightarrow> 3 + 3 * nwork e + ahead j 0 + later (Suc j)
   | MRecv j i \<Rightarrow> 2 + (\<Sum>w \<leftarrow> workers s. weight w) + length (fail_chan s j) + ahead j (nextOff s) + later (Suc j)
   | MRet j err \<Rightarrow> 1 + later (Suc j)
   | MDone \<Rightarrow> 0)"

lemma later_Suc: "j < njobs e \<Longrightarrow> later j = 3 + 3 * nwork e + ahead j 0 + later (Suc j)"
  by (simp add: later_def upt_conv_Cons)

lemma ahead_take:
  "off < length (content j) \<Longrightarrow>
     ahead j (off + 8192) + 3 * length (content j) + 2 \<le> ahead j off"
proof -
  assume "off < length (content j)"
  then have "length (content j) - (off + 8192) + 1 \<le> length (content j) - off" by arith
  from mult_le_mono2 [OF this, of "3 * length (content j) + 2"] show ?thesis by (simp add: ahead_def)
qed

lemma ahead_end: "length (content j) \<le> off \<Longrightarrow> ahead j off = 0"
  by (simp add: ahead_def)

lemma worker_decreases:
  assumes "working s j i" and "workers s = us @ w # vs" and "worker_step e w s = Some (w', s')"
  shows "weight w' + length (fail_chan s' j) + ahead j (nextOff s') < weight w + length (fail_chan s j) + ahead j (nextOff s)
    \<and> (list_all (\<lambda>err. err = None) (fail_chan s j) \<longrightarrow> list_all (\<lambda>err. err = None) (fail_chan s' j))"
proof -
  have j: "w_job w = j" "\<not> closed s j" "pc_ok j (nextOff s) (w_pc w)"
    using assms by (auto simp: working_def worker_step_def)
  show ?thesis
  proof (cases "w_pc w")
    case WTake
    with assms(3) j show ?thesis
      using ahead_take [of "nextOff s" j] ahead_end [of j "nextOff s"] ahead_end [of j "nextOff s + 8192"]
      by (cases "nextOff s < length (content j)") (auto simp: worker_step_def weight_def buffSize_def Let_def)
  next
    case (WReadAt off l m)
    with assms(3) j show ?thesis
      by (auto simp: worker_step_def worker_read_def rd file_at_def weight_def send_fail_def Let_def split: if_splits)
  next
    case (WWriteAt off l b)
    have b: "b = take 8192 (drop off (content j))" "b \<noteq> []" "l = 8192"
      using j(3) unfolding WWriteAt pc_ok_def worker_pc.case by blast+
    have off: "off < length (content j)" using b(1,2) by simp
    have "0 < length b" using b(2) by simp
    moreover have "off + length b \<le> length (content j)" using off by (subst b(1)) simp
    ultimately have "3 * (length (content j) - (off + length b)) + 2 < 3 * (length (content j) - off) + 1"
        "3 < 3 * (length (content j) - off) + 1" using off by linarith+
    then show ?thesis
      using WWriteAt assms(3) j(1,2) b(2)
      by (auto simp: worker_step_def worker_write_def wr file_write_at_def weight_def Let_def split: if_splits)
  next
    case WEnd
    with assms(3) show ?thesis by (simp add: worker_step_def)
  qed
qed

lemma step_quiet:
  assumes "quiet s" and "cp_step e s s'"
  shows "quiet s' \<and> cp_measure s' < cp_measure s"
  using assms(2)
proof (rule cp_stepE)
  assume st: "copyOneFile_step e s = Some s'"
  have chan: "list_all (\<lambda>err. err = None) (fail_chan s j)" for j using assms(1) by (simp add: quiet_def)
  have "clean s'"
  proof (cases "cmain s")
    case (MRecv j i)
    moreover have "clean s" using assms(1) by (simp add: quiet_def)
    ultimately show ?thesis using st chan [of j]
      by (auto simp: clean_def copyOneFile_step_def split: list.splits if_splits)
  qed (use assms(1) st in \<open>auto simp: quiet_def clean_def copyOneFile_step_def split: if_splits\<close>)
  moreover have "list_all (\<lambda>err. err = None) (fail_chan s' j)" for j
    using st chan [of j]
    by (auto simp: copyOneFile_step_def split: main_pc.splits list.splits)
  moreover have "good s'" using main_good [OF _ st] assms(1) \<open>clean s'\<close> by (simp add: quiet_def)
  moreover have "cp_measure s' < cp_measure s"
  proof (cases "cmain s")
    case (MZero j)
    with assms(1) have "\<forall>w \<in> set (workers s). weight w = 0"
      by (simp add: quiet_def good_def running_0 weight_def Let_def)
    then have "(\<Sum>w \<leftarrow> workers s. weight w) = 0" by (simp add: sum_list_eq_0_iff)
    moreover have "fail_chan s j = []" using MZero assms(1) by (simp add: quiet_def good_def fresh_def)
    moreover have "weight \<lparr>w_job = j, w_pc = WTake\<rparr> = 3" by (simp add: weight_def)
    moreover have "s' = s\<lparr>nextOff := 0, workers := workers s @ replicate (nwork e) \<lparr>w_job = j, w_pc = WTake\<rparr>, cmain := MRecv j 0\<rparr>"
      using MZero st workers_pos by (simp add: copyOneFile_step_def)
    ultimately show ?thesis using MZero by (simp add: cp_measure_def sum_list_replicate)
  next
    case (MRecv j i)
    with st show ?thesis
      by (auto simp: copyOneFile_step_def cp_measure_def split: list.splits)
  next
    case (MRet j err)
    with st later_Suc [of "Suc j"] show ?thesis
      by (auto simp: copyOneFile_step_def cp_measure_def)
  next
    case MDone
    with st show ?thesis by (simp add: copyOneFile_step_def)
  qed
  ultimately show ?thesis by (simp add: quiet_def)
next
  fix us w vs w' s''
  assume st: "s' = s''\<lparr>workers := us @ w' # vs\<rparr>" "cmain s \<noteq> MDone" "workers s = us @ w # vs"
    "worker_step e w s = Some (w', s'')"
  have g: "good s" "clean s" using assms(1) by (simp_all add: quiet_def)
  then obtain j i where m: "cmain s = MRecv j i"
    using idle_no_step [of s w] st(2-4) by (auto simp: good_def clean_def split: main_pc.splits)
  with g have w: "working s j i" by (simp add: good_def)
  then have "w_job w = j" using st(3,4) by (auto simp: working_def worker_step_def)
  with worker_step_frame [OF st(4)] worker_decreases [OF w st(3,4)] work_good [OF g st(2-4)] assms(1) m st(1,3)
  show ?thesis
    by (auto simp: quiet_def clean_def cp_measure_def) metis+
qed

lemma worker_steps: "w_pc w \<noteq> WEnd \<Longrightarrow> \<exists>w' s'. worker_step e w s = Some (w', s')"
  by (cases "w_pc w") (auto simp: worker_step_def Let_def split: prod.splits)

lemma progress:
  assumes "quiet s" and "cmain s \<noteq> MDone"
  shows "\<exists>s'. cp_step e s s'"
proof (cases "copyOneFile_step e s")
  case None
  with assms(2) obtain j i where m: "cmain s = MRecv j i" "fail_chan s j = []"
    by (auto simp: copyOneFile_step_def split: main_pc.splits list.splits)
  with assms(1) have "running s \<noteq> 0" by (auto simp: quiet_def good_def working_def)
  then obtain w where w: "w \<in> set (workers s)" "w_pc w \<noteq> WEnd" by (auto simp: running_0)
  obtain us vs where "workers s = us @ w # vs" using w(1) by (meson split_list)
  with worker_steps [OF w(2), of s] assms(2) show ?thesis by (blast intro: cp_step.work)
qed (blast intro: cp_step.main)

lemma start_quiet: "quiet cp_start"
  using start_good by (simp add: quiet_def clean_def cp_start_def)

lemma run_quiet: "(cp_step e ^^ k) cp_start s \<Longrightarrow> quiet s \<and> k + cp_measure s \<le> cp_measure cp_start"
proof (induction k arbitrary: s)
  case 0
  then show ?case using start_quiet by auto
next
  case (Suc k)
  then obtain t where "quiet t" "k + cp_measure t \<le> cp_measure cp_start" "cp_step e t s" by auto
  with step_quiet [of t s] show ?case by auto
qed

lemma start_measure: "cp_measure cp_start = (\<Sum>j < njobs e. 3 + 3 * nwork e + ahead j 0)"
  using later_Suc [OF jobs_pos]
  by (simp add: cp_measure_def cp_start_def later_def interv_sum_list_conv_sum_set_nat atLeast0LessThan)

lemma run_result:
  assumes "(cp_step e ^^ k) cp_start s"
  shows "k \<le> (\<Sum>j < njobs e. 3 + 3 * nwork e + ahead j 0) \<and>
    ((\<exists>s'. cp_step e s s') \<or>
     cmain s = MDone \<and> results s = replicate (njobs e) None \<and> (\<forall>j < njobs e. dst_data s j = content j))"
proof -
  note q = run_quiet [OF assms]
  have "results s = replicate (njobs e) None \<and> (\<forall>j < njobs e. dst_data s j = content j)" if "cmain s = MDone"
    using q that
    by (auto simp: quiet_def good_def clean_def copied_def list_all_iff intro!: replicate_eqI)
  with q progress [of s] start_measure show ?thesis by (cases "cmain s = MDone") auto
qed

end

section \<open>Regular files\<close>

definition file_env :: "nat \<Rightarrow> bytes list \<Rightarrow> cp_env" where
  "file_env n cs = \<lparr>nwork = n, njobs = length cs, src_at = (\<lambda>j. file_at (cs ! j)), dst_at = (\<lambda>_. file_write_at)\<rparr>"

interpretation regular: reliable_files "file_env (Suc n) (c # cs)" "\<lambda>j. (c # cs) ! j" for n c cs
  by unfold_locales (simp_all add: file_env_def)

section \<open>Schedules\<close>

text \<open>A run given by its schedule: at each point the main goroutine or the worker with a number.\<close>

datatype turn = Main | Wrk nat

fun run_turn :: "cp_env \<Rightarrow> turn \<Rightarrow> cp_state \<Rightarrow> cp_state option" where
  "run_turn e Main s = copyOneFile_step e s"
| "run_turn e (Wrk i) s =
     (if cmain s = MDone \<or> length (workers s) \<le> i then None
      else (case worker_step e (workers s ! i) s of
              None \<Rightarrow> None
            | Some (w, s') \<Rightarrow> Some (s'\<lparr>workers := (workers s)[i := w]\<rparr>)))"

fun run_turns :: "cp_env \<Rightarrow> turn list \<Rightarrow> cp_state \<Rightarrow> cp_state option" where
  "run_turns e [] s = Some s"
| "run_turns e (t # ts) s = (case run_turn e t s of None \<Rightarrow> None | Some s' \<Rightarrow> run_turns e ts s')"

lemma run_turn_step:
  assumes "run_turn e t s = Some s'"
  shows "cp_step e s s'"
proof (cases t)
  case Main
  with assms show ?thesis by (auto intro: cp_step.main)
next
  case (Wrk i)
  with assms obtain w s'' where *: "cmain s \<noteq> MDone" "i < length (workers s)"
      "worker_step e (workers s ! i) s = Some (w, s'')" "s' = s''\<lparr>workers := (workers s)[i := w]\<rparr>"
    by (auto split: if_splits option.splits)
  from cp_step.work [OF *(1) id_take_nth_drop [OF *(2)] *(3)] * show ?thesis
    by (simp add: upd_conv_take_nth_drop)
qed

lemma run_turns_steps: "run_turns e ts s = Some s' \<Longrightarrow> (cp_step e ^^ length ts) s s'"
  by (induction ts arbitrary: s)
    (auto intro: relpowp_Suc_I2 run_turn_step simp del: relpowp.simps(2) split: option.splits)

lemma run_turns_reach: "run_turns e ts s = Some s' \<Longrightarrow> (cp_step e)\<^sup>*\<^sup>* s s'"
  by (blast dest: run_turns_steps relpowp_imp_rtranclp)

lemmas cp_eval = copyOneFile_step_def worker_step_def worker_read_def worker_write_def send_fail_def
  file_closed_def buffSize_def cp_start_def file_env_def file_at_def file_write_at_def

definition small_run :: "turn list" where
  "small_run = [Main, Wrk 0, Wrk 0, Wrk 0, Wrk 0, Main, Main]"

lemma small_run_ends:
  "\<exists>s. run_turns (file_env 1 [''ab'']) small_run cp_start = Some s \<and> cmain s = MDone \<and> results s = [None]"
  by (simp add: small_run_def cp_eval Let_def)

section \<open>Properties of the parallel copy\<close>

text \<open>
  C24. When cp reports success the files are complete: whatever the readers and writers do (each call either
  behaves like a regular file or fails) and however the workers, the offset counter and the main goroutine are
  interleaved, if the copy of every file returned nil then every destination has exactly the content of its source.
\<close>

theorem cp_success_is_complete:
  assumes "copy_files e content" and "(cp_step e)\<^sup>*\<^sup>* cp_start s"
    and "cmain s = MDone" and "list_all (\<lambda>err. err = None) (results s)" and "j < njobs e"
  shows "dst_data s j = content j"
  using copy_files.done_copied [OF assms] .

theorem cp_success_is_complete_witness:
  "copy_files (file_env 1 [''ab'']) ((!) [''ab'']) \<and>
   (\<exists>s. (cp_step (file_env 1 [''ab'']))\<^sup>*\<^sup>* cp_start s \<and> cmain s = MDone \<and> results s = [None] \<and> dst_data s 0 = ''ab'')"
proof -
  obtain s where s: "run_turns (file_env 1 [''ab'']) small_run cp_start = Some s" "cmain s = MDone" "results s = [None]"
    using small_run_ends by blast
  have env: "copy_files (file_env 1 [''ab'']) ((!) [''ab''])"
    using regular.copy_files_axioms [of 0 "''ab''" "[]"] by simp
  from cp_success_is_complete [OF env run_turns_reach [OF s(1)], of 0] s(2,3) have "dst_data s 0 = ''ab''"
    by (simp add: file_env_def)
  with env s run_turns_reach [OF s(1)] show ?thesis by blast
qed

text \<open>
  C25. The parallel copy always ends and copies: for regular files and at least one worker no schedule runs longer
  than a bound that depends on the files only; no state before the end is stuck; and at the end every copy has
  returned nil and every destination equals its source.
\<close>

theorem cp_copies_files:
  assumes "(cp_step (file_env (Suc n) (c # cs)) ^^ k) cp_start s"
  shows "k \<le> (\<Sum>j < length (c # cs). 3 + 3 * Suc n + (3 * length ((c # cs) ! j) + 2) * length ((c # cs) ! j)) \<and>
    ((\<exists>s'. cp_step (file_env (Suc n) (c # cs)) s s') \<or>
     cmain s = MDone \<and> results s = replicate (length (c # cs)) None \<and> (\<forall>j < length (c # cs). dst_data s j = (c # cs) ! j))"
  using regular.run_result [OF assms] by (simp add: regular.ahead_def file_env_def)

theorem cp_copies_files_witness:
  "\<exists>s. (cp_step (file_env 1 [''ab'']) ^^ 7) cp_start s \<and> (\<nexists>s'. cp_step (file_env 1 [''ab'']) s s') \<and>
     results s = [None] \<and> dst_data s 0 = ''ab''"
proof -
  obtain s where s: "run_turns (file_env 1 [''ab'']) small_run cp_start = Some s" "cmain s = MDone" "results s = [None]"
    using small_run_ends by blast
  have len: "length small_run = 7" by (simp add: small_run_def)
  have run: "(cp_step (file_env 1 [''ab'']) ^^ 7) cp_start s"
    using run_turns_steps [OF s(1)] unfolding len .
  have "\<nexists>s'. cp_step (file_env 1 [''ab'']) s s'"
    using s(2) by (auto elim!: cp_stepE simp: copyOneFile_step_def)
  moreover from this run cp_copies_files [of 7 0 "''ab''" "[]" s] have "dst_data s 0 = ''ab''"
    by (simp del: relpowp.simps)
  ultimately show ?thesis using run s(3) by blast
qed

text \<open>Two workers and two files, the first of which cannot be read.\<close>

definition failing_first :: "bytes \<Rightarrow> cp_env" where
  "failing_first c = \<lparr>nwork = 2, njobs = 2,
     src_at = (\<lambda>j. if j = 0 then (\<lambda>m off. ([], Some (Errno ''EIO''))) else file_at c), dst_at = (\<lambda>_. file_write_at)\<rparr>"

text \<open>
  C26. A failed copy can spoil the next file silently: when the copy of the first file returns after an error of
  one worker, the other worker of that file may still take an offset, and takes the first block of the second
  file. The second copy then returns nil although its destination is empty.
\<close>

theorem cp_stale_worker_steals_block:
  assumes "length c \<le> 8192"
  shows "\<exists>s. (cp_step (failing_first c))\<^sup>*\<^sup>* cp_start s \<and> cmain s = MDone \<and>
    results s = [Some (Errorf ''reading %s at %v: %v''), None] \<and> dst_data s 1 = []"
proof -
  have "\<exists>s. run_turns (failing_first c)
      [Main, Wrk 0, Wrk 0, Main, Main, Main, Wrk 1, Wrk 2, Wrk 2, Wrk 3, Wrk 3, Main, Main, Main] cp_start = Some s \<and>
    cmain s = MDone \<and> results s = [Some (Errorf ''reading %s at %v: %v''), None] \<and> dst_data s 1 = []"
    using assms by (simp add: failing_first_def cp_eval Let_def numeral_2_eq_2 numeral_3_eq_3)
  then show ?thesis by (blast dest: run_turns_reach)
qed

theorem cp_stale_worker_steals_block_witness:
  "length ''x'' \<le> 8192 \<and>
   (\<exists>s. (cp_step (failing_first ''x''))\<^sup>*\<^sup>* cp_start s \<and> cmain s = MDone \<and>
      results s = [Some (Errorf ''reading %s at %v: %v''), None] \<and> dst_data s 1 = [])"
  using cp_stale_worker_steals_block [of "''x''"] by simp

text \<open>Without workers (\<^verbatim>\<open>-w 0\<close>) every copy returns nil and copies nothing.\<close>

lemma no_workers_copy_nothing:
  "\<exists>s. (cp_step (file_env 0 [c]))\<^sup>*\<^sup>* cp_start s \<and> cmain s = MDone \<and> results s = [None] \<and> dst_data s 0 = []"
proof -
  have "\<exists>s. run_turns (file_env 0 [c]) [Main, Main] cp_start = Some s \<and> cmain s = MDone \<and> results s = [None] \<and> dst_data s 0 = []"
    by (simp add: cp_eval)
  then show ?thesis by (blast dest: run_turns_reach)
qed

end
