(* ===== verification/Cp.thy ===== *)
theory Cp
  imports Go_Fs Go_Flag Go_Path Cp_Workers
begin

text \<open>
  The command \<^verbatim>\<open>cp\<close> of \<^verbatim>\<open>src/cmds/cp\<close> around the parallel copy of \<open>Cp_Workers\<close>:
  flags, one file, a directory, the argument list and the exit status. The content of a file is copied by the call
  \<open>CopyTo\<close> of the kernel, which stands for a run of the workers: \<open>Cp_Workers\<close> shows that every run on regular files
  ends with the destination equal to the source.
\<close>

section \<open>Flags\<close>

record cp_flags =
  recursive :: bool
  ask :: bool
  force :: bool
  verbose :: bool
  symlink :: bool
  nwork_flag :: int

text \<open>\<^verbatim>\<open>runtime.NumCPU\<close>: the processors that are available, and 1 when the system reports none.\<close>

definition NumCPU :: "int \<Rightarrow> int" where
  "NumCPU ncpu = (if ncpu \<le> 0 then 1 else ncpu)"

lemma NumCPU_pos [simp]: "0 < NumCPU ncpu" "\<not> NumCPU ncpu < 0" "NumCPU ncpu \<noteq> 0"
  by (simp_all add: NumCPU_def)

definition cp_defaults :: "int \<Rightarrow> cp_flags" where
  "cp_defaults ncpu = \<lparr>recursive = False, ask = False, force = False, verbose = False, symlink = False, nwork_flag = NumCPU ncpu\<rparr>"

definition cp_formal :: "cp_flags formal" where
  "cp_formal n =
     (if n = ''w'' then Some (int64_flag (\<lambda>i. nwork_flag_update (\<lambda>_. i)))
      else if n \<in> {''R'', ''r''} then Some (bool_flag (\<lambda>b. recursive_update (\<lambda>_. b)))
      else if n = ''i'' then Some (bool_flag (\<lambda>b. ask_update (\<lambda>_. b)))
      else if n = ''f'' then Some (bool_flag (\<lambda>b. force_update (\<lambda>_. b)))
      else if n = ''v'' then Some (bool_flag (\<lambda>b. verbose_update (\<lambda>_. b)))
      else if n = ''P'' then Some (bool_flag (\<lambda>b. symlink_update (\<lambda>_. b)))
      else None)"

section \<open>One file\<close>

definition sameFile :: "Stat_t \<Rightarrow> Stat_t \<Rightarrow> bool" where
  "sameFile stat1 stat2 \<longleftrightarrow> st_Dev stat1 = st_Dev stat2 \<and> st_Ino stat1 = st_Ino stat2"

definition promptOverwrite :: "'w os_env \<Rightarrow> string \<Rightarrow> 'w \<Rightarrow> (goerr + bool) res \<times> 'w" where
  "promptOverwrite os dst w =
     then_do (os_printf os ''cp: overwrite %q? '' [dst] w) (\<lambda>_ w.
       case os_input os w of
         (Inl err, w) \<Rightarrow> (Val (Inl err), w)
       | (Inr answer, w) \<Rightarrow> then_do (says_yes answer, w) (\<lambda>y w. (Val (Inr y), w)))"

text \<open>
  With no workers nothing is read or written, and the copy is reported as done; with a negative number of workers making
  the channel \<^verbatim>\<open>fail\<close> panics.
\<close>

definition copyOneFile :: "'w os_env \<Rightarrow> cp_flags \<Rightarrow> string \<Rightarrow> string \<Rightarrow> 'w \<Rightarrow> goerr option res \<times> 'w" where
  "copyOneFile os fl src dst w =
     (let report = (\<lambda>w. if verbose fl then then_do (os_printf os ''%q -> %q'' [src, dst] w) (\<lambda>_ w. (Val None, w))
                        else (Val None, w))
      in if nwork_flag fl < 0 then (Crash ''makechan: size out of range'', w)
         else if nwork_flag fl = 0 then report w
         else (case os_read os src w of
                 Inl err \<Rightarrow> (Val (Some (Errorf ''reading %s at %v: %v'')), w)
               | Inr b \<Rightarrow>
                   then_do (os_do os (CopyTo dst b) w) (\<lambda>err w.
                     case err of Some e \<Rightarrow> (Val (Some (Errorf ''writing %s: %v'')), w) | None \<Rightarrow> report w)))"

text \<open>The part of \<^verbatim>\<open>copyFile\<close> after the questions about the destination.\<close>

definition copyContent :: "'w os_env \<Rightarrow> cp_flags \<Rightarrow> Stat_t \<Rightarrow> string \<Rightarrow> string \<Rightarrow> 'w \<Rightarrow> goerr option res \<times> 'w" where
  "copyContent os fl srcb src dst w =
     (case os_open os src w of
        Some err \<Rightarrow> (Val (Some (Errorf ''can't open %q: %v'')), w)
      | None \<Rightarrow>
          then_do (os_do os (OpenTrunc dst (stat_FileMode srcb AND 0x1FF)) w) (\<lambda>err w.
            case err of
              Some e \<Rightarrow> (Val (Some (Errorf ''can't create %q: %v'')), w)
            | None \<Rightarrow> copyOneFile os fl src dst w))"

text \<open>
  The part of \<^verbatim>\<open>copyFile\<close> for a source that is not a directory. When
  \<^verbatim>\<open>os.Stat(dst)\<close> fails for another reason than a missing file, \<^verbatim>\<open>dstb\<close> is nil and
  \<^verbatim>\<open>dstb.Sys()\<close> panics.
\<close>

definition copyRegular :: "'w os_env \<Rightarrow> cp_flags \<Rightarrow> Stat_t \<Rightarrow> string \<Rightarrow> string \<Rightarrow> 'w \<Rightarrow> goerr option res \<times> 'w" where
  "copyRegular os fl srcb src dst w =
     (case os_stat os dst w of
        Inl err \<Rightarrow>
          if IsNotExist err then copyContent os fl srcb src dst w
          else (Crash ''invalid memory address or nil pointer dereference'', w)
      | Inr dstb \<Rightarrow>
          if sameFile srcb dstb then (Val (Some (Errorf ''%q and %q are the same file'')), w)
          else if ask fl \<and> \<not> force fl then
            then_do (promptOverwrite os dst w) (\<lambda>r w.
              case r of
                Inl err \<Rightarrow> (Val (Some err), w)
              | Inr overwrite \<Rightarrow> if overwrite then copyContent os fl srcb src dst w else (Val None, w))
          else copyContent os fl srcb src dst w)"

section \<open>Directories\<close>

definition createDir :: "'w os_env \<Rightarrow> cp_flags \<Rightarrow> string \<Rightarrow> string \<Rightarrow> 'w \<Rightarrow> goerr option res \<times> 'w" where
  "createDir os fl src dst w =
     (case os_stat os dst w of
        Inr dstInfo \<Rightarrow>
          (Val (if is_dir dstInfo then None else Some (Errorf ''can't overwrite non-dir %q with dir %q'')), w)
      | Inl err \<Rightarrow>
          if \<not> IsNotExist err then (Val (Some err), w)
          else (case os_stat os src w of
                  Inl err \<Rightarrow> (Val (Some err), w)
                | Inr srcInfo \<Rightarrow>
                    then_do (os_do os (Mkdir dst (stat_FileMode srcInfo)) w) (\<lambda>err w.
                      if err \<noteq> None then (Val err, w)
                      else if verbose fl then then_do (os_printf os ''%q -> %q'' [src, dst] w) (\<lambda>_ w. (Val None, w))
                      else (Val None, w))))"

text \<open>The loop over the names; the errors of \<^verbatim>\<open>copyFile\<close> are dropped.\<close>

fun copy_entries ::
    "(string \<Rightarrow> string \<Rightarrow> 'w \<Rightarrow> (goerr option res \<times> 'w) option) \<Rightarrow> string \<Rightarrow> string \<Rightarrow> string list \<Rightarrow> 'w \<Rightarrow>
     (goerr option res \<times> 'w) option" where
  "copy_entries rec src dst [] w = Some (Val None, w)"
| "copy_entries rec src dst (fname # fnames) w =
     (case rec (Join [src, fname]) (Join [dst, fname]) w of
        Some (Val _, w') \<Rightarrow> copy_entries rec src dst fnames w'
      | r \<Rightarrow> r)"

definition copyDir ::
    "(string \<Rightarrow> string \<Rightarrow> 'w \<Rightarrow> (goerr option res \<times> 'w) option) \<Rightarrow> 'w os_env \<Rightarrow> cp_flags \<Rightarrow> string \<Rightarrow> string \<Rightarrow> 'w \<Rightarrow>
     (goerr option res \<times> 'w) option" where
  "copyDir rec os fl src dst w =
     (case createDir os fl src dst w of
        (Val None, w') \<Rightarrow>
          (case os_readdir os src w' of
             Inl err \<Rightarrow> Some (Val (Some (Errorf ''can't list files from %q: %q'')), w')
           | Inr files \<Rightarrow> copy_entries rec src dst files w')
      | r \<Rightarrow> Some r)"

text \<open>
  \<^verbatim>\<open>copyFile\<close>, recursive through \<^verbatim>\<open>copyDir\<close>; the depth of the recursion is bounded by
  fuel and \<open>None\<close> is a recursion that goes deeper.
\<close>

fun copyFile :: "nat \<Rightarrow> 'w os_env \<Rightarrow> cp_flags \<Rightarrow> bool \<Rightarrow> string \<Rightarrow> string \<Rightarrow> 'w \<Rightarrow> (goerr option res \<times> 'w) option" where
  "copyFile 0 os fl todir src dst0 w = None"
| "copyFile (Suc n) os fl todir src dst0 w =
     (let dst = (if todir then Join [dst0, Base src] else dst0)
      in case os_lstat os src w of
           Inl err \<Rightarrow> Some (Val (Some (Errorf ''can't stat %v: %v'')), w)
         | Inr srcb \<Rightarrow>
             if symlink fl \<and> is_symlink srcb then
               (case EvalSymlinks os w src of
                  Fail err \<Rightarrow> Some (Val (Some (Errorf ''can't eval symlink %v: %v'')), w)
                | Panic p \<Rightarrow> Some (Crash p, w)
                | Ret linkPath \<Rightarrow> Some (os_do os (Symlink linkPath dst) w))
             else if is_dir srcb then
               (if recursive fl then copyDir (copyFile n os fl False) os fl src dst w
                else Some (Val (Some (Errorf ''%q is a directory, try use recursive option'')), w))
             else Some (copyRegular os fl srcb src dst w))"

section \<open>The command\<close>

text \<open>The loop of \<^verbatim>\<open>cp\<close>: every error is logged and the last one is remembered in \<^verbatim>\<open>lastErr\<close>.\<close>

fun cp_loop ::
    "nat \<Rightarrow> 'w os_env \<Rightarrow> cp_flags \<Rightarrow> bool \<Rightarrow> string list \<Rightarrow> string \<Rightarrow> goerr option \<Rightarrow> 'w \<Rightarrow> (goerr option res \<times> 'w) option" where
  "cp_loop n os fl todir [] dst lastErr w = Some (Val lastErr, w)"
| "cp_loop n os fl todir (f # fs) dst lastErr w =
     (case copyFile n os fl todir f dst w of
        Some (Val (Some err), w') \<Rightarrow>
          cp_loop n os fl todir fs dst (Some err) (snd (os_kernel os (Printf ''cp: %v'' []) w'))
      | Some (Val None, w') \<Rightarrow> cp_loop n os fl todir fs dst lastErr w'
      | r \<Rightarrow> r)"

text \<open>\<^verbatim>\<open>cp\<close> returns \<^verbatim>\<open>err\<close>, the error of \<^verbatim>\<open>os.Stat(to)\<close>, and not \<^verbatim>\<open>lastErr\<close>.\<close>

definition cp :: "nat \<Rightarrow> 'w os_env \<Rightarrow> cp_flags \<Rightarrow> string list \<Rightarrow> 'w \<Rightarrow> (goerr option res \<times> 'w) option" where
  "cp n os fl args w =
     (let from = butlast args; dst = last args;
          err = (case os_stat os dst w of Inl e \<Rightarrow> Some e | Inr _ \<Rightarrow> None);
          todir = (case os_stat os dst w of Inl _ \<Rightarrow> False | Inr st \<Rightarrow> is_dir st)
      in if length args > 2 \<and> \<not> todir then Some (Exit 1, snd (os_kernel os (Printf ''is not a directory: %s'' [dst]) w))
         else (case cp_loop n os fl todir from dst None w of
                 Some (Val lastErr, w') \<Rightarrow> Some (Val err, w')
               | r \<Rightarrow> r))"

definition cp_main :: "nat \<Rightarrow> 'w os_env \<Rightarrow> int \<Rightarrow> string list \<Rightarrow> 'w \<Rightarrow> (unit res \<times> 'w) option" where
  "cp_main n os ncpu argv w =
     (case Parse cp_formal (cp_defaults ncpu) argv of
        Inl e \<Rightarrow> Some (Exit 2, w)
      | Inr (fl, args) \<Rightarrow>
          if length args < 2 then Some (Exit 1, w)
          else (case cp n os fl args w of
                  None \<Rightarrow> None
                | Some r \<Rightarrow> Some (then_do r (\<lambda>err w. (if err = None then Val () else Exit 1, w)))))"

section \<open>Copying a tree\<close>

text \<open>A snapshot of the source: every node with its stat buffer, directories with their entries in order.\<close>

datatype ftree = FFile Stat_t bytes | FDir Stat_t "(string \<times> ftree) list"

fun tree_stat :: "ftree \<Rightarrow> Stat_t" where
  "tree_stat (FFile st b) = st"
| "tree_stat (FDir st es) = st"

fun tree_depth :: "ftree \<Rightarrow> nat" where
  "tree_depth (FFile st b) = 0"
| "tree_depth (FDir st es) = Suc (fold max (map (tree_depth \<circ> snd) es) 0)"

text \<open>The calls that copy a tree: make the directory, then copy its entries in order.\<close>

fun tree_calls :: "string \<Rightarrow> ftree \<Rightarrow> call list" where
  "tree_calls dst (FFile st b) = [OpenTrunc dst (stat_FileMode st AND 0x1FF), CopyTo dst b]"
| "tree_calls dst (FDir st es) =
     Mkdir dst (stat_FileMode st) # concat (map (\<lambda>(n, t). tree_calls (Join [dst, n]) t) es)"

text \<open>
  \<open>source_at look p t\<close>: under the path \<open>p\<close> the function \<open>look\<close> shows the tree \<open>t\<close>. \<open>vacant look q t\<close>: at \<open>q\<close> and
  at the paths under it that the copy of \<open>t\<close> uses there is nothing.
\<close>

fun source_at :: "(string \<Rightarrow> ftree option) \<Rightarrow> string \<Rightarrow> ftree \<Rightarrow> bool" where
  "source_at look p (FFile st b) \<longleftrightarrow> look p = Some (FFile st b) \<and> \<not> is_dir st"
| "source_at look p (FDir st es) \<longleftrightarrow>
     look p = Some (FDir st es) \<and> is_dir st \<and> list_all (\<lambda>(n, t). source_at look (Join [p, n]) t) es"

fun vacant :: "(string \<Rightarrow> ftree option) \<Rightarrow> string \<Rightarrow> ftree \<Rightarrow> bool" where
  "vacant look q (FFile st b) \<longleftrightarrow> look q = None"
| "vacant look q (FDir st es) \<longleftrightarrow> look q = None \<and> list_all (\<lambda>(n, t). vacant look (Join [q, n]) t) es"

text \<open>
  An operating system that shows the snapshot and records the calls. The snapshot does not change while the command
  runs, so a copy into a directory below its own source, which lists what it has just made, is not seen here:
  \<open>cp_into_itself\<close> below shows that case on a file system that changes.
\<close>

definition tree_os :: "(string \<Rightarrow> ftree option) \<Rightarrow> call list os_env" where
  "tree_os look = \<lparr>os_kernel = log_kernel {},
     os_stat = (\<lambda>p w. case look p of None \<Rightarrow> Inl ENOENT | Some t \<Rightarrow> Inr (tree_stat t)),
     os_lstat = (\<lambda>p w. case look p of None \<Rightarrow> Inl ENOENT | Some t \<Rightarrow> Inr (tree_stat t)),
     os_readlink = (\<lambda>p w. Inl (Errno ''EINVAL'')),
     os_readdir = (\<lambda>p w. case look p of Some (FDir _ es) \<Rightarrow> Inr (map fst es) | _ \<Rightarrow> Inl ENOENT),
     os_open = (\<lambda>p w. if look p = None then Some ENOENT else None),
     os_read = (\<lambda>p w. case look p of Some (FFile _ b) \<Rightarrow> Inr b | _ \<Rightarrow> Inl ENOENT),
     os_getwd = (\<lambda>w. Inr ''/''), os_input = (\<lambda>w. (Inl EOF, w))\<rparr>"

lemma fold_max_le: "x \<in> set xs \<or> x \<le> a \<Longrightarrow> x \<le> fold max xs (a :: nat)"
  by (induction xs arbitrary: a) (auto simp: le_max_iff_disj)

lemma copy_entries_tree:
  assumes "\<And>n t w. (n, t) \<in> set es \<Longrightarrow> rec (Join [src, n]) (Join [dst, n]) w = Some (Val None, w @ tree_calls (Join [dst, n]) t)"
  shows "copy_entries rec src dst (map fst es) w =
    Some (Val None, w @ concat (map (\<lambda>(n, t). tree_calls (Join [dst, n]) t) es))"
  using assms
proof (induction es arbitrary: w)
  case (Cons e es)
  obtain n t where e: "e = (n, t)" by fastforce
  from Cons.prems [of n t] Cons.IH [OF Cons.prems] show ?case by (simp add: e)
qed simp

lemma copyFile_tree:
  assumes "source_at look src t" and "vacant look dst t" and "tree_depth t < n"
    and "recursive fl" "\<not> symlink fl" "\<not> verbose fl" "0 < nwork_flag fl"
  shows "copyFile n (tree_os look) fl False src dst w = Some (Val None, w @ tree_calls dst t)"
  using assms(1-3)
proof (induction t arbitrary: src dst n w)
  case (FFile st b)
  then show ?case
    using assms(4-7)
    by (cases n) (simp_all add: tree_os_def copyRegular_def copyContent_def copyOneFile_def Let_def os_do_def log_kernel_def
        IsNotExist_def ENOENT_def)
next
  case (FDir st es)
  then obtain m where n: "n = Suc m" by (cases n) auto
  have "copyFile m (tree_os look) fl False (Join [src, x]) (Join [dst, x]) w = Some (Val None, w @ tree_calls (Join [dst, x]) t)"
    if e: "(x, t) \<in> set es" for x t w
  proof (rule FDir.IH [OF e])
    show "t \<in> Basic_BNFs.snds (x, t)" by simp
    show "source_at look (Join [src, x]) t" "vacant look (Join [dst, x]) t"
      using FDir.prems(1,2) e by (auto simp: list_all_iff)
    have "tree_depth t \<le> fold max (map (tree_depth \<circ> snd) es) 0"
      by (intro fold_max_le disjI1) (use e in force)
    with FDir.prems(3) n show "tree_depth t < m" by simp
  qed
  from copy_entries_tree [OF this] FDir.prems(1,2) assms(4-7) n show ?case
    by (simp add: tree_os_def copyDir_def createDir_def os_do_def log_kernel_def IsNotExist_def ENOENT_def)
qed


lemma cp_parse_R:
  "operand src \<Longrightarrow> Parse cp_formal (cp_defaults ncpu) [''-R'', src, dst] = Inr ((cp_defaults ncpu)\<lparr>recursive := True\<rparr>, [src, dst])"
  using Parse_bool_flag [of cp_formal "''R''" "\<lambda>b. recursive_update (\<lambda>_. b)"]
  by (simp add: cp_formal_def operand_def Parse_done)

section \<open>Properties of the command\<close>

text \<open>
  C27. \<^verbatim>\<open>cp -R src dst\<close> copies the tree: when \<open>src\<close> shows the tree \<open>t\<close>, which stays as it is, and nothing is at \<open>dst\<close>, the
  command makes exactly the calls that build a copy of \<open>t\<close> under \<open>dst\<close>, parents first and every file with the
  content of its source; and then it exits with status 1, because \<^verbatim>\<open>cp\<close> returns the error of the
  first \<^verbatim>\<open>os.Stat\<close> of the destination.
\<close>

theorem cp_copies_tree:
  assumes "operand src" and "source_at look src t" and "vacant look dst t" and "tree_depth t < n"
  shows "cp_main n (tree_os look) ncpu [''-R'', src, dst] [] = Some (Exit 1, tree_calls dst t)"
proof -
  have "os_stat (tree_os look) dst w = Inl ENOENT" for w
    using assms(3) by (cases t) (simp_all add: tree_os_def)
  with copyFile_tree [OF assms(2-4)] cp_parse_R [OF assms(1)] show ?thesis
    by (simp add: cp_main_def cp_def Let_def cp_defaults_def)
qed

definition sample_dir :: Stat_t where
  "sample_dir = \<lparr>st_Dev = 1, st_Ino = 1, st_Nlink = 2, st_Mode = 0x41ED, st_Uid = 0, st_Gid = 0, st_Rdev = 0, st_Size = 0, st_Mtim = 0\<rparr>"

definition sample_file :: Stat_t where
  "sample_file = \<lparr>st_Dev = 1, st_Ino = 2, st_Nlink = 1, st_Mode = 0x81A4, st_Uid = 0, st_Gid = 0, st_Rdev = 0, st_Size = 2, st_Mtim = 0\<rparr>"

definition sample_tree :: ftree where
  "sample_tree = FDir sample_dir [(''x'', FFile sample_file ''hi'')]"

theorem cp_copies_tree_witness:
  "cp_main 2 (tree_os [''s'' \<mapsto> sample_tree, ''s/x'' \<mapsto> FFile sample_file ''hi'']) 4 [''-R'', ''s'', ''d''] [] =
     Some (Exit 1, [Mkdir ''d'' 0x800001ED, OpenTrunc ''d/x'' 0x1A4, CopyTo ''d/x'' ''hi''])"
proof -
  let ?look = "[''s'' \<mapsto> sample_tree, ''s/x'' \<mapsto> FFile sample_file ''hi'']"
  have dir: "is_dir sample_dir" "stat_FileMode sample_dir = 0x800001ED"
      and fil: "\<not> is_dir sample_file" "stat_FileMode sample_file = 0x1A4"
    by (simp_all add: sample_dir_def sample_file_def is_dir_def stat_FileMode_def mode_defs)
  have paths: "Join [''s'', ''x''] = ''s/x''" "Join [''d'', ''x''] = ''d/x''"
    by (simp_all add: path_eval)
  have "source_at ?look ''s'' sample_tree" "vacant ?look ''d'' sample_tree" "tree_depth sample_tree < 2"
    using dir fil paths by (simp_all add: sample_tree_def)
  from cp_copies_tree [OF _ this, of 4] show ?thesis
    using dir fil paths by (simp add: operand_def sample_tree_def)
qed

text \<open>
  Exit status 0 does not mean that the files were copied: with an existing directory as destination a missing
  source is only logged; and when the source is a symbolic link to the destination, the comparison of the files
  looks at the link and not at its target, so the file is emptied before it is read, and nothing is reported.
\<close>

lemma cp_status_zero_without_copy:
  "(\<exists>w. cp_main (Suc n) ufs_os ncpu [''a'', ''d''] (ufs_files [(''d'', Dr 0x1ED)]) = Some (Val (), w) \<and>
        fs_names w = [(''d'', 0)]) \<and>
   (\<exists>w. cp_main (Suc n) ufs_os ncpu [''l'', ''f''] (ufs_files [(''f'', Reg 0x1A4 b), (''l'', Lnk ''f'')]) = Some (Val (), w) \<and>
        ufs_read ''f'' w = Inr [])"
proof -
  have paths: "Clean ''a'' = ''a''" "Clean ''d'' = ''d''" "Clean ''l'' = ''l''" "Clean ''f'' = ''f''" "Dir ''l'' = ''.''"
      "Join [''.'', ''f''] = ''f''" "\<not> is_abs ''f''"
    by (simp_all add: path_eval)
  have parse: "Parse cp_formal (cp_defaults ncpu) [[c], x] = Inr (cp_defaults ncpu, [[c], x])" for c x
    by (rule Parse_done) simp
  note cp_defs = cp_main_def cp_def copyRegular_def copyContent_def copyOneFile_def os_do_def cp_defaults_def sameFile_def
  have "\<exists>w. cp_main (Suc n) ufs_os ncpu [''a'', ''d''] (ufs_files [(''d'', Dr 0x1ED)]) = Some (Val (), w) \<and>
        fs_names w = [(''d'', 0)]"
    by (simp add: parse [unfolded cp_defaults_def] ufs_eval paths cp_defs Let_def)
  moreover have "\<exists>w. cp_main (Suc n) ufs_os ncpu [''l'', ''f''] (ufs_files [(''f'', Reg 0x1A4 b), (''l'', Lnk ''f'')]) =
      Some (Val (), w) \<and> ufs_read ''f'' w = Inr []"
    by (simp add: parse [unfolded cp_defaults_def] ufs_eval paths cp_defs Let_def)
  ultimately show ?thesis by blast
qed

text \<open>With \<^verbatim>\<open>-w 0\<close> a copy empties the destination, copies nothing and succeeds; with \<^verbatim>\<open>-w -1\<close> it panics after that.\<close>

lemma cp_without_workers:
  assumes "os_open os src w = None" and "os_kernel os (OpenTrunc dst (stat_FileMode st AND 0x1FF)) w = (None, w')" and "\<not> verbose fl"
  shows "nwork_flag fl = 0 \<Longrightarrow> copyContent os fl st src dst w = (Val None, w')"
    and "nwork_flag fl < 0 \<Longrightarrow> copyContent os fl st src dst w = (Crash ''makechan: size out of range'', w')"
  using assms by (simp_all add: copyContent_def copyOneFile_def os_do_def)

section \<open>A copy into itself\<close>

text \<open>
  \<^verbatim>\<open>cp -R s s/d\<close> for a directory \<^verbatim>\<open>s\<close>: the loop over the names of \<^verbatim>\<open>s\<close> finds the new \<^verbatim>\<open>d\<close>, the loop over the names of \<^verbatim>\<open>s/d\<close>
  the new \<^verbatim>\<open>s/d/d\<close>, and so on.
\<close>

definition nested :: "nat \<Rightarrow> string" where
  "nested k = path_of False (''s'' # replicate k ''d'')"

lemma nested_normal: "normal False (''s'' # replicate k ''d'')"
  unfolding normal_def by (intro conjI exI [of _ 0] exI [of _ "''s'' # replicate k ''d''"]) (auto simp: proper_def list_all_iff)

lemma nested_Suc: "nested (Suc k) = nested k @ ''/d''"
proof -
  have "''s'' # replicate (Suc k) ''d'' = (''s'' # replicate k ''d'') @ [''d'']"
    by (simp add: replicate_append_same)
  then show ?thesis unfolding nested_def path_of_def by (simp only: join_snoc list.distinct if_False simp_thms) simp
qed

lemma nested_eq [simp]: "nested i = nested j \<longleftrightarrow> i = j"
proof
  assume "nested i = nested j"
  then have "''s'' # replicate i ''d'' = ''s'' # replicate j ''d''"
    unfolding nested_def using clean_comps_path_of [OF nested_normal] by metis
  then show "i = j" by (auto dest: arg_cong [of _ _ length])
qed simp

lemma nested_paths [simp]:
  "Clean (nested k) = nested k" "Dir (nested (Suc k)) = nested k" "Dir (nested 0) = ''.''" "Join [nested k, ''d''] = nested (Suc k)"
  "Base (nested (Suc k)) = ''d''" "nested k \<noteq> ''.''" "nested k \<noteq> ''/''"
proof -
  show c: "Clean (nested k) = nested k" for k unfolding nested_def by (rule Clean_id [OF nested_normal])
  show "Dir (nested (Suc k)) = nested k" "Dir (nested 0) = ''.''"
    unfolding nested_def Dir_path_of [OF nested_normal] by (simp_all add: butlast_append path_of_def flip: replicate_append_same)
  have ne: "nested k \<noteq> []" by (cases k) (simp_all add: nested_Suc, simp add: nested_def path_of_def)
  then show "Join [nested k, ''d''] = nested (Suc k)" using c [of "Suc k"] by (simp add: Join_def nested_Suc)
  show "Base (nested (Suc k)) = ''d''"
    using path_Split_slash [of "''d''" "nested k"] by (simp add: Base_def nested_Suc trim_right_def Let_def)
  show "nested k \<noteq> ''.''" "nested k \<noteq> ''/''"
    by (cases k; simp add: nested_Suc nested_def path_of_def)+
qed

definition nested_fs :: "nat \<Rightarrow> ufs \<Rightarrow> bool" where
  "nested_fs k fs \<longleftrightarrow> fs_names fs = map (\<lambda>j. (nested j, j)) [0..<Suc k] \<and> fs_next fs = Suc k \<and>
     (\<forall>j \<le> k. fs_nodes fs j = Dr 0x1ED \<or> fs_nodes fs j = Dr 0x800001ED)"

lemma map_of_nested: "map_of (map (\<lambda>j. (nested j, j)) js) (nested j) = (if j \<in> set js then Some j else None)"
  by (induction js) auto

lemma nested_dir [simp]:
  "is_dir (node_stat j (Dr 0x1ED))" "is_dir (node_stat j (Dr 0x800001ED))"
  "stat_FileMode (node_stat j (Dr 0x1ED)) = 0x800001ED" "stat_FileMode (node_stat j (Dr 0x800001ED)) = 0x800001ED"
  by (simp_all add: node_stat_def is_dir_def stat_FileMode_def mode_defs)

lemma nested_view:
  assumes "nested_fs k fs"
  shows "follow 40 fs (nested j) = Inr (nested j)"
    and "ufs_lookup fs (nested j) = (if j \<le> k then Inr (j, fs_nodes fs j) else Inl ENOENT)"
proof -
  have m: "map_of (fs_names fs) (nested j) = (if j \<le> k then Some j else None)"
    using assms by (auto simp: nested_fs_def map_of_nested simp del: upt_Suc)
  then show "ufs_lookup fs (nested j) = (if j \<le> k then Inr (j, fs_nodes fs j) else Inl ENOENT)" by (simp add: ufs_lookup_def)
  show "follow 40 fs (nested j) = Inr (nested j)"
    using m assms by (auto simp: follow_numeral nested_fs_def)
qed

lemma nested_stat:
  assumes "nested_fs k fs"
  shows "ufs_lstat (nested j) fs = (if j \<le> k then Inr (node_stat j (fs_nodes fs j)) else Inl ENOENT)"
    and "ufs_stat (nested j) fs = (if j \<le> k then Inr (node_stat j (fs_nodes fs j)) else Inl ENOENT)"
  using nested_view [OF assms, of j] by (simp_all add: ufs_lstat_def ufs_stat_def)

lemma nested_entries: "filter (\<lambda>n. Dir n = nested j \<and> n \<noteq> nested j) (map nested [0..<m]) = (if Suc j < m then [nested (Suc j)] else [])"
proof (induction m)
  case (Suc m)
  have "Dir (nested m) = nested j \<longleftrightarrow> m = Suc j" by (cases m) (auto dest: sym)
  with Suc show ?case by auto
qed simp

lemma nested_readdir:
  assumes "nested_fs k fs" and "j < k"
  shows "ufs_readdir (nested j) fs = Inr [''d'']"
proof -
  have n: "map fst (fs_names fs) = map nested [0..<Suc k]" using assms(1) by (simp add: nested_fs_def)
  obtain m where "fs_nodes fs j = Dr m" using assms unfolding nested_fs_def by (meson less_imp_le)
  with nested_view [OF assms(1), of j] assms(2) nested_entries [of j "Suc k"] show ?thesis
    unfolding ufs_readdir_def n by (simp del: upt_Suc)
qed

lemma nested_mkdir:
  assumes "nested_fs k fs"
  shows "\<exists>fs'. ufs_call (Mkdir (nested (Suc k)) 0x800001ED) fs = (None, fs') \<and> nested_fs (Suc k) fs'"
proof -
  have "map_of (fs_names fs) (nested (Suc k)) = None"
    using assms by (auto simp: nested_fs_def map_of_nested simp del: upt_Suc)
  moreover have "parent_ok fs (nested (Suc k))"
    using nested_stat(2) [OF assms, of k] assms by (auto simp: parent_ok_def nested_fs_def)
  ultimately show ?thesis using assms by (auto simp: add_node_def nested_fs_def)
qed

lemma copyFile_nested:
  "nested_fs k fs \<Longrightarrow> recursive fl \<Longrightarrow> \<not> symlink fl \<Longrightarrow> \<not> verbose fl \<Longrightarrow>
   copyFile n ufs_os fl False (nested k) (nested (Suc k)) fs = None"
proof (induction n arbitrary: k fs)
  case (Suc n)
  obtain fs' where m: "ufs_call (Mkdir (nested (Suc k)) 0x800001ED) fs = (None, fs')" "nested_fs (Suc k) fs'"
    using nested_mkdir [OF Suc.prems(1)] by blast
  have d: "is_dir (node_stat k (fs_nodes fs k))" "stat_FileMode (node_stat k (fs_nodes fs k)) = 0x800001ED"
    using Suc.prems(1) by (auto simp: nested_fs_def)
  note s = nested_stat [OF Suc.prems(1), of k] nested_stat [OF Suc.prems(1), of "Suc k"]
  have "createDir ufs_os fl (nested k) (nested (Suc k)) fs = (Val None, fs')"
    using s d m(1) Suc.prems(4) by (simp add: createDir_def ufs_os_def os_do_def IsNotExist_def ENOENT_def)
  then show ?case
    using s d nested_readdir [OF m(2), of k] Suc.IH [OF m(2) Suc.prems(2-4)] Suc.prems(2,3)
    by (simp add: copyDir_def ufs_os_def)
qed simp

lemma cp_into_itself: "cp_main n ufs_os ncpu [''-R'', ''s'', ''s/d''] (ufs_files [(''s'', Dr 0x1ED)]) = None"
proof -
  have p: "''s'' = nested 0" "''s/d'' = nested (Suc 0)" by (simp_all add: nested_Suc) (simp_all add: nested_def path_of_def)
  have fs: "nested_fs 0 (ufs_files [(''s'', Dr 0x1ED)])" by (simp add: nested_fs_def ufs_files_def p)
  have "Parse cp_formal (cp_defaults ncpu) [''-R'', ''s'', ''s/d''] = Inr ((cp_defaults ncpu)\<lparr>recursive := True\<rparr>, [''s'', ''s/d''])"
    by (rule cp_parse_R) (simp add: operand_def)
  moreover have "copyFile n ufs_os ((cp_defaults ncpu)\<lparr>recursive := True\<rparr>) False ''s'' ''s/d'' (ufs_files [(''s'', Dr 0x1ED)]) = None"
    unfolding p by (rule copyFile_nested [OF fs [unfolded p]]) (simp_all add: cp_defaults_def)
  moreover have "ufs_stat ''s/d'' (ufs_files [(''s'', Dr 0x1ED)]) = Inl ENOENT"
    using nested_stat(2) [OF fs, of "Suc 0"] by (simp add: p)
  ultimately show ?thesis by (simp add: cp_main_def cp_def Let_def ufs_os_def)
qed

end
