(* ===== verification/Ln.thy ===== *)
theory Ln
  imports Go_Fs Go_Flag
begin

text \<open>
  The command \<^verbatim>\<open>ln\<close> of \<^verbatim>\<open>src/cmds/ln/ln.go\<close>: the four forms of its operands, the choice of the
  link name, dereferencing, overwriting, and links relative to the place of the link.
\<close>

section \<open>Configuration\<close>

record config =
  symlink :: bool
  verbose :: bool
  force :: bool
  nondir :: bool
  prompt :: bool
  logical :: bool
  physical :: bool
  relative :: bool
  dirtgt :: string

definition ln_defaults :: config where
  "ln_defaults = \<lparr>symlink = False, verbose = False, force = False, nondir = False, prompt = False, logical = False,
     physical = False, relative = False, dirtgt = []\<rparr>"

definition ln_formal :: "config formal" where
  "ln_formal n =
     (if n = ''s'' then Some (bool_flag (\<lambda>b. symlink_update (\<lambda>_. b)))
      else if n = ''v'' then Some (bool_flag (\<lambda>b. verbose_update (\<lambda>_. b)))
      else if n = ''f'' then Some (bool_flag (\<lambda>b. force_update (\<lambda>_. b)))
      else if n = ''T'' then Some (bool_flag (\<lambda>b. nondir_update (\<lambda>_. b)))
      else if n = ''i'' then Some (bool_flag (\<lambda>b. prompt_update (\<lambda>_. b)))
      else if n = ''L'' then Some (bool_flag (\<lambda>b. logical_update (\<lambda>_. b)))
      else if n = ''P'' then Some (bool_flag (\<lambda>b. physical_update (\<lambda>_. b)))
      else if n = ''r'' then Some (bool_flag (\<lambda>b. relative_update (\<lambda>_. b)))
      else if n = ''t'' then Some (string_flag (\<lambda>v. dirtgt_update (\<lambda>_. v)))
      else None)"

section \<open>Operands and names\<close>

text \<open>\<^verbatim>\<open>promptOverwrite\<close> opens a new buffered reader for each question.\<close>

definition promptOverwrite :: "'w os_env \<Rightarrow> string \<Rightarrow> 'w \<Rightarrow> bool res \<times> 'w" where
  "promptOverwrite os fname w =
     then_do (os_printf os ''ln: overwrite '%v'? '' [fname] w) (\<lambda>_ w.
       case os_input os w of
         (Inl err, w) \<Rightarrow> (Val False, w)
       | (Inr answer, w) \<Rightarrow> (says_yes answer, w))"

definition exists_name :: "'w os_env \<Rightarrow> 'w \<Rightarrow> string \<Rightarrow> bool" where
  "exists_name os w fname = (case os_lstat os fname w of Inl err \<Rightarrow> \<not> IsNotExist err | Inr _ \<Rightarrow> True)"

text \<open>The targets, the link name (possibly empty) and the configuration with its target directory.\<close>

definition evalArgs :: "'w os_env \<Rightarrow> 'w \<Rightarrow> config \<Rightarrow> string list \<Rightarrow> string list \<times> string \<times> config" where
  "evalArgs os w conf args =
     (if dirtgt conf \<noteq> [] \<or> length args \<le> 1 then (args, [], conf)
      else
        let lastArg = last args
        in if \<not> nondir conf \<and> (case os_stat os lastArg w of Inl _ \<Rightarrow> False | Inr lf \<Rightarrow> is_dir lf)
           then (butlast args, [], conf\<lparr>dirtgt := lastArg\<rparr>)
           else (butlast args, lastArg, conf))"

definition Abs :: "'w os_env \<Rightarrow> 'w \<Rightarrow> string \<Rightarrow> goerr + string" where
  "Abs os w path =
     (if is_abs path then Inr (Clean path)
      else case os_getwd os w of Inl err \<Rightarrow> Inl err | Inr wd \<Rightarrow> Inr (Join [wd, path]))"

definition relLink :: "'w os_env \<Rightarrow> 'w \<Rightarrow> string \<Rightarrow> string \<Rightarrow> goerr + string" where
  "relLink os w target linkName =
     (case Rel (Dir linkName) target of
        Inr newTarget \<Rightarrow> Inr newTarget
      | Inl _ \<Rightarrow> (case Abs os w linkName of Inr absLink \<Rightarrow> Rel absLink target | Inl _ \<Rightarrow> Inr []))"

definition inferLinkName :: "string \<Rightarrow> string \<Rightarrow> string" where
  "inferLinkName target linkName = (if linkName = [] then Base target else linkName)"

text \<open>The target and whether \<^verbatim>\<open>linkFunc\<close> is now \<^verbatim>\<open>os.Symlink\<close>.\<close>

definition dereferTarget :: "'w os_env \<Rightarrow> 'w \<Rightarrow> config \<Rightarrow> string \<Rightarrow> bool \<Rightarrow> (string \<times> bool) outcome" where
  "dereferTarget os w conf target symf =
     (if logical conf \<or> physical conf then
        bind_outcome (EvalSymlinks os w target) (\<lambda>newTarget.
          if newTarget \<noteq> target then Ret (newTarget, symf \<or> physical conf) else Ret (target, symf))
      else Ret (target, symf))"

section \<open>Making the links\<close>

definition do_link :: "'w os_env \<Rightarrow> bool \<Rightarrow> string \<Rightarrow> string \<Rightarrow> 'w \<Rightarrow> goerr option res \<times> 'w" where
  "do_link os symf target linkName w = os_do os (if symf then Symlink target linkName else Link target linkName) w"

text \<open>The existing destination: continue with the next target, give up, or go on, with the value of \<^verbatim>\<open>remove\<close>.\<close>

datatype overwrite = Skip | Stop goerr | GoOn bool

definition clear_dest :: "'w os_env \<Rightarrow> config \<Rightarrow> string \<Rightarrow> bool \<Rightarrow> 'w \<Rightarrow> overwrite res \<times> 'w" where
  "clear_dest os conf linkName remove w =
     (if \<not> exists_name os w linkName then (Val (GoOn remove), w)
      else
        then_do (if prompt conf \<and> \<not> force conf then promptOverwrite os linkName w else (Val remove, w)) (\<lambda>rm w.
          if prompt conf \<and> \<not> force conf \<and> \<not> rm then (Val Skip, w)
          else if force conf \<or> rm then
            then_do (os_do os (Remove linkName) w) (\<lambda>err w.
              (Val (case err of Some e \<Rightarrow> Stop e | None \<Rightarrow> GoOn rm), w))
          else (Val (GoOn rm), w)))"

text \<open>
  The part of the loop after that. In the relative case the link is made from its own directory, and the working
  directory is restored; \<open>orig\<close> is \<^verbatim>\<open>originalPath\<close>.
\<close>

definition make_link :: "'w os_env \<Rightarrow> config \<Rightarrow> string \<Rightarrow> bool \<Rightarrow> string \<Rightarrow> string \<Rightarrow> 'w \<Rightarrow> goerr option res \<times> 'w" where
  "make_link os conf orig symf target linkName w =
     (if relative conf \<and> \<not> symlink conf then (Val (Some (Errorf ''cannot do -r without -s'')), w)
      else
        let say = (\<lambda>t l w. if verbose conf then then_do (os_printf os ''%q -> %q'' [l, t] w) (\<lambda>_ w. (Val None, w))
                           else (Val None, w))
        in if relative conf then
             (case relLink os w target linkName of
                Inl err \<Rightarrow> (Val (Some err), w)
              | Inr relTarget \<Rightarrow>
                  let dir = Dir linkName;
                      l = (if dir \<noteq> [] then Base linkName else linkName)
                  in then_do (if dir \<noteq> [] then os_do os (Chdir dir) w else (Val None, w)) (\<lambda>err w.
                       if err \<noteq> None then (Val err, w)
                       else then_do (do_link os symf relTarget l w) (\<lambda>err w.
                         if err \<noteq> None then (Val err, w)
                         else then_do (os_do os (Chdir orig) w) (\<lambda>err w.
                           if err \<noteq> None then (Val err, w) else say relTarget l w))))
           else
             then_do (do_link os symf target linkName w) (\<lambda>err w.
               if err \<noteq> None then (Val err, w) else say target linkName w))"

fun ln_loop ::
    "'w os_env \<Rightarrow> config \<Rightarrow> string \<Rightarrow> string \<Rightarrow> string list \<Rightarrow> bool \<Rightarrow> 'w \<Rightarrow> goerr option res \<times> 'w" where
  "ln_loop os conf orig linkName0 [] remove w = (Val None, w)"
| "ln_loop os conf orig linkName0 (target0 # targets) remove w =
     (case dereferTarget os w conf target0 (symlink conf) of
        Fail err \<Rightarrow> (Val (Some err), w)
      | Panic p \<Rightarrow> (Crash p, w)
      | Ret (target, symf) \<Rightarrow>
          let l = inferLinkName target linkName0;
              linkName = (if dirtgt conf \<noteq> [] then Join [dirtgt conf, l] else l)
          in then_do (clear_dest os conf linkName remove w) (\<lambda>d w.
               case d of
                 Skip \<Rightarrow> ln_loop os conf orig linkName0 targets False w
               | Stop err \<Rightarrow> (Val (Some err), w)
               | GoOn remove' \<Rightarrow>
                   then_do (make_link os conf orig symf target linkName w) (\<lambda>err w.
                     if err \<noteq> None then (Val err, w) else ln_loop os conf orig linkName0 targets remove' w)))"

definition ln :: "'w os_env \<Rightarrow> config \<Rightarrow> string list \<Rightarrow> 'w \<Rightarrow> goerr option res \<times> 'w" where
  "ln os conf args w =
     (case os_getwd os w of
        Inl err \<Rightarrow> (Val (Some err), w)
      | Inr originalPath \<Rightarrow>
          (case evalArgs os w conf args of (targets, linkName, conf') \<Rightarrow>
             ln_loop os conf' originalPath linkName targets False w))"

text \<open>Without operands the usage is printed, but the program goes on.\<close>

definition ln_main :: "'w os_env \<Rightarrow> string list \<Rightarrow> 'w \<Rightarrow> unit res \<times> 'w" where
  "ln_main os argv w =
     (case Parse ln_formal ln_defaults argv of
        Inl _ \<Rightarrow> (Exit 2, w)
      | Inr (conf, args) \<Rightarrow>
          let w' = (if args = [] then snd (os_kernel os (Printf ''ln: missing file operand'' []) w) else w)
          in then_do (ln os conf args w') (\<lambda>err w. (if err = None then Val () else Exit 1, w)))"

section \<open>What it does\<close>

text \<open>Symbolic links into a directory: one call for each target, with the name of the target in that directory.\<close>

lemma ln_loop_plain:
  assumes "\<not> logical conf" "\<not> physical conf" "\<not> relative conf" "\<not> verbose conf" "dirtgt conf \<noteq> []"
    and "os_kernel os = log_kernel {}" and "\<And>w fname. \<not> exists_name os w fname"
  shows "ln_loop os conf orig [] targets remove w =
    (Val None, w @ map (\<lambda>t. (if symlink conf then Symlink else Link) t (Join [dirtgt conf, Base t])) targets)"
  using assms
  by (induction targets arbitrary: remove w)
    (auto simp: dereferTarget_def clear_dest_def make_link_def do_link_def os_do_def log_kernel_def inferLinkName_def Let_def)

text \<open>With \<^verbatim>\<open>-P\<close> a target that is a symbolic link gets a symbolic link to the file behind it, no hard link.\<close>

lemma ln_physical_makes_symlink:
  assumes "physical conf" and "EvalSymlinks os w target = Ret t" and "t \<noteq> target"
  shows "dereferTarget os w conf target symf = Ret (t, True)"
  using assms by (simp add: dereferTarget_def)

end
