(* ===== verification/File_Cmds.thy ===== *)
theory File_Cmds
  imports Go_Fs Go_Flag
begin

text \<open>
  The small file commands \<^verbatim>\<open>mv\<close>, \<^verbatim>\<open>rm\<close>, \<^verbatim>\<open>mkdir\<close> and
  \<^verbatim>\<open>readlink\<close> of \<^verbatim>\<open>src/cmds\<close>.
\<close>

section \<open>mv\<close>

text \<open>The renames of \<^verbatim>\<open>mv\<close> stop at the first error.\<close>

fun mv_into :: "'w os_env \<Rightarrow> string \<Rightarrow> string list \<Rightarrow> 'w \<Rightarrow> goerr option res \<times> 'w" where
  "mv_into os lf [] w = (Val None, w)"
| "mv_into os lf (f # fs) w =
     then_do (os_do os (Rename f (Join [lf, Base f])) w) (\<lambda>err w.
       if err \<noteq> None then (Val err, w) else mv_into os lf fs w)"

definition mv :: "'w os_env \<Rightarrow> string list \<Rightarrow> bool \<Rightarrow> 'w \<Rightarrow> goerr option res \<times> 'w" where
  "mv os files todir w =
     (if length files = 2 \<and> \<not> todir then os_do os (Rename (files ! 0) (files ! 1)) w
      else mv_into os (last files) (butlast files) w)"

definition mv_main :: "'w os_env \<Rightarrow> string list \<Rightarrow> 'w \<Rightarrow> unit res \<times> 'w" where
  "mv_main os argv w =
     (case Parse (\<lambda>_. None) () argv of
        Inl _ \<Rightarrow> (Exit 2, w)
      | Inr (_, files) \<Rightarrow>
          if length files < 2 then (Exit 1, w)
          else
            let lf = last files;
                todir = (case os_lstat os lf w of Inl _ \<Rightarrow> False | Inr st \<Rightarrow> is_dir st)
            in if length files > 2 \<and> \<not> todir
               then (Exit 1, snd (os_kernel os (Printf ''not a directory: %s'' [lf]) w))
               else then_do (mv os files todir w) (\<lambda>err w. (if err = None then Val () else Exit 1, w)))"

lemma mv_into_calls:
  "mv_into os lf fs w =
     (case run_calls (os_kernel os) (map (\<lambda>f. Rename f (Join [lf, Base f])) fs) w of
        (Ret _, w') \<Rightarrow> (Val None, w') | (Fail e, w') \<Rightarrow> (Val (Some e), w') | (Panic p, w') \<Rightarrow> (Crash p, w'))"
  by (induction fs arbitrary: w) (auto simp: os_do_def finish_def sys_def split: prod.splits option.splits)

section \<open>rm\<close>

record rm_flags =
  rm_r :: bool
  rm_v :: bool
  rm_i :: bool

definition rm_formal :: "rm_flags formal" where
  "rm_formal n =
     (if n = ''i'' then Some (bool_flag (\<lambda>b. rm_i_update (\<lambda>_. b)))
      else if n = ''v'' then Some (bool_flag (\<lambda>b. rm_v_update (\<lambda>_. b)))
      else if n \<in> {''R'', ''r''} then Some (bool_flag (\<lambda>b. rm_r_update (\<lambda>_. b)))
      else None)"

text \<open>The question of \<^verbatim>\<open>-i\<close>: an error of the input counts as no.\<close>

definition rm_confirm :: "'w os_env \<Rightarrow> rm_flags \<Rightarrow> string \<Rightarrow> 'w \<Rightarrow> bool res \<times> 'w" where
  "rm_confirm os fl f w =
     (if \<not> rm_i fl then (Val True, w)
      else then_do (os_printf os ''rm: remove '%v'? '' [f] w) (\<lambda>_ w.
             case os_input os w of
               (Inl err, w) \<Rightarrow> (Val False, w)
             | (Inr answer, w) \<Rightarrow> (says_yes answer, w)))"

fun rm_loop :: "'w os_env \<Rightarrow> rm_flags \<Rightarrow> string \<Rightarrow> string list \<Rightarrow> 'w \<Rightarrow> goerr option res \<times> 'w" where
  "rm_loop os fl workingPath [] w = (Val None, w)"
| "rm_loop os fl workingPath (f # fs) w =
     then_do (rm_confirm os fl f w) (\<lambda>yes w.
       if \<not> yes then rm_loop os fl workingPath fs w
       else then_do (os_do os (if rm_r fl then RemoveAll f else Remove f) w) (\<lambda>err w.
         if err \<noteq> None then (Val err, w)
         else
           let toRemove = (if is_abs f then f else Join [workingPath, f])
           in rm_loop os fl workingPath fs
                (if rm_v fl then snd (os_kernel os (Printf (''removed '%v'' @ [CHR 0x27]) [toRemove]) w) else w)))"

definition rm :: "'w os_env \<Rightarrow> rm_flags \<Rightarrow> string list \<Rightarrow> 'w \<Rightarrow> goerr option res \<times> 'w" where
  "rm os fl files w =
     (case os_getwd os w of
        Inl err \<Rightarrow> (Val (Some err), w)
      | Inr workingPath \<Rightarrow> rm_loop os fl workingPath files w)"

definition rm_main :: "'w os_env \<Rightarrow> string list \<Rightarrow> 'w \<Rightarrow> unit res \<times> 'w" where
  "rm_main os argv w =
     (case Parse rm_formal \<lparr>rm_r = False, rm_v = False, rm_i = False\<rparr> argv of
        Inl _ \<Rightarrow> (Exit 2, w)
      | Inr (fl, files) \<Rightarrow>
          if files = [] then (Exit 1, w)
          else then_do (rm os fl files w) (\<lambda>err w. (if err = None then Val () else Exit 1, w)))"

text \<open>Without \<^verbatim>\<open>-i\<close> and \<^verbatim>\<open>-v\<close>: remove one after the other until an error.\<close>

lemma rm_loop_calls:
  "\<not> rm_i fl \<Longrightarrow> \<not> rm_v fl \<Longrightarrow>
   rm_loop os fl wd fs w =
     (case run_calls (os_kernel os) (map (if rm_r fl then RemoveAll else Remove) fs) w of
        (Ret _, w') \<Rightarrow> (Val None, w') | (Fail e, w') \<Rightarrow> (Val (Some e), w') | (Panic p, w') \<Rightarrow> (Crash p, w'))"
  by (induction fs arbitrary: w)
    (auto simp: os_do_def finish_def sys_def rm_confirm_def Let_def split: prod.splits option.splits)

section \<open>mkdir\<close>

record mkdir_flags =
  mk_all :: bool
  mk_mode :: int
  mk_verbose :: bool

definition mkdir_formal :: "mkdir_flags formal" where
  "mkdir_formal n =
     (if n = ''p'' then Some (bool_flag (\<lambda>b. mk_all_update (\<lambda>_. b)))
      else if n = ''m'' then Some (int64_flag (\<lambda>i. mk_mode_update (\<lambda>_. i)))
      else if n = ''v'' then Some (bool_flag (\<lambda>b. mk_verbose_update (\<lambda>_. b)))
      else None)"

text \<open>\<^verbatim>\<open>os.FileMode(*mode)\<close> keeps the low 32 bits. An error is printed and does not change the status.\<close>

fun mkdir_loop :: "'w os_env \<Rightarrow> mkdir_flags \<Rightarrow> string list \<Rightarrow> 'w \<Rightarrow> unit res \<times> 'w" where
  "mkdir_loop os fl [] w = (Val (), w)"
| "mkdir_loop os fl (name # names) w =
     (let m = word_of_int (mk_mode fl)
      in then_do (os_do os (if mk_all fl then MkdirAll name m else Mkdir name m) w) (\<lambda>err w.
           mkdir_loop os fl names
             (if err \<noteq> None then snd (os_kernel os (Printf ''%v: %v'' [name]) w)
              else if mk_verbose fl then snd (os_kernel os (Printf ''%v'' [name]) w)
              else w)))"

definition mkdir_main :: "'w os_env \<Rightarrow> string list \<Rightarrow> 'w \<Rightarrow> unit res \<times> 'w" where
  "mkdir_main os argv w =
     (case Parse mkdir_formal \<lparr>mk_all = False, mk_mode = 0x1B6, mk_verbose = False\<rparr> argv of
        Inl _ \<Rightarrow> (Exit 2, w)
      | Inr (fl, names) \<Rightarrow>
          if names = []
          then (Exit 1, snd (os_kernel os (Printf ''Usage: mkdir [-m mode] [-v] [-p] <directory> [more directories]'' []) w))
          else mkdir_loop os fl names w)"

lemma mkdir_never_fails: "fst (mkdir_loop os fl names w) = Val ()"
  by (induction names arbitrary: w) (auto simp: os_do_def Let_def split: prod.splits)

section \<open>readlink\<close>

record readlink_flags =
  rl_follow :: bool
  rl_verbose :: bool

definition readlink_formal :: "readlink_flags formal" where
  "readlink_formal n =
     (if n = ''f'' then Some (bool_flag (\<lambda>b. rl_follow_update (\<lambda>_. b)))
      else if n = ''v'' then Some (bool_flag (\<lambda>b. rl_verbose_update (\<lambda>_. b)))
      else None)"

text \<open>When following fails the path is printed as the empty string before the error is returned.\<close>

definition readLink :: "'w os_env \<Rightarrow> readlink_flags \<Rightarrow> string \<Rightarrow> 'w \<Rightarrow> goerr option res \<times> 'w" where
  "readLink os fl f w =
     (case os_readlink os f w of
        Inl err \<Rightarrow> (Val (Some err), w)
      | Inr path \<Rightarrow>
          if rl_follow fl then
            (case EvalSymlinks os w f of
               Ret p \<Rightarrow> then_do (os_printf os ''%s'' [p] w) (\<lambda>_ w. (Val None, w))
             | Fail err \<Rightarrow> then_do (os_printf os ''%s'' [[]] w) (\<lambda>_ w. (Val (Some err), w))
             | Panic p \<Rightarrow> (Crash p, w))
          else then_do (os_printf os ''%s'' [path] w) (\<lambda>_ w. (Val None, w)))"

fun readlink_loop :: "'w os_env \<Rightarrow> readlink_flags \<Rightarrow> string list \<Rightarrow> nat \<Rightarrow> 'w \<Rightarrow> unit res \<times> 'w" where
  "readlink_loop os fl [] exitStatus w = (Exit exitStatus, w)"
| "readlink_loop os fl (f # fs) exitStatus w =
     then_do (readLink os fl f w) (\<lambda>err w.
       readlink_loop os fl fs (if err = None then exitStatus else 1)
         (if err \<noteq> None \<and> rl_verbose fl then snd (os_kernel os (Printf ''%v'' []) w) else w))"

definition readlink_main :: "'w os_env \<Rightarrow> string list \<Rightarrow> 'w \<Rightarrow> unit res \<times> 'w" where
  "readlink_main os argv w =
     (case Parse readlink_formal \<lparr>rl_follow = False, rl_verbose = False\<rparr> argv of
        Inl _ \<Rightarrow> (Exit 2, w)
      | Inr (fl, files) \<Rightarrow> readlink_loop os fl files 0 w)"

end
