(* ===== verification/Tcz.thy ===== *)
theory Tcz
  imports Go_Fs Go_Flag Go_Strconv
begin

text \<open>
  The package installer \<^verbatim>\<open>tcz\<close> of \<^verbatim>\<open>src/cmds/tcz/tcz.go\<close>: fetching packages and their
  dependency lists from a server, the recursive installation of the dependencies, and the mounting of the packages.
  The HTTP server is a parameter \<open>get\<close>: a URL gives an error or a status line, a body and the error that ended
  the body.
\<close>

section \<open>Settings\<close>

type_synonym http = "string \<Rightarrow> goerr + (string \<times> bytes \<times> goerr option)"

record tcz_conf =
  host :: string
  port :: string
  tczServerDir :: string
  tczLocalPackageDir :: string
  ignorePackage :: "string list"

record tcz_flags =
  f_host :: string
  f_version :: string
  f_arch :: string
  f_port :: string
  f_install :: bool
  f_root :: string
  f_debug :: bool
  f_skip :: string

definition tcz_defaults :: tcz_flags where
  "tcz_defaults = \<lparr>f_host = ''tinycorelinux.net'', f_version = ''8.x'', f_arch = ''x86_64'', f_port = ''80'',
     f_install = True, f_root = ''/tcz'', f_debug = False, f_skip = []\<rparr>"

definition tcz_formal :: "tcz_flags formal" where
  "tcz_formal n =
     (if n = ''h'' then Some (string_flag (\<lambda>v. f_host_update (\<lambda>_. v)))
      else if n = ''v'' then Some (string_flag (\<lambda>v. f_version_update (\<lambda>_. v)))
      else if n = ''a'' then Some (string_flag (\<lambda>v. f_arch_update (\<lambda>_. v)))
      else if n = ''p'' then Some (string_flag (\<lambda>v. f_port_update (\<lambda>_. v)))
      else if n = ''i'' then Some (bool_flag (\<lambda>b. f_install_update (\<lambda>_. b)))
      else if n = ''r'' then Some (string_flag (\<lambda>v. f_root_update (\<lambda>_. v)))
      else if n = ''d'' then Some (bool_flag (\<lambda>b. f_debug_update (\<lambda>_. b)))
      else if n = ''skip'' then Some (string_flag (\<lambda>v. f_skip_update (\<lambda>_. v)))
      else None)"

section \<open>Fetching\<close>

definition url :: "tcz_conf \<Rightarrow> string \<Rightarrow> string" where
  "url c p = ''http://'' @ host c @ '':'' @ port c @ ''/'' @ Join [tczServerDir c, p]"

definition package_path :: "tcz_conf \<Rightarrow> string \<Rightarrow> string" where
  "package_path c p = Join [tczLocalPackageDir c, p]"

text \<open>A file that is there already, or whose status cannot be read, is not fetched. \<^verbatim>\<open>l.Fatal\<close> ends the process.\<close>

definition fetch :: "tcz_conf \<Rightarrow> 'w os_env \<Rightarrow> http \<Rightarrow> string \<Rightarrow> 'w \<Rightarrow> goerr option res \<times> 'w" where
  "fetch c os get p w =
     (let fullpath = package_path c p
      in case os_stat os fullpath w of
           Inr _ \<Rightarrow> (Val None, w)
         | Inl err \<Rightarrow>
             if \<not> IsNotExist err then (Val None, w)
             else (case get (url c p) of
                     Inl _ \<Rightarrow> (Exit 1, w)
                   | Inr (status, body, cerr) \<Rightarrow>
                       if status \<noteq> ''200 OK'' then (Val (Some ENOENT), w)
                       else then_do (os_do os (Create fullpath) w) (\<lambda>err w.
                         if err \<noteq> None then (Exit 1, w)
                         else then_do (os_do os (CopyTo fullpath body) w) (\<lambda>err w.
                           if err \<noteq> None \<or> cerr \<noteq> None then (Exit 1, w) else (Val None, w)))))"

section \<open>Installing\<close>

text \<open>
  The state of an installation: the keys of the map \<^verbatim>\<open>deps\<close> and the world. The loop over the lines of a
  dependency list gives the list without the ignored packages, or the error of an installation.
\<close>

fun dep_loop ::
    "(string \<Rightarrow> string list \<times> 'w \<Rightarrow> (goerr option res \<times> string list \<times> 'w) option) \<Rightarrow> string list \<Rightarrow> string list \<Rightarrow> string \<Rightarrow>
     string list \<times> 'w \<Rightarrow> ((goerr + string) res \<times> string list \<times> 'w) option" where
  "dep_loop rec ign [] real s = Some (Val (Inr real), s)"
| "dep_loop rec ign (v # vs) real s =
     (if v = [] then Some (Val (Inr real), s)
      else if v \<in> set ign then dep_loop rec ign vs real s
      else
        let real' = real @ v @ [newline]
        in if v \<in> set (fst s) then dep_loop rec ign vs real' s
           else (case rec v s of
                   None \<Rightarrow> None
                 | Some (Val None, s') \<Rightarrow> dep_loop rec ign vs real' s'
                 | Some (Val (Some err), s') \<Rightarrow> Some (Val (Inl err), s')
                 | Some (Exit k, s') \<Rightarrow> Some (Exit k, s')
                 | Some (Crash p, s') \<Rightarrow> Some (Crash p, s')))"

text \<open>
  \<^verbatim>\<open>installPackage\<close>. The server decides how deep the recursion goes, so its depth is bounded by fuel;
  \<open>None\<close> is a recursion that goes deeper.
\<close>

fun installPackage ::
    "nat \<Rightarrow> tcz_conf \<Rightarrow> 'w os_env \<Rightarrow> http \<Rightarrow> string \<Rightarrow> string list \<times> 'w \<Rightarrow> (goerr option res \<times> string list \<times> 'w) option" where
  "installPackage 0 c os get tczName s = None"
| "installPackage (Suc n) c os get tczName s =
     (let deps = fst s; depName = tczName @ ''.dep''; depFullPath = package_path c depName
      in case fetch c os get tczName (snd s) of
           (Val (Some _), w) \<Rightarrow> Some (Exit 1, deps, w)
         | (Exit k, w) \<Rightarrow> Some (Exit k, deps, w)
         | (Crash p, w) \<Rightarrow> Some (Crash p, deps, w)
         | (Val None, w) \<Rightarrow>
             let deps = List.insert tczName deps
             in (case fetch c os get depName w of
                   (Exit k, w) \<Rightarrow> Some (Exit k, deps, w)
                 | (Crash p, w) \<Rightarrow> Some (Crash p, deps, w)
                 | (Val (Some _), w) \<Rightarrow> Some (Val None, deps, snd (os_kernel os (WriteFile depFullPath [] 0x124) w))
                 | (Val None, w) \<Rightarrow>
                     (case os_read os depFullPath w of
                        Inl _ \<Rightarrow> Some (Exit 1, deps, w)
                      | Inr deplist \<Rightarrow>
                          (case dep_loop (installPackage n c os get) (ignorePackage c) (split_on newline deplist) [] (deps, w) of
                             None \<Rightarrow> None
                           | Some (Exit k, s') \<Rightarrow> Some (Exit k, s')
                           | Some (Crash p, s') \<Rightarrow> Some (Crash p, s')
                           | Some (Val (Inl err), s') \<Rightarrow> Some (Val (Some err), s')
                           | Some (Val (Inr realDepList), deps', w') \<Rightarrow>
                               if deplist = realDepList then Some (Val None, deps', w')
                               else (case os_kernel os (WriteFile depFullPath realDepList 0x124) w' of
                                       (err, w'') \<Rightarrow> Some (Val err, deps', w''))))))"

section \<open>Setting up\<close>

text \<open>\<^verbatim>\<open>findloop\<close>; the number of the free loop device is the result of an ioctl.\<close>

definition findloop :: "('w \<Rightarrow> goerr + nat) \<Rightarrow> 'w \<Rightarrow> string res \<times> 'w" where
  "findloop loop_free w = (case loop_free w of Inl _ \<Rightarrow> (Exit 1, w) | Inr a \<Rightarrow> (Val (''/dev/loop'' @ Itoa (int a)), w))"

text \<open>
  The function that \<^verbatim>\<open>clonetree\<close> gives to \<^verbatim>\<open>filepath.Walk\<close>: directories are made, everything
  else becomes a symbolic link into the mounted package. For a file that vanished, \<^verbatim>\<open>fi\<close> is nil.
\<close>

definition clone_fn :: "'w os_env \<Rightarrow> nat \<Rightarrow> 'w walk_fn" where
  "clone_fn os lt path fi err w =
     (case fi of
        None \<Rightarrow> (Crash ''invalid memory address or nil pointer dereference'', w)
      | Some st \<Rightarrow>
          if length path < lt then (Crash ''slice bounds out of range'', w)
          else
            let q = drop lt path
            in if is_dir st then
                 (if q = [] then (Val None, w) else (Val None, snd (os_kernel os (MkdirAll q 0x1C0) w)))
               else (case os_readlink os q w of
                       Inr target \<Rightarrow>
                         (Val (if target = path then None
                               else Some (Errorf ''symlink: need %q -> %q, but %q -> %q is already there'')), w)
                     | Inl _ \<Rightarrow>
                         then_do (os_do os (Symlink path q) w) (\<lambda>err w.
                           (Val (if err = None then None else Some (Errorf ''Symlink: %v'')), w))))"

definition clonetree :: "nat \<Rightarrow> 'w os_env \<Rightarrow> string \<Rightarrow> 'w \<Rightarrow> (unit res \<times> 'w) option" where
  "clonetree n os tree w =
     map_option (\<lambda>r. then_do r (\<lambda>err w. (if err = None then Val () else Exit 1, w))) (Walk n os (clone_fn os (length tree)) tree w)"

text \<open>\<^verbatim>\<open>filepath.Ext\<close>, and \<^verbatim>\<open>strings.Split(v, sep)[0]\<close>: with an empty separator the first character.\<close>

definition Ext :: "string \<Rightarrow> string" where
  "Ext p =
     (let f = snd (path_Split p); t = takeWhile (\<lambda>c. c \<noteq> CHR ''.'') (rev f)
      in if length t = length f then [] else CHR ''.'' # rev t)"

fun before :: "string \<Rightarrow> string \<Rightarrow> string" where
  "before sep [] = []"
| "before sep (c # cs) = (if take (length sep) (c # cs) = sep then [] else c # before sep cs)"

definition split_head :: "string \<Rightarrow> string \<Rightarrow> string" where
  "split_head v sep = (if sep = [] then take (rune_size v) v else before sep v)"

definition setup_one ::
    "nat \<Rightarrow> tcz_conf \<Rightarrow> 'w os_env \<Rightarrow> ('w \<Rightarrow> goerr + nat) \<Rightarrow> string \<Rightarrow> 'w \<Rightarrow> (unit res \<times> 'w) option" where
  "setup_one n c os loop_free v w =
     (if v = [] \<and> Ext v = [] then Some (Crash ''index out of range'', w)
      else
        let packagePath = Join [''/tmp/tcloop'', split_head v (Ext v)]
        in case os_stat os packagePath w of
             Inr _ \<Rightarrow> Some (Val (), w)
           | Inl _ \<Rightarrow>
               (case os_kernel os (MkdirAll packagePath 0x1C0) w of
                  (Some _, w) \<Rightarrow> Some (Exit 1, w)
                | (None, w) \<Rightarrow>
                    (case findloop loop_free w of
                       (Val loopname, w) \<Rightarrow>
                         let pkgpath = package_path c v
                         in if os_open os pkgpath w \<noteq> None \<or> os_open os loopname w \<noteq> None then Some (Exit 1, w)
                            else (case os_kernel os (LoopSetFd loopname pkgpath) w of
                                    (Some _, w) \<Rightarrow> Some (Exit 1, w)
                                  | (None, w) \<Rightarrow>
                                      (case os_kernel os (Mount loopname packagePath ''squashfs'' 0xC0ED0001 []) w of
                                         (Some _, w) \<Rightarrow> Some (Exit 1, w)
                                       | (None, w) \<Rightarrow> clonetree n os packagePath w))
                     | (Exit k, w) \<Rightarrow> Some (Exit k, w)
                     | (Crash p, w) \<Rightarrow> Some (Crash p, w))))"

text \<open>The packages in the order in which the map is iterated.\<close>

fun setupPackages ::
    "nat \<Rightarrow> tcz_conf \<Rightarrow> 'w os_env \<Rightarrow> ('w \<Rightarrow> goerr + nat) \<Rightarrow> string list \<Rightarrow> 'w \<Rightarrow> (unit res \<times> 'w) option" where
  "setupPackages n c os loop_free [] w = Some (Val (), w)"
| "setupPackages n c os loop_free (v # vs) w =
     (case setup_one n c os loop_free v w of
        Some (Val (), w') \<Rightarrow> setupPackages n c os loop_free vs w'
      | r \<Rightarrow> r)"

section \<open>The command\<close>

text \<open>\<^verbatim>\<open>strings.Fields\<close>\<close>

fun fields_of :: "bytes list \<Rightarrow> bytes \<Rightarrow> bytes list" where
  "fields_of [] cur = (if cur = [] then [] else [cur])"
| "fields_of (r # rs) cur =
     (if IsSpace r then (if cur = [] then fields_of rs [] else cur # fields_of rs []) else fields_of rs (cur @ r))"

definition Fields :: "bytes \<Rightarrow> bytes list" where
  "Fields s = fields_of (runes s) []"

definition tcz_setup :: "tcz_flags \<Rightarrow> tcz_conf" where
  "tcz_setup f =
     (let srv = Join [''/'', f_version f, f_arch f, ''/tcz'']
      in \<lparr>host = f_host f, port = f_port f, tczServerDir = srv, tczLocalPackageDir = Join [f_root f, srv],
          ignorePackage = map (\<lambda>p. p @ ''.tcz'') (Fields (f_skip f))\<rparr>)"

fun tcz_loop ::
    "nat \<Rightarrow> tcz_conf \<Rightarrow> 'w os_env \<Rightarrow> http \<Rightarrow> ('w \<Rightarrow> goerr + nat) \<Rightarrow> (string list \<Rightarrow> string list) \<Rightarrow> bool \<Rightarrow> string list \<Rightarrow>
     string list \<times> 'w \<Rightarrow> (unit res \<times> string list \<times> 'w) option" where
  "tcz_loop n c os get loop_free ord inst [] s = Some (Val (), s)"
| "tcz_loop n c os get loop_free ord inst (cmdName # cmds) s =
     (case installPackage n c os get (cmdName @ ''.tcz'') s of
        None \<Rightarrow> None
      | Some (Exit k, s') \<Rightarrow> Some (Exit k, s')
      | Some (Crash p, s') \<Rightarrow> Some (Crash p, s')
      | Some (Val (Some err), s') \<Rightarrow> Some (Exit 1, s')
      | Some (Val None, deps, w) \<Rightarrow>
          if inst then
            (case setupPackages n c os loop_free (ord deps) w of
               None \<Rightarrow> None
             | Some (Val (), w') \<Rightarrow> tcz_loop n c os get loop_free ord inst cmds (deps, w')
             | Some (Exit k, w') \<Rightarrow> Some (Exit k, deps, w')
             | Some (Crash p, w') \<Rightarrow> Some (Crash p, deps, w'))
          else tcz_loop n c os get loop_free ord inst cmds (deps, w))"

definition tcz_main ::
    "nat \<Rightarrow> 'w os_env \<Rightarrow> http \<Rightarrow> ('w \<Rightarrow> goerr + nat) \<Rightarrow> (string list \<Rightarrow> string list) \<Rightarrow> string list \<Rightarrow> 'w \<Rightarrow>
     (unit res \<times> string list \<times> 'w) option" where
  "tcz_main n os get loop_free ord argv w =
     (case Parse tcz_formal tcz_defaults argv of
        Inl _ \<Rightarrow> Some (Exit 2, [], w)
      | Inr (f, packages) \<Rightarrow>
          if packages = [] then Some (Exit 1, [], w)
          else (case os_kernel os (MkdirAll (tczLocalPackageDir (tcz_setup f)) 0x1C0) w of
                  (Some _, w) \<Rightarrow> Some (Exit 1, [], w)
                | (None, w) \<Rightarrow>
                    (case os_kernel os (MkdirAll ''/tmp/tcloop'' 0x1C0) w of
                       (Some _, w) \<Rightarrow> Some (Exit 1, [], w)
                     | (None, w) \<Rightarrow> tcz_loop n (tcz_setup f) os get loop_free ord (f_install f) packages ([], w))))"

section \<open>The contract of the package directory\<close>

text \<open>
  What the installation relies on: the package directory is a collection of files that can be created and written.
\<close>

locale package_dir =
  fixes os :: "'w os_env" and files :: "'w \<Rightarrow> string \<rightharpoonup> bytes"
  assumes stat: "os_stat os p w = Inl err \<longleftrightarrow> files w p = None \<and> err = ENOENT"
    and read: "files w p = Some b \<Longrightarrow> os_read os p w = Inr b"
    and create: "\<exists>w'. os_kernel os (Create p) w = (None, w') \<and> files w' = (files w)(p \<mapsto> [])"
    and copy: "files w p \<noteq> None \<Longrightarrow> \<exists>w'. os_kernel os (CopyTo p b) w = (None, w') \<and> files w' = (files w)(p \<mapsto> b)"
    and writ: "\<exists>w'. os_kernel os (WriteFile p b m) w = (None, w') \<and> files w' = (files w)(p \<mapsto> b)"

text \<open>A server that answers every request of a set of names completely.\<close>

definition answers :: "http \<Rightarrow> tcz_conf \<Rightarrow> string \<Rightarrow> bytes option" where
  "answers get c p = (case get (url c p) of Inr (status, body, _) \<Rightarrow> if status = ''200 OK'' then Some body else None | Inl _ \<Rightarrow> None)"

definition serves :: "http \<Rightarrow> tcz_conf \<Rightarrow> string \<Rightarrow> bool" where
  "serves get c p \<longleftrightarrow> (\<exists>status body. get (url c p) = Inr (status, body, None))"

text \<open>What a name stands for: the local file, or else what the server has.\<close>

definition view :: "http \<Rightarrow> tcz_conf \<Rightarrow> (string \<rightharpoonup> bytes) \<Rightarrow> string \<Rightarrow> bytes option" where
  "view get c fs p = (case fs (package_path c p) of Some b \<Rightarrow> Some b | None \<Rightarrow> answers get c p)"

text \<open>The packages a dependency list names, and the dependencies of a package.\<close>

definition wanted :: "tcz_conf \<Rightarrow> bytes \<Rightarrow> string list" where
  "wanted c text = filter (\<lambda>v. v \<notin> set (ignorePackage c)) (takeWhile (\<lambda>v. v \<noteq> []) (split_on newline text))"

definition requires :: "http \<Rightarrow> tcz_conf \<Rightarrow> (string \<rightharpoonup> bytes) \<Rightarrow> string \<Rightarrow> string list" where
  "requires get c fs p = (case view get c fs (p @ ''.dep'') of None \<Rightarrow> [] | Some b \<Rightarrow> wanted c b)"

definition dep_text :: "string list \<Rightarrow> bytes" where
  "dep_text vs = concat (map (\<lambda>v. v @ [newline]) vs)"

text \<open>
  An installation among a finite set \<open>N\<close> of packages, closed under dependencies and all available, starting with
  the files \<open>fs0\<close>.
\<close>

locale tcz_run = package_dir os files for os :: "'w os_env" and files +
  fixes c :: tcz_conf and get :: http and N :: "string set" and fs0 :: "string \<rightharpoonup> bytes"
  assumes finite_N: "finite N"
    and inj: "inj_on (package_path c) (N \<union> (\<lambda>p. p @ ''.dep'') ` N)"
    and served: "x \<in> N \<union> (\<lambda>p. p @ ''.dep'') ` N \<Longrightarrow> serves get c x"
    and closed_N: "p \<in> N \<Longrightarrow> set (requires get c fs0 p) \<subseteq> N"
    and available: "p \<in> N \<Longrightarrow> view get c fs0 p \<noteq> None"
begin

abbreviation names :: "string set" where
  "names \<equiv> N \<union> (\<lambda>p. p @ ''.dep'') ` N"

abbreviation file_of :: "'w \<Rightarrow> string \<Rightarrow> bytes option" where
  "file_of w x \<equiv> files w (package_path c x)"

abbreviation req :: "string \<Rightarrow> string list" where
  "req \<equiv> requires get c fs0"

definition ready :: "'w \<Rightarrow> bool" where
  "ready w \<longleftrightarrow> (\<forall>p \<in> N. requires get c (files w) p = req p \<and> view get c (files w) p \<noteq> None)"

definition installed :: "string \<Rightarrow> 'w \<Rightarrow> bool" where
  "installed p w \<longleftrightarrow> file_of w p \<noteq> None \<and> file_of w (p @ ''.dep'') = Some (dep_text (req p))"

definition grows :: "'w \<Rightarrow> 'w \<Rightarrow> bool" where
  "grows w w' \<longleftrightarrow> (\<forall>x \<in> names. file_of w x \<noteq> None \<longrightarrow> file_of w' x \<noteq> None) \<and> (\<forall>p \<in> N. installed p w \<longrightarrow> installed p w')"

lemma grows_refl: "grows w w"
  by (simp add: grows_def)

lemma grows_trans: "grows w w' \<Longrightarrow> grows w' w'' \<Longrightarrow> grows w w''"
  by (simp add: grows_def)

lemma update_name:
  "files w' = (files w)(package_path c x \<mapsto> b) \<Longrightarrow> x \<in> names \<Longrightarrow> y \<in> names \<Longrightarrow>
     file_of w' y = (if y = x then Some b else file_of w y)"
  using inj by (auto dest: inj_onD)

lemma view_same:
  assumes "\<And>y. y \<in> names \<Longrightarrow> view get c (files w') y = view get c (files w) y" and "ready w"
  shows "ready w'"
proof -
  have "requires get c (files w') p = requires get c (files w) p" if "p \<in> N" for p
    using assms(1) [of "p @ ''.dep''"] that by (simp add: requires_def)
  with assms show ?thesis by (simp add: ready_def)
qed

lemma fetch_there:
  assumes "x \<in> names" and "view get c (files w) x = Some b"
  obtains w' where "fetch c os get x w = (Val None, w')"
    and "\<And>y. y \<in> names \<Longrightarrow> file_of w' y = (if y = x then Some b else file_of w y)"
    and "ready w \<Longrightarrow> ready w'" and "grows w w'"
proof (cases "file_of w x")
  case (Some b')
  then have "b' = b" using assms(2) by (simp add: view_def)
  obtain st where "os_stat os (package_path c x) w = Inr st"
    using stat [of "package_path c x" w] Some by (cases "os_stat os (package_path c x) w") auto
  with Some \<open>b' = b\<close> that [of w] show ?thesis by (simp add: fetch_def grows_refl)
next
  case None
  then have a: "answers get c x = Some b" using assms(2) by (simp add: view_def)
  with served [OF assms(1)] have g: "get (url c x) = Inr (''200 OK'', b, None)"
    by (auto simp: answers_def serves_def split: if_splits)
  obtain w1 where w1: "os_kernel os (Create (package_path c x)) w = (None, w1)"
      "files w1 = (files w)(package_path c x \<mapsto> [])" using create by blast
  obtain w2 where w2: "os_kernel os (CopyTo (package_path c x) b) w1 = (None, w2)"
      "files w2 = (files w1)(package_path c x \<mapsto> b)" using copy [of w1 "package_path c x" b] w1(2) by auto
  have f: "file_of w2 y = (if y = x then Some b else file_of w y)" if "y \<in> names" for y
    using update_name [of w2 w x b y] w1(2) w2(2) assms(1) that by simp
  have "fetch c os get x w = (Val None, w2)"
    using None stat [of "package_path c x" w ENOENT] g w1(1) w2(1)
    by (simp add: fetch_def os_do_def IsNotExist_def ENOENT_def)
  moreover have "view get c (files w2) y = view get c (files w) y" if "y \<in> names" for y
    using f [OF that] None a by (simp add: view_def)
  then have "ready w \<Longrightarrow> ready w2" using view_same by blast
  moreover have "grows w w2"
    using f None by (auto simp: grows_def installed_def)
  ultimately show ?thesis using that f by blast
qed

lemma fetch_missing:
  assumes "x \<in> names" and "view get c (files w) x = None"
  shows "fetch c os get x w = (Val (Some ENOENT), w)"
proof -
  have n: "file_of w x = None" "answers get c x = None"
    using assms(2) by (auto simp: view_def split: option.splits)
  with served [OF assms(1)] obtain status body where "get (url c x) = Inr (status, body, None)" "status \<noteq> ''200 OK''"
    by (auto simp: answers_def serves_def split: if_splits)
  with n stat [of "package_path c x" w ENOENT] show ?thesis
    by (simp add: fetch_def IsNotExist_def ENOENT_def)
qed

lemma split_dep_text:
  "\<forall>v \<in> set vs. newline \<notin> set v \<Longrightarrow> split_on newline (dep_text vs) = vs @ [[]]"
  by (induction vs) (simp_all add: dep_text_def split_append_sep)

lemma req_lines: "v \<in> set (req p) \<Longrightarrow> v \<noteq> [] \<and> newline \<notin> set v \<and> v \<notin> set (ignorePackage c)"
  by (auto simp: requires_def wanted_def dest!: set_takeWhileD split_elems_no_sep split: option.splits)

lemma wanted_dep_text: "wanted c (dep_text (req p)) = req p"
proof -
  have lines: "\<forall>v \<in> set (req p). v \<noteq> [] \<and> newline \<notin> set v \<and> v \<notin> set (ignorePackage c)" using req_lines by blast
  then have "split_on newline (dep_text (req p)) = req p @ [[]]" by (intro split_dep_text) blast
  with lines show ?thesis
    by (simp add: wanted_def takeWhile_append2 filter_id_conv)
qed

lemma write_dep:
  assumes p: "p \<in> N"
  obtains w' where "os_kernel os (WriteFile (package_path c (p @ ''.dep'')) (dep_text (req p)) m) w = (None, w')"
    and "ready w \<Longrightarrow> ready w'" and "grows w w'" and "file_of w' (p @ ''.dep'') = Some (dep_text (req p))"
    and "\<And>y. y \<in> names \<Longrightarrow> y \<noteq> p @ ''.dep'' \<Longrightarrow> file_of w' y = file_of w y"
proof -
  let ?d = "p @ ''.dep''"
  have d: "?d \<in> names" using p by blast
  obtain w' where w': "os_kernel os (WriteFile (package_path c ?d) (dep_text (req p)) m) w = (None, w')"
      "files w' = (files w)(package_path c ?d \<mapsto> dep_text (req p))" using writ by blast
  have f: "file_of w' y = (if y = ?d then Some (dep_text (req p)) else file_of w y)" if "y \<in> names" for y
    using update_name [OF w'(2) d that] .
  have "requires get c (files w') q = req q \<and> view get c (files w') q \<noteq> None" if "ready w" "q \<in> N" for q
  proof (cases "q = p")
    case True
    then show ?thesis
      using that f [of ?d] f [of q] d wanted_dep_text [of p] by (auto simp: requires_def view_def ready_def)
  next
    case False
    then show ?thesis
      using that f [of "q @ ''.dep''"] f [of q] by (auto simp: requires_def view_def ready_def split: if_splits)
  qed
  then have "ready w \<Longrightarrow> ready w'" by (simp add: ready_def)
  moreover have "installed q w'" if "q \<in> N" "installed q w" for q
    using that f [of q] f [of "q @ ''.dep''"] by (auto simp: installed_def)
  then have "grows w w'" using f by (auto simp: grows_def)
  ultimately show ?thesis using that [OF w'(1)] f d by auto
qed

text \<open>The dependency graph and what an installation of \<open>p\<close> does to the set of packages and the files.\<close>

definition edges :: "(string \<times> string) set" where
  "edges = {(p, q). p \<in> N \<and> q \<in> set (req p)}"

definition reach :: "string \<Rightarrow> string set" where
  "reach p = edges\<^sup>* `` {p}"

definition keeps :: "string set \<Rightarrow> 'w \<Rightarrow> 'w \<Rightarrow> bool" where
  "keeps Q w w' \<longleftrightarrow> grows w w' \<and>
     (\<forall>q \<in> Q. file_of w (q @ ''.dep'') \<noteq> None \<longrightarrow> file_of w' (q @ ''.dep'') = file_of w (q @ ''.dep''))"

definition adds :: "string set \<Rightarrow> string list \<Rightarrow> string list \<Rightarrow> 'w \<Rightarrow> bool" where
  "adds new ds ds' w' \<longleftrightarrow> set ds \<subseteq> set ds' \<and> set ds' \<subseteq> set ds \<union> new \<and> (distinct ds \<longrightarrow> distinct ds') \<and>
     (\<forall>x \<in> set ds' - set ds. installed x w' \<and> set (req x) \<subseteq> set ds')"

definition post :: "string \<Rightarrow> string list \<Rightarrow> 'w \<Rightarrow> string list \<Rightarrow> 'w \<Rightarrow> bool" where
  "post p ds w ds' w' \<longleftrightarrow> ready w' \<and> keeps (set ds - {p}) w w' \<and> adds (reach p) ds ds' w' \<and>
     p \<in> set ds' \<and> installed p w' \<and> set (req p) \<subseteq> set ds'"

lemma reach_N: "p \<in> N \<Longrightarrow> reach p \<subseteq> N"
proof
  fix q
  assume p: "p \<in> N" and "q \<in> reach p"
  then have "(p, q) \<in> edges\<^sup>*" by (simp add: reach_def)
  then show "q \<in> N" by (induction rule: rtrancl_induct) (use p closed_N in \<open>auto simp: edges_def\<close>)
qed

lemma reach_self: "p \<in> reach p"
  by (simp add: reach_def)

lemma reach_step: "p \<in> N \<Longrightarrow> q \<in> set (req p) \<Longrightarrow> reach q \<subseteq> reach p"
  by (auto simp: reach_def edges_def intro: converse_rtrancl_into_rtrancl)

lemma adds_trans:
  assumes "adds new ds ds1 w1" and "adds new ds1 ds2 w2" and "grows w1 w2" and "set ds \<union> new \<subseteq> N"
  shows "adds new ds ds2 w2"
proof -
  have "installed x w2 \<and> set (req x) \<subseteq> set ds2" if "x \<in> set ds2 - set ds" for x
  proof (cases "x \<in> set ds1")
    case True
    then have "installed x w1" "set (req x) \<subseteq> set ds1" "x \<in> N"
      using that assms(1,4) by (auto simp: adds_def)
    with assms(2,3) show ?thesis by (auto simp: adds_def grows_def)
  qed (use that assms(2) in \<open>auto simp: adds_def\<close>)
  with assms(1,2) show ?thesis by (auto simp: adds_def)
qed

lemma adds_mono: "adds new ds ds' w \<Longrightarrow> new \<subseteq> new' \<Longrightarrow> adds new' ds ds' w"
  by (auto simp: adds_def)

lemma keeps_trans:
  assumes "keeps Q w w1" and "keeps Q' w1 w2" and "Q \<subseteq> Q'"
  shows "keeps Q w w2"
  unfolding keeps_def
proof (intro conjI ballI impI)
  show "grows w w2" using assms(1,2) by (auto simp: keeps_def intro: grows_trans)
  fix q
  assume "q \<in> Q" "file_of w (q @ ''.dep'') \<noteq> None"
  moreover from this have "file_of w1 (q @ ''.dep'') = file_of w (q @ ''.dep'')" using assms(1) by (simp add: keeps_def)
  moreover have "q \<in> Q'" using \<open>q \<in> Q\<close> assms(3) by blast
  ultimately show "file_of w2 (q @ ''.dep'') = file_of w (q @ ''.dep'')" using assms(2) by (simp add: keeps_def)
qed

lemma dep_loop_post:
  fixes rec vs
  defines "want \<equiv> \<lambda>vs. filter (\<lambda>v. v \<notin> set (ignorePackage c)) (takeWhile (\<lambda>v. v \<noteq> []) vs)"
  assumes rec: "\<And>v ds1 w1. v \<in> set (want vs) \<Longrightarrow> set ds \<subseteq> set ds1 \<Longrightarrow> set ds1 \<subseteq> N \<Longrightarrow> ready w1 \<Longrightarrow> v \<notin> set ds1 \<Longrightarrow>
      \<exists>ds' w'. rec v (ds1, w1) = Some (Val None, ds', w') \<and> post v ds1 w1 ds' w'"
    and new: "\<And>v. v \<in> set (want vs) \<Longrightarrow> reach v \<subseteq> R" and "R \<subseteq> N" and "set ds \<subseteq> N" and "ready w"
  shows "\<exists>ds' w'. dep_loop rec (ignorePackage c) vs real (ds, w) = Some (Val (Inr (real @ dep_text (want vs))), ds', w') \<and>
    ready w' \<and> keeps (set ds) w w' \<and> adds R ds ds' w' \<and> set (want vs) \<subseteq> set ds'"
  using rec new assms(5,6)
proof (induction vs arbitrary: ds w real)
  case Nil
  then show ?case by (simp add: want_def dep_text_def keeps_def grows_refl adds_def)
next
  case (Cons v vs)
  note IH = Cons.IH
  consider "v = []" | "v \<noteq> []" "v \<in> set (ignorePackage c)" | (kept) "v \<noteq> []" "v \<notin> set (ignorePackage c)" by blast
  then show ?case
  proof cases
    case 1
    with Cons.prems show ?thesis by (simp add: want_def dep_text_def keeps_def grows_refl adds_def)
  next
    case 2
    then have "want (v # vs) = want vs" by (simp add: want_def)
    with IH [of ds w real] Cons.prems 2 show ?thesis by simp
  next
    case kept
    then have w: "want (v # vs) = v # want vs" by (simp add: want_def)
    have dt: "real @ dep_text (v # want vs) = (real @ v @ [newline]) @ dep_text (want vs)" by (simp add: dep_text_def)
    obtain ds1 w1 where step: "v \<in> set ds \<and> ds1 = ds \<and> w1 = w \<or>
        v \<notin> set ds \<and> rec v (ds, w) = Some (Val None, ds1, w1)"
        and s1: "ready w1" "keeps (set ds) w w1" "adds R ds ds1 w1" "v \<in> set ds1"
    proof (cases "v \<in> set ds")
      case True
      with that [of ds w] Cons.prems(4) show ?thesis by (simp add: keeps_def grows_refl adds_def)
    next
      case False
      with Cons.prems(1) [of v ds w] Cons.prems(3,4) w obtain ds1 w1
        where *: "rec v (ds, w) = Some (Val None, ds1, w1)" "post v ds w ds1 w1" by auto
      moreover have "set ds - {v} = set ds" using False by blast
      moreover have "reach v \<subseteq> R" using Cons.prems(2) w by simp
      ultimately show ?thesis using that [of ds1 w1] False by (auto simp: post_def intro: adds_mono)
    qed
    have sub: "set ds \<subseteq> set ds1" "set ds1 \<subseteq> N"
      using s1(3) Cons.prems(3) \<open>R \<subseteq> N\<close> by (auto simp: adds_def)
    have "\<exists>ds' w'. dep_loop rec (ignorePackage c) vs (real @ v @ [newline]) (ds1, w1) =
        Some (Val (Inr ((real @ v @ [newline]) @ dep_text (want vs))), ds', w') \<and>
      ready w' \<and> keeps (set ds1) w1 w' \<and> adds R ds1 ds' w' \<and> set (want vs) \<subseteq> set ds'"
    proof (rule IH)
      show "\<exists>ds' w'. rec u (ds2, w2) = Some (Val None, ds', w') \<and> post u ds2 w2 ds' w'"
        if "u \<in> set (want vs)" "set ds1 \<subseteq> set ds2" "set ds2 \<subseteq> N" "ready w2" "u \<notin> set ds2" for u ds2 w2
        using Cons.prems(1) [of u ds2 w2] that sub w by auto
      show "reach u \<subseteq> R" if "u \<in> set (want vs)" for u using Cons.prems(2) that w by simp
    qed (use sub s1 in auto)
    then obtain ds' w' where r: "dep_loop rec (ignorePackage c) vs (real @ v @ [newline]) (ds1, w1) =
        Some (Val (Inr ((real @ v @ [newline]) @ dep_text (want vs))), ds', w')"
      "ready w'" "keeps (set ds1) w1 w'" "adds R ds1 ds' w'" "set (want vs) \<subseteq> set ds'" by blast
    have "dep_loop rec (ignorePackage c) (v # vs) real (ds, w) = Some (Val (Inr (real @ dep_text (v # want vs))), ds', w')"
      using step kept r(1) by (auto simp: dt)
    moreover have "keeps (set ds) w w'" using keeps_trans [OF s1(2) r(3) sub(1)] .
    moreover have "adds R ds ds' w'"
      using adds_trans [OF s1(3) r(4)] r(3) Cons.prems(3) \<open>R \<subseteq> N\<close> by (simp add: keeps_def)
    moreover have "v \<in> set ds'" using r(4) s1(4) by (auto simp: adds_def)
    ultimately show ?thesis using r(2,5) w by auto
  qed
qed

lemma fetch_keeps:
  assumes "x \<in> names" and "view get c (files w) x = Some b"
    and "\<And>y. y \<in> names \<Longrightarrow> file_of w' y = (if y = x then Some b else file_of w y)" and "grows w w'"
  shows "keeps N w w'"
proof -
  have "file_of w' (q @ ''.dep'') = file_of w (q @ ''.dep'')" if "q \<in> N" "file_of w (q @ ''.dep'') \<noteq> None" for q
    using assms(2) assms(3) [of "q @ ''.dep''"] that by (auto simp: view_def)
  with assms(4) show ?thesis by (simp add: keeps_def)
qed

lemma post_intro:
  assumes w: "keeps (set ds - {p}) w w'" "ready w'" "p \<in> N"
    and a: "adds (reach p) (List.insert p ds) ds' w'" and p: "installed p w'" "set (req p) \<subseteq> set ds'"
  shows "post p ds w ds' w'"
proof -
  have "p \<in> set ds'" "set ds \<subseteq> set ds'" using a by (auto simp: adds_def)
  moreover have "set ds' \<subseteq> set ds \<union> reach p" using a reach_self by (auto simp: adds_def)
  moreover have "distinct ds \<longrightarrow> distinct ds'" using a by (simp add: adds_def)
  moreover have "installed x w' \<and> set (req x) \<subseteq> set ds'" if "x \<in> set ds' - set ds" for x
    using a p that by (cases "x = p") (auto simp: adds_def)
  ultimately show ?thesis using w p by (simp add: post_def adds_def)
qed

lemma fuel_step:
  assumes "v \<in> N" and "v \<notin> set ds1" and "insert p (set ds) \<subseteq> set ds1" and "card (N - insert p (set ds)) < Suc n"
  shows "card (N - insert v (set ds1)) < n"
proof -
  have "N - insert v (set ds1) \<subset> N - insert p (set ds)" using assms(1-3) by blast
  with psubset_card_mono [of "N - insert p (set ds)" "N - insert v (set ds1)"] finite_N assms(4) show ?thesis by simp
qed

lemma finish_dep:
  assumes p: "p \<in> N" and w: "ready w" "file_of w p \<noteq> None" "file_of w (p @ ''.dep'') = Some t"
  obtains w' where
    "(if t = dep_text (req p) then Some (Val None, ds, w)
      else (case os_kernel os (WriteFile (package_path c (p @ ''.dep'')) (dep_text (req p)) m) w of
              (err, w'') \<Rightarrow> Some (Val err, ds, w''))) = Some (Val None, ds, w')"
    and "ready w'" and "keeps (N - {p}) w w'" and "installed p w'"
proof (cases "t = dep_text (req p)")
  case True
  with w that [of w] show ?thesis by (simp add: keeps_def grows_refl installed_def)
next
  case False
  obtain w' where w': "os_kernel os (WriteFile (package_path c (p @ ''.dep'')) (dep_text (req p)) m) w = (None, w')"
      "ready w'" "grows w w'" "file_of w' (p @ ''.dep'') = Some (dep_text (req p))"
      "\<And>y. y \<in> names \<Longrightarrow> y \<noteq> p @ ''.dep'' \<Longrightarrow> file_of w' y = file_of w y"
    using write_dep [OF p] w(1) by metis
  have "installed p w'" using w' w(2) p by (auto simp: installed_def grows_def)
  moreover have "keeps (N - {p}) w w'" using w'(3,5) by (auto simp: keeps_def)
  ultimately show ?thesis using that [of w'] w' False by simp
qed

lemma install_missing:
  assumes p: "p \<in> N" and ds: "set ds \<subseteq> N" and w: "ready w"
    and f: "fetch c os get p w = (Val None, w1)" "ready w1" "keeps N w w1" "file_of w1 p \<noteq> None"
    and none: "view get c (files w1) (p @ ''.dep'') = None"
  shows "\<exists>ds' w'. installPackage (Suc n) c os get p (ds, w) = Some (Val None, ds', w') \<and> post p ds w ds' w'"
proof -
  have d: "p @ ''.dep'' \<in> names" using p by blast
  have req: "req p = []" using f(2) p none by (auto simp: ready_def requires_def)
  obtain w2 where w2: "os_kernel os (WriteFile (package_path c (p @ ''.dep'')) [] 0x124) w1 = (None, w2)"
      "ready w2" "grows w1 w2" "file_of w2 (p @ ''.dep'') = Some []"
      "\<And>y. y \<in> names \<Longrightarrow> y \<noteq> p @ ''.dep'' \<Longrightarrow> file_of w2 y = file_of w1 y"
    using write_dep [OF p, where m = "0x124" and w = w1] f(2) by (auto simp: req dep_text_def)
  have "installPackage (Suc n) c os get p (ds, w) = Some (Val None, List.insert p ds, w2)"
    using f(1) fetch_missing [OF d none] w2(1) by simp
  moreover have "post p ds w (List.insert p ds) w2"
  proof (rule post_intro)
    have "keeps (N - {p}) w1 w2" using w2(3,5) by (auto simp: keeps_def)
    then have "keeps (set ds - {p}) w1 w2" using ds by (auto simp: keeps_def)
    moreover have "keeps (set ds - {p}) w w1" using f(3) ds by (auto simp: keeps_def)
    ultimately show "keeps (set ds - {p}) w w2" by (blast intro: keeps_trans)
    show "installed p w2" using w2(3,4) f(4) p by (auto simp: installed_def grows_def req dep_text_def)
  qed (use w2(2) p req in \<open>auto simp: adds_def\<close>)
  ultimately show ?thesis by blast
qed

lemma install_post:
  "p \<in> N \<Longrightarrow> set ds \<subseteq> N \<Longrightarrow> ready w \<Longrightarrow> card (N - insert p (set ds)) < n \<Longrightarrow>
   \<exists>ds' w'. installPackage n c os get p (ds, w) = Some (Val None, ds', w') \<and> post p ds w ds' w'"
proof (induction n arbitrary: p ds w)
  case (Suc n)
  note p = Suc.prems(1) and ds = Suc.prems(2) and w = Suc.prems(3)
  have d: "p @ ''.dep'' \<in> names" and pn: "p \<in> names" using p by auto
  obtain b where b: "view get c (files w) p = Some b" using w p by (auto simp: ready_def)
  obtain w1 where w1: "fetch c os get p w = (Val None, w1)" "ready w1" "keeps N w w1" "file_of w1 p \<noteq> None"
    using fetch_there [OF pn b] fetch_keeps [OF pn b] w pn by (metis option.distinct(1))
  show ?case
  proof (cases "view get c (files w1) (p @ ''.dep'')")
    case None
    with install_missing [OF p ds w w1] show ?thesis by blast
  next
    case (Some t)
    obtain w2 where w2: "fetch c os get (p @ ''.dep'') w1 = (Val None, w2)" "ready w2" "keeps N w1 w2"
        "file_of w2 (p @ ''.dep'') = Some t" "grows w1 w2"
      using fetch_there [OF d Some] fetch_keeps [OF d Some] w1(2) d by metis
    have req: "wanted c t = req p" using w1(2) p Some by (auto simp: ready_def requires_def)
    let ?ds = "List.insert p ds"
    have "\<exists>ds' w'. dep_loop (installPackage n c os get) (ignorePackage c) (split_on newline t) [] (?ds, w2) =
        Some (Val (Inr ([] @ dep_text (wanted c t))), ds', w') \<and>
      ready w' \<and> keeps (set ?ds) w2 w' \<and> adds (reach p) ?ds ds' w' \<and> set (wanted c t) \<subseteq> set ds'"
      unfolding wanted_def
    proof (rule dep_loop_post, unfold wanted_def [symmetric] req)
      show "\<exists>ds' w'. installPackage n c os get v (ds1, w1) = Some (Val None, ds', w') \<and> post v ds1 w1 ds' w'"
        if "v \<in> set (req p)" "set ?ds \<subseteq> set ds1" "set ds1 \<subseteq> N" "ready w1" "v \<notin> set ds1" for v ds1 w1
        using that closed_N [OF p] fuel_step [of v ds1 p ds n] Suc.prems(4) by (intro Suc.IH) auto
      show "reach v \<subseteq> reach p" if "v \<in> set (req p)" for v using reach_step [OF p that] .
    qed (use reach_N [OF p] p ds w2(2) in auto)
    then obtain ds' w3 where l: "dep_loop (installPackage n c os get) (ignorePackage c) (split_on newline t) [] (?ds, w2) =
        Some (Val (Inr (dep_text (req p))), ds', w3)" "ready w3" "keeps (set ?ds) w2 w3" "adds (reach p) ?ds ds' w3"
        "set (req p) \<subseteq> set ds'" by (auto simp: req)
    have t: "file_of w3 (p @ ''.dep'') = Some t" using l(3) w2(4) by (simp add: keeps_def)
    have f3: "file_of w3 p \<noteq> None" using w1(4) w2(5) l(3) p by (auto simp: keeps_def grows_def)
    obtain w4 where w4:
      "(if t = dep_text (req p) then Some (Val None, ds', w3)
        else (case os_kernel os (WriteFile (package_path c (p @ ''.dep'')) (dep_text (req p)) 0x124) w3 of
                (err, w'') \<Rightarrow> Some (Val err, ds', w''))) = Some (Val None, ds', w4)"
      "ready w4" "keeps (N - {p}) w3 w4" "installed p w4" by (rule finish_dep [OF p l(2) f3 t])
    have "installPackage (Suc n) c os get p (ds, w) = Some (Val None, ds', w4)"
      using w1(1) w2(1) read [OF w2(4)] l(1) w4(1) by simp
    moreover have "post p ds w ds' w4"
    proof (rule post_intro)
      have k: "keeps (set ds - {p}) w w1" "keeps (set ds - {p}) w1 w2" "keeps (set ds - {p}) w2 w3"
          "keeps (set ds - {p}) w3 w4"
        using w1(3) w2(3) l(3) w4(3) ds by (auto simp: keeps_def)
      then show "keeps (set ds - {p}) w w4" by (meson keeps_trans order_refl)
      show "adds (reach p) ?ds ds' w4"
      proof (rule adds_trans [OF l(4)])
        show "adds (reach p) ds' ds' w4" by (simp add: adds_def)
      qed (use w4(3) p ds reach_N [OF p] in \<open>auto simp: keeps_def\<close>)
    qed (use w4 p l in auto)
    ultimately show ?thesis by blast
  qed
qed simp

lemma install_result:
  assumes "p \<in> N" and "files w = fs0" and "card N \<le> n"
  shows "\<exists>ds w'. installPackage n c os get p ([], w) = Some (Val None, ds, w') \<and> distinct ds \<and> set ds = reach p \<and>
    (\<forall>q \<in> set ds. file_of w' q \<noteq> None \<and> file_of w' (q @ ''.dep'') = Some (dep_text (req q)))"
proof -
  have "ready w" using assms(2) available by (simp add: ready_def)
  moreover have "card (N - {p}) < n"
  proof -
    have "N - {p} \<subset> N" using assms(1) by blast
    with psubset_card_mono [OF finite_N this] assms(3) show ?thesis by simp
  qed
  ultimately obtain ds w' where r: "installPackage n c os get p ([], w) = Some (Val None, ds, w')" "post p [] w ds w'"
    using install_post [of p "[]" w n] assms(1) by auto
  have "q \<in> set ds" if "(p, q) \<in> edges\<^sup>*" for q
    using that by (induction rule: rtrancl_induct) (use r(2) in \<open>auto simp: post_def adds_def edges_def\<close>)
  then have "set ds = reach p" using r(2) by (auto simp: post_def adds_def reach_def)
  with r show ?thesis by (auto simp: post_def adds_def installed_def)
qed

end

section \<open>A package directory\<close>

text \<open>The package directory as a map from paths to contents; every call succeeds.\<close>

fun dir_call :: "(string \<rightharpoonup> bytes) kernel" where
  "dir_call (Create p) fs = (None, fs(p \<mapsto> []))"
| "dir_call (CopyTo p b) fs = (None, fs(p \<mapsto> b))"
| "dir_call (WriteFile p b m) fs = (None, fs(p \<mapsto> b))"
| "dir_call _ fs = (None, fs)"

definition dir_os :: "(string \<rightharpoonup> bytes) os_env" where
  "dir_os = \<lparr>os_kernel = dir_call,
     os_stat = (\<lambda>p fs. case fs p of None \<Rightarrow> Inl ENOENT | Some b \<Rightarrow> Inr (node_stat 0 (Reg 0x1A4 b))),
     os_lstat = (\<lambda>p fs. case fs p of None \<Rightarrow> Inl ENOENT | Some b \<Rightarrow> Inr (node_stat 0 (Reg 0x1A4 b))),
     os_readlink = (\<lambda>p fs. Inl (Errno ''EINVAL'')), os_readdir = (\<lambda>p fs. Inl ENOENT),
     os_open = (\<lambda>p fs. if fs p = None then Some ENOENT else None),
     os_read = (\<lambda>p fs. case fs p of None \<Rightarrow> Inl ENOENT | Some b \<Rightarrow> Inr b),
     os_getwd = (\<lambda>fs. Inr ''/''), os_input = (\<lambda>fs. (Inl EOF, fs))\<rparr>"

interpretation dir: package_dir dir_os "\<lambda>fs. fs"
  by unfold_locales (auto simp: dir_os_def split: option.splits)

section \<open>Installing a package\<close>

text \<open>A repository of two packages that need each other; one of them also names a package that is skipped.\<close>

definition sample_conf :: tcz_conf where
  "sample_conf = \<lparr>host = ''h'', port = ''80'', tczServerDir = ''/s'', tczLocalPackageDir = ''/l'', ignorePackage = [''x.tcz'']\<rparr>"

definition sample_get :: http where
  "sample_get u =
     (if u = ''http://h:80//s/a.tcz'' then Inr (''200 OK'', ''A'', None)
      else if u = ''http://h:80//s/b.tcz'' then Inr (''200 OK'', ''B'', None)
      else if u = ''http://h:80//s/a.tcz.dep'' then Inr (''200 OK'', ''x.tcz'' @ [newline] @ ''b.tcz'' @ [newline], None)
      else if u = ''http://h:80//s/b.tcz.dep'' then Inr (''200 OK'', ''a.tcz'' @ [newline], None)
      else Inr (''404 Not Found'', [], None))"

lemma sample_paths:
  "package_path sample_conf ''a.tcz'' = ''/l/a.tcz''" "package_path sample_conf ''a.tcz.dep'' = ''/l/a.tcz.dep''"
  "package_path sample_conf ''b.tcz'' = ''/l/b.tcz''" "package_path sample_conf ''b.tcz.dep'' = ''/l/b.tcz.dep''"
  "url sample_conf ''a.tcz'' = ''http://h:80//s/a.tcz''" "url sample_conf ''a.tcz.dep'' = ''http://h:80//s/a.tcz.dep''"
  "url sample_conf ''b.tcz'' = ''http://h:80//s/b.tcz''" "url sample_conf ''b.tcz.dep'' = ''http://h:80//s/b.tcz.dep''"
  by (simp_all add: package_path_def url_def sample_conf_def path_eval)

lemma sample_requires:
  "requires sample_get sample_conf Map.empty ''a.tcz'' = [''b.tcz'']"
  "requires sample_get sample_conf Map.empty ''b.tcz'' = [''a.tcz'']"
proof -
  have "ignorePackage sample_conf = [''x.tcz'']" by (simp add: sample_conf_def)
  then show "requires sample_get sample_conf Map.empty ''a.tcz'' = [''b.tcz'']"
    and "requires sample_get sample_conf Map.empty ''b.tcz'' = [''a.tcz'']"
    by (simp_all add: requires_def view_def answers_def sample_paths sample_get_def wanted_def)
qed

interpretation sample: tcz_run dir_os "\<lambda>fs. fs" sample_conf sample_get "{''a.tcz'', ''b.tcz''}" Map.empty
  by unfold_locales
    (auto simp: inj_on_def sample_paths sample_requires serves_def view_def answers_def sample_get_def)

text \<open>
  C28. Installing a package installs exactly its dependencies: when the package directory can be written and the
  server answers for a finite set of packages that contains the package and is closed under dependencies, the
  recursion ends although the dependencies may be cyclic (as many levels of it as there are packages are enough), the set
  \<^verbatim>\<open>deps\<close> is then the set of packages reachable from it through the dependency lists without the skipped
  packages, every one of them is in the package directory, and its local list names its remaining dependencies.
\<close>

theorem tcz_installs_closure:
  assumes "package_dir os files" and "finite N" and "inj_on (package_path c) (N \<union> (\<lambda>p. p @ ''.dep'') ` N)"
    and "\<And>x. x \<in> N \<union> (\<lambda>p. p @ ''.dep'') ` N \<Longrightarrow> serves get c x"
    and "\<And>p. p \<in> N \<Longrightarrow> set (requires get c (files w) p) \<subseteq> N" and "\<And>p. p \<in> N \<Longrightarrow> view get c (files w) p \<noteq> None"
    and "p \<in> N" and "card N \<le> n"
  shows "\<exists>ds w'. installPackage n c os get p ([], w) = Some (Val None, ds, w') \<and> distinct ds \<and>
    set ds = {(a, b). a \<in> N \<and> b \<in> set (requires get c (files w) a)}\<^sup>* `` {p} \<and>
    (\<forall>q \<in> set ds. files w' (package_path c q) \<noteq> None \<and>
      files w' (package_path c (q @ ''.dep'')) = Some (dep_text (requires get c (files w) q)))"
proof -
  have run: "tcz_run os files c get N (files w)"
    by (rule tcz_run.intro [OF assms(1)]) (use assms in \<open>unfold_locales, blast+\<close>)
  then show ?thesis
    using tcz_run.install_result [OF run assms(7) refl assms(8)]
    by (simp add: tcz_run.reach_def [OF run] tcz_run.edges_def [OF run])
qed

theorem tcz_installs_closure_witness:
  "\<exists>ds w'. installPackage 2 sample_conf dir_os sample_get ''a.tcz'' ([], Map.empty) = Some (Val None, ds, w') \<and>
     distinct ds \<and> set ds = {''a.tcz'', ''b.tcz''} \<and>
     w' ''/l/a.tcz.dep'' = Some (''b.tcz'' @ [newline]) \<and> w' ''/l/b.tcz.dep'' = Some (''a.tcz'' @ [newline])"
proof -
  let ?N = "{''a.tcz'', ''b.tcz''}"
  let ?E = "{(a, b). a \<in> ?N \<and> b \<in> set (requires sample_get sample_conf Map.empty a)}"
  have E: "?E = {(''a.tcz'', ''b.tcz''), (''b.tcz'', ''a.tcz'')}" using sample_requires by auto
  have "?E\<^sup>* `` {''a.tcz''} = ?N"
  proof
    show "?E\<^sup>* `` {''a.tcz''} \<subseteq> ?N"
    proof
      fix q
      assume "q \<in> ?E\<^sup>* `` {''a.tcz''}"
      then have "(''a.tcz'', q) \<in> ?E\<^sup>*" by simp
      then show "q \<in> ?N" by (induction rule: rtrancl_induct) (simp, use E in blast)
    qed
    have "(''a.tcz'', ''b.tcz'') \<in> ?E" using E by blast
    then show "?N \<subseteq> ?E\<^sup>* `` {''a.tcz''}" by auto
  qed
  moreover have "\<exists>ds w'. installPackage 2 sample_conf dir_os sample_get ''a.tcz'' ([], Map.empty) = Some (Val None, ds, w') \<and>
      distinct ds \<and> set ds = ?E\<^sup>* `` {''a.tcz''} \<and>
      (\<forall>q \<in> set ds. w' (package_path sample_conf q) \<noteq> None \<and>
        w' (package_path sample_conf (q @ ''.dep'')) = Some (dep_text (requires sample_get sample_conf Map.empty q)))"
    by (rule tcz_installs_closure [where N = ?N and files = "\<lambda>fs. fs" and w = Map.empty])
      (rule dir.package_dir_axioms sample.finite_N sample.inj sample.served sample.closed_N sample.available |
       assumption | simp)+
  ultimately show ?thesis
    by (auto simp: sample_paths sample_requires dep_text_def)
qed

end
