(* ===== verification/Pci.thy ===== *)
theory Pci
  imports Go_Fs Go_Flag
begin

text \<open>
  The package \<^verbatim>\<open>src/pkg/pci\<close> and the command \<^verbatim>\<open>src/cmds/pci\<close>: reading the devices of the
  bus from \<^verbatim>\<open>/sys\<close> and looking their names up in the identifier database. The text of the database,
  the variable \<^verbatim>\<open>pciids\<close> of \<^verbatim>\<open>pciids.go\<close>, is an argument.
\<close>

section \<open>Looking up names\<close>

definition isHex :: "char \<Rightarrow> bool" where
  "isHex b \<longleftrightarrow>
     (let n = of_char b :: nat in 97 \<le> n \<and> n \<le> 102 \<or> 65 \<le> n \<and> n \<le> 70 \<or> 48 \<le> n \<and> n \<le> 57)"

datatype finding = FindingVendor | FindingDevice

text \<open>
  The loop over the lines. Slicing the identifiers panics when they are shorter than four bytes; the lines it
  slices have at least seven.
\<close>

fun lookup_lines :: "string \<Rightarrow> string \<Rightarrow> finding \<Rightarrow> string \<Rightarrow> string list \<Rightarrow> (string \<times> string) outcome" where
  "lookup_lines vendor device st vendorName [] = Ret (vendorName, device)"
| "lookup_lines vendor device st vendorName (line # ls) =
     (if length line < 7 \<or> line ! 0 = CHR ''#'' then lookup_lines vendor device st vendorName ls
      else if st = FindingVendor \<and> isHex (line ! 0) \<and> isHex (line ! 1) then
        (if length vendor < 4 then Panic ''slice bounds out of range''
         else if take 4 vendor = take 4 line then lookup_lines vendor device FindingDevice (drop 6 line) ls
         else lookup_lines vendor device st vendorName ls)
      else if st = FindingDevice \<and> take 2 line = [tab, tab] then lookup_lines vendor device st vendorName ls
      else if st = FindingDevice \<and> (line ! 0 \<noteq> tab \<or> \<not> isHex (line ! 1)) then Ret (vendorName, device)
      else if st = FindingDevice \<and> line ! 0 = tab \<and> isHex (line ! 1) then
        (if length device < 4 then Panic ''slice bounds out of range''
         else if take 4 device = take 4 (drop 1 line) then Ret (vendorName, drop 7 line)
         else lookup_lines vendor device st vendorName ls)
      else lookup_lines vendor device st vendorName ls)"

definition lookup :: "bytes \<Rightarrow> string \<Rightarrow> string \<Rightarrow> (string \<times> string) outcome" where
  "lookup pciids vendor device = lookup_lines vendor device FindingVendor vendor (fst (scanner_lines pciids))"

section \<open>Devices\<close>

record PCI =
  Addr :: string
  Vendor :: string
  Device :: string
  VendorName :: string
  DeviceName :: string

definition PCI_String :: "bool \<Rightarrow> PCI \<Rightarrow> string" where
  "PCI_String numbers p =
     (if numbers then Addr p @ '': '' @ Vendor p @ '':'' @ Device p
      else Addr p @ '': '' @ VendorName p @ '' '' @ DeviceName p)"

text \<open>\<^verbatim>\<open>string(s[2 : len(s)-1])\<close>: without the leading \<^verbatim>\<open>0x\<close> and the newline.\<close>

definition pci_attr :: "'w os_env \<Rightarrow> 'w \<Rightarrow> string \<Rightarrow> string \<Rightarrow> string outcome" where
  "pci_attr os w dir n =
     (case os_read os (Join [dir, n]) w of
        Inl err \<Rightarrow> Fail err
      | Inr s \<Rightarrow> if length s < 3 then Panic ''slice bounds out of range'' else Ret (butlast (drop 2 s)))"

text \<open>\<^verbatim>\<open>onePCI\<close> fills the fields with a tag in the order of the structure: the vendor, then the device.\<close>

definition onePCI :: "bytes \<Rightarrow> 'w os_env \<Rightarrow> 'w \<Rightarrow> bool \<Rightarrow> string \<Rightarrow> PCI outcome" where
  "onePCI pciids os w numbers dir =
     bind_outcome (pci_attr os w dir ''vendor'') (\<lambda>v.
     bind_outcome (pci_attr os w dir ''device'') (\<lambda>d.
       if numbers then Ret \<lparr>Addr = [], Vendor = v, Device = d, VendorName = [], DeviceName = []\<rparr>
       else bind_outcome (lookup pciids v d) (\<lambda>(vn, dn).
         Ret \<lparr>Addr = [], Vendor = v, Device = d, VendorName = vn, DeviceName = dn\<rparr>)))"

fun bus_Read :: "bytes \<Rightarrow> 'w os_env \<Rightarrow> 'w \<Rightarrow> bool \<Rightarrow> string list \<Rightarrow> PCI list outcome" where
  "bus_Read pciids os w numbers [] = Ret []"
| "bus_Read pciids os w numbers (d # ds) =
     bind_outcome (onePCI pciids os w numbers d) (\<lambda>p.
     bind_outcome (bus_Read pciids os w numbers ds) (\<lambda>ps. Ret (p\<lparr>Addr := Base d\<rparr> # ps)))"

text \<open>
  The command; \<open>globs\<close> is the result of \<^verbatim>\<open>filepath.Glob\<close> on \<^verbatim>\<open>/sys/bus/pci/devices/*\<close>.
  The result is what it prints, or the exit status.
\<close>

definition pci_formal :: "bool formal" where
  "pci_formal n = (if n = ''n'' then Some (bool_flag (\<lambda>b _. b)) else None)"

definition pci_main :: "bytes \<Rightarrow> 'w os_env \<Rightarrow> 'w \<Rightarrow> string list \<Rightarrow> string list \<Rightarrow> string res" where
  "pci_main pciids os w globs argv =
     (case Parse pci_formal False argv of
        Inl _ \<Rightarrow> Exit 2
      | Inr (numbers, _) \<Rightarrow>
          (case bus_Read pciids os w numbers globs of
             Ret ps \<Rightarrow> Val (concat (map (\<lambda>p. PCI_String numbers p @ [newline]) ps))
           | Fail _ \<Rightarrow> Exit 1
           | Panic m \<Rightarrow> Crash m))"

section \<open>The database\<close>

text \<open>
  The structure of the database: comments, lines of fewer than seven bytes (the blank lines), vendors, their devices,
  the subsystems of a device, then the device classes, which are of no interest to the lookup.
\<close>

datatype id_line =
    Comment string
  | VendorLine string string
  | DeviceLine string string
  | SubLine string
  | ShortLine string

fun print_line :: "id_line \<Rightarrow> string" where
  "print_line (Comment s) = CHR ''#'' # s"
| "print_line (VendorLine i n) = i @ ''  '' @ n"
| "print_line (DeviceLine i n) = tab # i @ ''  '' @ n"
| "print_line (SubLine s) = tab # tab # s"
| "print_line (ShortLine s) = s"

fun wf_line :: "id_line \<Rightarrow> bool" where
  "wf_line (Comment s) \<longleftrightarrow> True"
| "wf_line (VendorLine i n) \<longleftrightarrow> length i = 4 \<and> isHex (i ! 0) \<and> isHex (i ! 1) \<and> n \<noteq> []"
| "wf_line (DeviceLine i n) \<longleftrightarrow> length i = 4 \<and> isHex (i ! 0)"
| "wf_line (SubLine s) \<longleftrightarrow> True"
| "wf_line (ShortLine s) \<longleftrightarrow> length s < 7"

text \<open>
  The classes begin with a line that is no vendor, and among the later ones only comments and lines of fewer than
  seven bytes may begin with two hexadecimal digits.
\<close>

definition no_vendor :: "string \<Rightarrow> bool" where
  "no_vendor l \<longleftrightarrow> length l < 7 \<or> l ! 0 = CHR ''#'' \<or> \<not> (isHex (l ! 0) \<and> isHex (l ! 1))"

definition wf_classes :: "string list \<Rightarrow> bool" where
  "wf_classes cls \<longleftrightarrow>
     (cls \<noteq> [] \<longrightarrow> 7 \<le> length (hd cls) \<and> hd cls ! 0 \<noteq> CHR ''#'' \<and> hd cls ! 0 \<noteq> tab) \<and>
     list_all no_vendor cls"

fun device_name :: "string \<Rightarrow> id_line list \<Rightarrow> string" where
  "device_name d [] = d"
| "device_name d (VendorLine i n # ls) = d"
| "device_name d (DeviceLine i n # ls) = (if i = d then n else device_name d ls)"
| "device_name d (_ # ls) = device_name d ls"

fun names_of :: "string \<Rightarrow> string \<Rightarrow> id_line list \<Rightarrow> string \<times> string" where
  "names_of v d [] = (v, d)"
| "names_of v d (VendorLine i n # ls) = (if i = v then (n, device_name d ls) else names_of v d ls)"
| "names_of v d (_ # ls) = names_of v d ls"

lemma isHex_not [simp]: "\<not> isHex (CHR ''#'')" "\<not> isHex tab"
  by (simp_all add: isHex_def)

lemma isHex_neq: "isHex x \<Longrightarrow> x \<noteq> CHR ''#'' \<and> x \<noteq> tab"
  using isHex_not by blast

lemma lookup_classes_vendor:
  "list_all no_vendor cls \<Longrightarrow> lookup_lines v d FindingVendor vn cls = Ret (vn, d)"
  by (induction cls) (auto simp: no_vendor_def)

lemma take_first: "take 2 a = [x, y] \<Longrightarrow> a ! 0 = x" "take (Suc 0) a = [x] \<Longrightarrow> a ! 0 = x"
  by (cases a; simp add: numeral_2_eq_2)+

lemma lookup_devices:
  assumes "list_all wf_line ls" and "wf_classes cls" and "length d = 4"
  shows "lookup_lines v d FindingDevice vn (map print_line ls @ cls) = Ret (vn, device_name d ls)"
  using assms(1)
proof (induction ls)
  case Nil
  show ?case using assms(2) by (cases cls) (auto simp: wf_classes_def dest: take_first)
next
  case (Cons l ls)
  then show ?case
    using assms(3) by (cases l) (auto simp: nth_append dest: isHex_neq take_first)
qed

lemma lookup_vendors:
  assumes "list_all wf_line ls" and "wf_classes cls" and "length v = 4" and "length d = 4"
  shows "lookup_lines v d FindingVendor v (map print_line ls @ cls) = Ret (names_of v d ls)"
  using assms(1)
proof (induction ls)
  case Nil
  show ?case using assms(2) lookup_classes_vendor by (simp add: wf_classes_def)
next
  case (Cons l ls)
  then show ?case
    using lookup_devices [OF _ assms(2,4), of ls v] assms(3)
    by (cases l) (auto simp: nth_append dest: isHex_neq take_first)
qed

text \<open>
  C30. The lookup finds the names of the database: for a text that lists comments, lines of fewer than seven bytes,
  vendors, devices and subsystems in any order and then the device classes, the names of a vendor and a device identifier of four digits are those of
  the first vendor with that identifier and of the first device with that identifier before the next vendor; an
  identifier that is not listed stands for itself.
\<close>

theorem pci_lookup_names:
  assumes "list_all wf_line ls" and "wf_classes cls" and "length v = 4" and "length d = 4"
    and "\<forall>l \<in> set (map print_line ls @ cls). newline \<notin> set l \<and> length l < 65536 \<and> drop_cr l = l"
  shows "lookup (concat (map (\<lambda>l. l @ [newline]) (map print_line ls @ cls))) v d = Ret (names_of v d ls)"
  using scanner_lines_text [OF assms(5)] lookup_vendors [OF assms(1-4)] by (simp add: lookup_def)

theorem pci_lookup_names_witness:
  "lookup (concat (map (\<lambda>l. l @ [newline]) (map print_line
       [Comment ''list'', ShortLine [], VendorLine ''1af4'' ''Red Hat'', VendorLine ''8086'' ''Intel'', DeviceLine ''1234'' ''x'',
        SubLine ''1af4 1100  sub'', ShortLine [], DeviceLine ''1237'' ''440FX''] @
       [''C 00  Unclassified'', [], ''# the end''])))
     ''8086'' ''1237'' = Ret (''Intel'', ''440FX'')"
  by (subst pci_lookup_names) (simp_all add: wf_classes_def no_vendor_def isHex_def drop_cr_def)

end
