(* ===== verification/Ectool.thy ===== *)
theory Ectool
  imports Go_Io Go_Flag
begin

text \<open>
  The embedded controller tool \<^verbatim>\<open>src/cmds/ectool\<close>: I/O ports as a device file
  (\<^verbatim>\<open>io.go\<close>), the LPC protocol (\<^verbatim>\<open>lpc.go\<close>), and the command (\<^verbatim>\<open>info.go\<close>,
  \<^verbatim>\<open>ectool.go\<close>). The device \<^verbatim>\<open>/dev/port\<close> and the clock are parameters.
\<close>

section \<open>Ports\<close>

type_synonym ioaddr = u16

record 'w port_dev =
  dev_ReadAt :: "nat \<Rightarrow> int \<Rightarrow> 'w \<Rightarrow> (u8 list \<times> goerr option) \<times> 'w"
  dev_WriteAt :: "u8 list \<Rightarrow> int \<Rightarrow> 'w \<Rightarrow> goerr option \<times> 'w"
  dev_Sleep :: "int \<Rightarrow> 'w \<Rightarrow> 'w"

definition Outb :: "'w port_dev \<Rightarrow> ioaddr \<Rightarrow> u8 \<Rightarrow> 'w \<Rightarrow> goerr option \<times> 'w" where
  "Outb p i d w = dev_WriteAt p [d] (uint i) w"

text \<open>The number of bytes written, and the error.\<close>

fun Outs_from :: "'w port_dev \<Rightarrow> ioaddr \<Rightarrow> u8 list \<Rightarrow> nat \<Rightarrow> 'w \<Rightarrow> (nat \<times> goerr option) \<times> 'w" where
  "Outs_from p i [] amt w = ((amt, None), w)"
| "Outs_from p i (b # bs) amt w =
     (case Outb p (i + of_nat amt) b w of
        (Some err, w') \<Rightarrow> ((amt, Some err), w')
      | (None, w') \<Rightarrow> Outs_from p i bs (Suc amt) w')"

definition Outs :: "'w port_dev \<Rightarrow> ioaddr \<Rightarrow> u8 list \<Rightarrow> 'w \<Rightarrow> (nat \<times> goerr option) \<times> 'w" where
  "Outs p i d w = Outs_from p i d 0 w"

text \<open>What a read leaves in a zeroed buffer of \<open>n\<close> bytes.\<close>

definition fill :: "nat \<Rightarrow> u8 list \<Rightarrow> u8 list" where
  "fill n bs = take n (bs @ replicate n 0)"

definition Inb :: "'w port_dev \<Rightarrow> ioaddr \<Rightarrow> 'w \<Rightarrow> (u8 \<times> goerr option) \<times> 'w" where
  "Inb p i w = (case dev_ReadAt p 1 (uint i) w of ((b, err), w') \<Rightarrow> ((hd (fill 1 b), err), w'))"

fun Ins_from :: "'w port_dev \<Rightarrow> ioaddr \<Rightarrow> nat \<Rightarrow> nat \<Rightarrow> 'w \<Rightarrow> (goerr + u8 list) \<times> 'w" where
  "Ins_from p i n 0 w = (Inr [], w)"
| "Ins_from p i n (Suc k) w =
     (case Inb p (i + of_nat n) w of
        ((_, Some err), w') \<Rightarrow> (Inl err, w')
      | ((b, None), w') \<Rightarrow>
          (case Ins_from p i (Suc n) k w' of (Inl err, w'') \<Rightarrow> (Inl err, w'') | (Inr bs, w'') \<Rightarrow> (Inr (b # bs), w'')))"

definition Ins :: "'w port_dev \<Rightarrow> ioaddr \<Rightarrow> nat \<Rightarrow> 'w \<Rightarrow> (goerr + u8 list) \<times> 'w" where
  "Ins p i amt w = Ins_from p i 0 amt w"

definition le_bytes :: "nat \<Rightarrow> 'a::len word \<Rightarrow> u8 list" where
  "le_bytes n d = map (\<lambda>k. ucast (drop_bit (8 * k) d)) [0..<n]"

fun le_word :: "u8 list \<Rightarrow> 'a::len word" where
  "le_word [] = 0"
| "le_word (b # bs) = ucast b OR push_bit 8 (le_word bs)"

definition Outw :: "'w port_dev \<Rightarrow> ioaddr \<Rightarrow> u16 \<Rightarrow> 'w \<Rightarrow> goerr option \<times> 'w" where
  "Outw p i d w = dev_WriteAt p (le_bytes 2 d) (uint i) w"

definition Inw :: "'w port_dev \<Rightarrow> ioaddr \<Rightarrow> 'w \<Rightarrow> (u16 \<times> goerr option) \<times> 'w" where
  "Inw p i w = (case dev_ReadAt p 2 (uint i) w of ((b, err), w') \<Rightarrow> ((le_word (fill 2 b), err), w'))"

definition Outl :: "'w port_dev \<Rightarrow> ioaddr \<Rightarrow> u32 \<Rightarrow> 'w \<Rightarrow> goerr option \<times> 'w" where
  "Outl p i d w = dev_WriteAt p (le_bytes 4 d) (uint i) w"

definition Inl4 :: "'w port_dev \<Rightarrow> ioaddr \<Rightarrow> 'w \<Rightarrow> (u32 \<times> goerr option) \<times> 'w" where
  "Inl4 p i w = (case dev_ReadAt p 4 (uint i) w of ((b, err), w') \<Rightarrow> ((le_word (fill 4 b), err), w'))"

section \<open>The LPC protocol\<close>

definition ecLpcAddrHostData :: ioaddr where "ecLpcAddrHostData = 0x200"
definition ecLpcAddrHostCmd :: ioaddr where "ecLpcAddrHostCmd = 0x204"
definition ecLpcAddrHostArgs :: ioaddr where "ecLpcAddrHostArgs = 0x800"
definition ecLpcAddrHostParam :: ioaddr where "ecLpcAddrHostParam = 0x804"
definition ecHostArgsFlagFromHost :: u8 where "ecHostArgsFlagFromHost = 1"
definition ecHostArgsFlagToHost :: u8 where "ecHostArgsFlagToHost = 2"
definition ecCmdGetChipInfo :: int where "ecCmdGetChipInfo = 5"

lemmas ec_consts = ecLpcAddrHostData_def ecLpcAddrHostCmd_def ecLpcAddrHostArgs_def ecLpcAddrHostParam_def
  ecHostArgsFlagFromHost_def ecHostArgsFlagToHost_def ecCmdGetChipInfo_def

record lpc =
  statusAddr :: ioaddr
  status :: ioaddr
  cmd :: ioaddr
  initial :: int
  max_delay :: int

definition newLPC :: "ioaddr \<Rightarrow> int \<Rightarrow> int \<Rightarrow> lpc" where
  "newLPC sa i m = \<lparr>statusAddr = sa, status = 0, cmd = 0, initial = i, max_delay = m\<rparr>"

text \<open>
  \<^verbatim>\<open>Wait\<close>: poll the status port. Durations are nanoseconds in an \<^verbatim>\<open>int64\<close>. With an initial
  delay that is not positive the loop need not end.
\<close>

partial_function (option) wait_loop ::
    "'w port_dev \<Rightarrow> lpc \<Rightarrow> int \<Rightarrow> int \<Rightarrow> int \<Rightarrow> 'w \<Rightarrow> (goerr option \<times> 'w) option" where
  "wait_loop p l timeout i delay0 w =
     (if \<not> i < timeout then Some (Some (Errorf ''LPC timed out''), w)
      else
        let delay = (if delay0 > max_delay l then max_delay l else delay0)
        in case Inb p (statusAddr l) (dev_Sleep p delay w) of
             ((_, Some err), w') \<Rightarrow> Some (Some err, w')
           | ((v, None), w') \<Rightarrow>
               if v = 0 then Some (None, w')
               else wait_loop p l timeout (wrap64 (i + initial l))
                      (if i > 20 \<and> delay < max_delay l then wrap64 (delay * 2) else delay) w')"

definition Wait :: "'w port_dev \<Rightarrow> lpc \<Rightarrow> int \<Rightarrow> 'w \<Rightarrow> (goerr option \<times> 'w) option" where
  "Wait p l timeout w = wait_loop p l timeout 0 (initial l) w"

definition second :: int where
  "second = 1000000000"

text \<open>The parameters of the command go to the status port and the ports after it.\<close>

fun send_params :: "'w port_dev \<Rightarrow> lpc \<Rightarrow> u8 list \<Rightarrow> nat \<Rightarrow> u8 \<Rightarrow> 'w \<Rightarrow> (goerr + u8) \<times> 'w" where
  "send_params p l [] i csum w = (Inr csum, w)"
| "send_params p l (b # bs) i csum w =
     (case Outb p (statusAddr l + of_nat i) b w of
        (Some err, w') \<Rightarrow> (Inl err, w')
      | (None, w') \<Rightarrow> send_params p l bs (Suc i) (csum + b) w')"

text \<open>
  The part of \<^verbatim>\<open>Command\<close> after the wait: the result byte, the arguments, the data. The flags that are tested
  are those of the request, and the checksum is compared with the fourth byte of the data.
\<close>

definition read_reply :: "'w port_dev \<Rightarrow> int \<Rightarrow> int \<Rightarrow> int \<Rightarrow> 'w \<Rightarrow> u8 list outcome \<times> 'w" where
  "read_reply p c v outsize w =
     (case Inb p ecLpcAddrHostData w of
        ((_, Some err), w) \<Rightarrow> (Fail err, w)
      | ((i, None), w) \<Rightarrow>
          if i \<noteq> 0 then (Fail (Errorf ''Bad EC value %d''), w)
          else (case Ins p ecLpcAddrHostArgs 4 w of
                  (Inl err, w) \<Rightarrow> (Fail err, w)
                | (Inr dres, w) \<Rightarrow>
                    if ecHostArgsFlagFromHost AND ecHostArgsFlagToHost = ecHostArgsFlagToHost
                    then (Fail (Errorf ''EC appears to have reset (may be expected)''), w)
                    else if dres ! 2 > word_of_int outsize then (Fail (Errorf ''EC returned too much data''), w)
                    else
                      let csum = word_of_int c + dres ! 0 + word_of_int v + dres ! 2
                      in (case Ins p ecLpcAddrHostParam (unat (dres ! 2)) w of
                            (Inl err, w) \<Rightarrow> (Fail err, w)
                          | (Inr dout, w) \<Rightarrow>
                              if length dout \<le> 3 then (Panic ''index out of range'', w)
                              else if dout ! 3 \<noteq> csum + sum_list dout
                              then (Fail (Errorf ''EC response has invalid checksum''), w)
                              else (Ret dout, w))))"

definition Command ::
    "'w port_dev \<Rightarrow> lpc \<Rightarrow> int \<Rightarrow> int \<Rightarrow> u8 list \<Rightarrow> int \<Rightarrow> int \<Rightarrow> 'w \<Rightarrow> (u8 list outcome \<times> 'w) option" where
  "Command p l c v idata outsize timeout w =
     (let flags = ecHostArgsFlagFromHost;
          csum0 = flags + word_of_int c + word_of_int v + word_of_nat (length idata)
      in case send_params p l idata 0 csum0 w of
           (Inl err, w) \<Rightarrow> Some (Fail err, w)
         | (Inr csum, w) \<Rightarrow>
             (case Outs p (statusAddr l) [ecHostArgsFlagFromHost, word_of_int v, word_of_nat (length idata), csum] w of
                ((_, Some err), w) \<Rightarrow> Some (Fail err, w)
              | ((_, None), w) \<Rightarrow>
                  let w = snd (Outb p (cmd l) (word_of_int c) w);
                      w = snd (Outb p (status l) 0xA5 w)
                  in (case Wait p l (10 * second) w of
                        None \<Rightarrow> None
                      | Some (Some _, w) \<Rightarrow> Some (Fail (Errorf ''Timeout waiting for EC response''), w)
                      | Some (None, w) \<Rightarrow> Some (read_reply p c v outsize w))))"

definition info :: "'w port_dev \<Rightarrow> lpc \<Rightarrow> 'w \<Rightarrow> (u8 list outcome \<times> 'w) option" where
  "info p l w = Command p l ecCmdGetChipInfo 0 [] 96 (10 * second) w"

section \<open>The command line\<close>

record ectool_flags =
  lpcdebug :: bool
  chip_name :: string

definition ectool_formal :: "ectool_flags formal" where
  "ectool_formal n =
     (if n = ''lpcdebug'' then Some (bool_flag (\<lambda>b. lpcdebug_update (\<lambda>_. b)))
      else if n = ''chip'' then Some (string_flag (\<lambda>v. chip_name_update (\<lambda>_. v)))
      else None)"

datatype ectool_end =
    Status nat
  | Shown "u8 list outcome"
  | UnknownCommand
  | Crashed string

text \<open>
  When \<^verbatim>\<open>/dev/port\<close> cannot be opened (\<open>None\<close>) the error is printed and the program goes on with a nil
  interface, whose first use panics.
\<close>

definition ectool_main :: "'w port_dev option \<Rightarrow> string list \<Rightarrow> 'w \<Rightarrow> (ectool_end \<times> 'w) option" where
  "ectool_main p argv w =
     (case Parse ectool_formal \<lparr>lpcdebug = True, chip_name = ''lpc''\<rparr> argv of
        Inl _ \<Rightarrow> Some (Status 2, w)
      | Inr (f, a) \<Rightarrow>
          if chip_name f \<noteq> ''lpc'' then Some (Status 1, w)
          else if a = [] then Some (Status 1, w)
          else if hd a = ''info'' then
            (case p of
               None \<Rightarrow> Some (Crashed ''invalid memory address or nil pointer dereference'', w)
             | Some p \<Rightarrow>
                 map_option (\<lambda>(r, w). (case r of Panic m \<Rightarrow> Crashed m | _ \<Rightarrow> Shown r, w))
                   (info p (newLPC ecLpcAddrHostCmd (10 * second) (10 * second)) w))
          else Some (UnknownCommand, w))"

section \<open>Waiting\<close>

text \<open>With a positive step the polling ends after at most \<open>timeout / initial\<close> rounds (rounded up).\<close>

lemma wait_loop_ends:
  assumes "0 < initial l" and "timeout + initial l \<le> 2 ^ 63" and "0 \<le> i"
  shows "\<exists>r. wait_loop p l timeout i delay w = Some r"
  using assms
proof (induction "nat (timeout - i)" arbitrary: i delay w rule: less_induct)
  case less
  show ?case
  proof (cases "i < timeout")
    case True
    then have *: "wrap64 (i + initial l) = i + initial l" using less.prems by (intro wrap64_small) auto
    have "nat (timeout - (i + initial l)) < nat (timeout - i)" using True less.prems by simp
    then have "\<exists>r. wait_loop p l timeout (i + initial l) delay' w' = Some r" for delay' w'
      using less.hyps less.prems by simp
    then show ?thesis
      by (subst wait_loop.simps) (auto simp: Let_def * split: prod.split option.split)
  next
    case False
    then show ?thesis by (subst wait_loop.simps) simp
  qed
qed

section \<open>A controller\<close>

text \<open>Ports that show a memory; the writes are recorded.\<close>

definition mem_ports :: "(ioaddr \<Rightarrow> u8) \<Rightarrow> ((ioaddr \<times> u8) list) port_dev" where
  "mem_ports mem = \<lparr>
     dev_ReadAt = (\<lambda>n off w. ((map (\<lambda>k. mem (word_of_int off + of_nat k)) [0..<n], None), w)),
     dev_WriteAt = (\<lambda>bs off w. (None, w @ map (\<lambda>k. (word_of_int off + of_nat k, bs ! k)) [0..<length bs])),
     dev_Sleep = (\<lambda>d w. w)\<rparr>"

text \<open>
  The documented checksum of a reply (\<^verbatim>\<open>commands.go\<close>: the sum of command, flags, version, size and all
  data bytes), and a controller that is ready and has answered with \<open>data\<close>.
\<close>

definition ec_checksum :: "int \<Rightarrow> int \<Rightarrow> u8 \<Rightarrow> u8 list \<Rightarrow> u8" where
  "ec_checksum c v fl data = word_of_int c + fl + word_of_int v + word_of_nat (length data) + sum_list data"

definition ec_reply :: "int \<Rightarrow> int \<Rightarrow> u8 list \<Rightarrow> ioaddr \<Rightarrow> u8" where
  "ec_reply c v data a =
     (if a = ecLpcAddrHostArgs then ecHostArgsFlagToHost
      else if a = ecLpcAddrHostArgs + 1 then word_of_int v
      else if a = ecLpcAddrHostArgs + 2 then word_of_nat (length data)
      else if a = ecLpcAddrHostArgs + 3 then ec_checksum c v ecHostArgsFlagToHost data
      else if unat (a - ecLpcAddrHostParam) < length data then data ! unat (a - ecLpcAddrHostParam)
      else 0)"

lemma Inb_mem [simp]: "Inb (mem_ports mem) i w = ((mem i, None), w)"
  by (simp add: Inb_def mem_ports_def fill_def)

lemma Outb_mem [simp]: "Outb (mem_ports mem) i b w = (None, w @ [(i, b)])"
  by (simp add: Outb_def mem_ports_def)

lemma Sleep_mem [simp]: "dev_Sleep (mem_ports mem) d w = w"
  by (simp add: mem_ports_def)

lemma Ins_from_mem: "Ins_from (mem_ports mem) i n k w = (Inr (map (\<lambda>j. mem (i + of_nat j)) [n..<n + k]), w)"
  by (induction k arbitrary: n w) (simp_all add: upt_conv_Cons del: upt_Suc)

lemma Ins_mem [simp]: "Ins (mem_ports mem) i k w = (Inr (map (\<lambda>j. mem (i + of_nat j)) [0..<k]), w)"
  by (simp add: Ins_def Ins_from_mem)

lemma Outs_from_mem:
  "Outs_from (mem_ports mem) i bs n w =
     ((n + length bs, None), w @ map (\<lambda>k. (i + of_nat (n + k), bs ! k)) [0..<length bs])"
proof (induction bs arbitrary: n w)
  case (Cons b bs)
  then show ?case by (simp add: upt_rec [of 0] map_Suc_upt [symmetric] del: upt_Suc)
qed simp

lemma send_params_mem:
  "send_params (mem_ports mem) l bs n csum w =
     (Inr (csum + sum_list bs), w @ map (\<lambda>k. (statusAddr l + of_nat (n + k), bs ! k)) [0..<length bs])"
proof (induction bs arbitrary: n csum w)
  case (Cons b bs)
  then show ?case by (simp add: upt_rec [of 0] map_Suc_upt [symmetric] ac_simps del: upt_Suc)
qed simp

lemma reply_args:
  "map (\<lambda>j. ec_reply c v data (ecLpcAddrHostArgs + of_nat j)) [0..<4] =
     [ecHostArgsFlagToHost, word_of_int v, word_of_nat (length data), ec_checksum c v ecHostArgsFlagToHost data]"
  by (simp add: ec_reply_def ec_consts upt_rec)

lemma reply_data:
  assumes "length data < 256"
  shows "map (\<lambda>j. ec_reply c v data (ecLpcAddrHostParam + of_nat j)) [0..<length data] = data"
proof (rule nth_equalityI)
  fix k
  assume "k < length (map (\<lambda>j. ec_reply c v data (ecLpcAddrHostParam + of_nat j)) [0..<length data])"
  then have k: "k < length data" "k < 256" using assms by simp_all
  then have u: "unat (of_nat k :: ioaddr) = k" by (simp add: unat_of_nat)
  have "word_of_nat (m + k) \<noteq> (0 :: ioaddr)" if "0 < m" "m \<le> 4" for m
  proof -
    have "unat (word_of_nat (m + k) :: ioaddr) = m + k" using that k(2) by (simp only: unat_of_nat) simp
    with that show ?thesis by (metis add_is_0 not_gr_zero unat_0)
  qed
  from this [of 1] this [of 2] this [of 3] this [of 4]
  have "1 + word_of_nat k \<noteq> (0 :: ioaddr)" "2 + word_of_nat k \<noteq> (0 :: ioaddr)" "3 + word_of_nat k \<noteq> (0 :: ioaddr)"
      "4 + word_of_nat k \<noteq> (0 :: ioaddr)" by simp_all
  with k u show "map (\<lambda>j. ec_reply c v data (ecLpcAddrHostParam + of_nat j)) [0..<length data] ! k = data ! k"
    by (simp add: ec_reply_def ec_consts)
qed simp

lemma read_reply_ec:
  assumes "length data < 256" and "int (length data) \<le> outsize" and "outsize < 256"
  shows "read_reply (mem_ports (ec_reply c v data)) c v outsize w =
    (if length data \<le> 3 then Panic ''index out of range''
     else if data ! 3 = ec_checksum c v ecHostArgsFlagToHost data then Ret data
     else Fail (Errorf ''EC response has invalid checksum''), w)"
proof -
  have u: "unat (word_of_nat (length data) :: u8) = length data" using assms(1) by (simp add: unat_of_nat)
  have le: "\<not> (word_of_nat (length data) :: u8) > word_of_int outsize"
  proof -
    have "word_of_int outsize = (word_of_nat (nat outsize) :: u8)" using assms(2) by simp
    moreover have "unat (word_of_nat (nat outsize) :: u8) = nat outsize" using assms(2,3) by (simp only: unat_of_nat) simp
    ultimately show ?thesis using u assms(2) by (simp add: word_less_nat_alt)
  qed
  have zero: "ec_reply c v data ecLpcAddrHostData = 0"
    using assms(1) by (simp add: ec_reply_def ec_consts)
  have flag: "ecHostArgsFlagFromHost AND ecHostArgsFlagToHost \<noteq> ecHostArgsFlagToHost" by (simp add: ec_consts)
  show ?thesis
    using zero flag le
    by (simp add: read_reply_def reply_args u reply_data [OF assms(1)] ec_checksum_def ac_simps)
qed

text \<open>The writes of a request.\<close>

definition request_writes :: "int \<Rightarrow> int \<Rightarrow> u8 list \<Rightarrow> (ioaddr \<times> u8) list" where
  "request_writes c v idata =
     map (\<lambda>k. (0x204 + of_nat k, idata ! k)) [0..<length idata] @
     [(0x204, 1), (0x205, word_of_int v), (0x206, word_of_nat (length idata)),
      (0x207, 1 + word_of_int c + word_of_int v + word_of_nat (length idata) + sum_list idata),
      (0, word_of_int c), (0, 0xA5)]"

text \<open>
  C31. The LPC protocol does not work as documented: against a controller that is ready and has answered with the
  data and with the flags, size and checksum that \<^verbatim>\<open>commands.go\<close> documents, a command writes its
  parameters and arguments to the ports 0x204 to 0x207 and the command and start bytes to port 0, and never to the
  argument ports at 0x800; it panics when the answer has fewer than four bytes, and otherwise accepts the answer only
  if its fourth data byte happens to equal the checksum.
\<close>

theorem lpc_command_misreads_reply:
  assumes "length data < 256" and "int (length data) \<le> outsize" and "outsize < 256"
  shows "Command (mem_ports (ec_reply c v data)) (newLPC ecLpcAddrHostCmd i m) c v idata outsize t [] =
    Some (if length data \<le> 3 then Panic ''index out of range''
          else if data ! 3 = ec_checksum c v ecHostArgsFlagToHost data then Ret data
          else Fail (Errorf ''EC response has invalid checksum''), request_writes c v idata)"
proof -
  let ?l = "newLPC ecLpcAddrHostCmd i m"
  have idle: "ec_reply c v data ecLpcAddrHostCmd = 0"
    using assms(1) by (simp add: ec_reply_def ec_consts)
  have wait: "Wait (mem_ports (ec_reply c v data)) ?l (10 * second) w = Some (None, w)" for w
    unfolding Wait_def
    by (subst wait_loop.simps) (simp add: newLPC_def idle second_def)
  have "Outs (mem_ports mem) a [b0, b1, b2, b3] w =
      ((4, None), w @ [(a, b0), (a + 1, b1), (a + 2, b2), (a + 3, b3)])" for mem a b0 b1 b2 b3 w
    by (simp add: Outs_def)
  then show ?thesis
    using wait read_reply_ec [OF assms, of c v]
    by (simp add: Command_def send_params_mem request_writes_def newLPC_def ec_consts)
qed

theorem lpc_command_misreads_reply_witness:
  "Command (mem_ports (ec_reply 5 0 [1, 2, 3])) (newLPC ecLpcAddrHostCmd 1 1) 5 0 [] 96 0 [] =
     Some (Panic ''index out of range'', [(0x204, 1), (0x205, 0), (0x206, 0), (0x207, 6), (0, 5), (0, 0xA5)])"
  using lpc_command_misreads_reply [of "[1, 2, 3]" 96 5 0 1 1 "[]" 0] by (simp add: request_writes_def)

end
