(* ===== verification/Ip.thy ===== *)
theory Ip
  imports Go_Fs Go_Flag Go_Strconv "HOL-Library.Sublist"
begin

text \<open>
  The command \<^verbatim>\<open>src/cmds/ip/ip.go\<close>: its recursive descent over the arguments with the global cursor, the
  abbreviations, and the netlink requests it makes. The netlink library is a parameter.
\<close>

section \<open>netlink\<close>

record nl_link =
  l_index :: int
  l_name :: string
  l_flags :: string
  l_mtu :: int
  l_oper :: string
  l_encap :: string
  l_hw :: string

record nl_addr =
  a_ip :: "u8 list"
  a_peer :: string
  a_brd :: "string option"
  a_scope :: int
  a_label :: string
  a_preferred :: u32
  a_valid :: u32

text \<open>The requests that change something.\<close>

datatype nl_call =
    AddrAdd nl_link nl_addr
  | AddrDel nl_link nl_addr
  | LinkSetUp nl_link
  | LinkSetDown nl_link
  | RouteAdd int "u8 list"

record 'w nl_env =
  LinkByName :: "string \<Rightarrow> 'w \<Rightarrow> goerr + nl_link"
  LinkList :: "'w \<Rightarrow> goerr + nl_link list"
  AddrList :: "nl_link \<Rightarrow> 'w \<Rightarrow> goerr + nl_addr list"
  ParseAddr :: "string \<Rightarrow> goerr + nl_addr"
  nl_do :: "nl_call \<Rightarrow> 'w \<Rightarrow> goerr option \<times> 'w"
  proc_route :: "'w \<Rightarrow> goerr + bytes"
  fmt_addr :: "nl_addr \<Rightarrow> string"
  fmt_link :: "nl_link \<Rightarrow> string"
  put :: "string \<Rightarrow> 'w \<Rightarrow> 'w"

section \<open>The parser's state\<close>

text \<open>
  The global variables \<^verbatim>\<open>cursor\<close> and \<^verbatim>\<open>whatIWant\<close> and the world. \<open>Exit 1\<close> is
  \<^verbatim>\<open>log.Fatalf\<close> (its message is left out), and \<open>Crash\<close> a panic on its way to the deferred function of
  \<^verbatim>\<open>main\<close>.
\<close>

record 'w ip_state =
  cursor :: nat
  whatIWant :: "string list"
  world :: 'w

definition want :: "string list \<Rightarrow> 'w ip_state \<Rightarrow> unit res \<times> 'w ip_state" where
  "want ws s = (Val (), s\<lparr>whatIWant := ws\<rparr>)"

definition advance :: "'w ip_state \<Rightarrow> unit res \<times> 'w ip_state" where
  "advance s = (Val (), s\<lparr>cursor := Suc (cursor s)\<rparr>)"

definition cur :: "string list \<Rightarrow> 'w ip_state \<Rightarrow> string res \<times> 'w ip_state" where
  "cur arg s = (if cursor s < length arg then Val (arg ! cursor s) else Crash ''index out of range'', s)"

definition usage :: "string list \<Rightarrow> 'w ip_state \<Rightarrow> 'a res \<times> 'w ip_state" where
  "usage arg s =
     (if length arg < cursor s then (Crash ''slice bounds out of range'', s)
      else then_do (cur arg s) (\<lambda>_ s. (Exit 1, s)))"

definition fatal :: "'w ip_state \<Rightarrow> 'a res \<times> 'w ip_state" where
  "fatal s = (Exit 1, s)"

definition emit :: "'w nl_env \<Rightarrow> string \<Rightarrow> 'w ip_state \<Rightarrow> unit res \<times> 'w ip_state" where
  "emit nl out s = (Val (), s\<lparr>world := put nl out (world s)\<rparr>)"

text \<open>\<^verbatim>\<open>log.Printf\<close>: the logger prints to the standard output with the prefix of the program.\<close>

definition emit_log :: "'w nl_env \<Rightarrow> string \<Rightarrow> 'w ip_state \<Rightarrow> unit res \<times> 'w ip_state" where
  "emit_log nl out s =
     emit nl (''ip: '' @ out @ (if out = [] \<or> last out \<noteq> newline then [newline] else [])) s"

definition request :: "'w nl_env \<Rightarrow> nl_call \<Rightarrow> 'w ip_state \<Rightarrow> unit res \<times> 'w ip_state" where
  "request nl c s =
     (case nl_do nl c (world s) of (err, w) \<Rightarrow> (if err = None then Val () else Exit 1, s\<lparr>world := w\<rparr>))"

text \<open>\<^verbatim>\<open>one\<close>: the only entry with the prefix, or the empty string.\<close>

definition one :: "string \<Rightarrow> string list \<Rightarrow> string" where
  "one cmd cmds = (case filter (prefix cmd) cmds of [c] \<Rightarrow> c | _ \<Rightarrow> [])"

definition dev :: "'w nl_env \<Rightarrow> string list \<Rightarrow> 'w ip_state \<Rightarrow> nl_link res \<times> 'w ip_state" where
  "dev nl arg s =
     then_do (advance s) (\<lambda>_ s.
     then_do (want [''dev'', ''device name''] s) (\<lambda>_ s.
     then_do (cur arg s) (\<lambda>a s.
     then_do (if a = ''dev'' then advance s else (Val (), s)) (\<lambda>_ s.
     then_do (want [''device name''] s) (\<lambda>_ s.
     then_do (cur arg s) (\<lambda>a s.
       case LinkByName nl a (world s) of Inl _ \<Rightarrow> usage arg s | Inr iface \<Rightarrow> (Val iface, s)))))))"

section \<open>Showing\<close>

text \<open>\<^verbatim>\<open>strings.ToUpper\<close> for ASCII text.\<close>

definition upper :: "string \<Rightarrow> string" where
  "upper = map (\<lambda>c. let n = of_char c :: nat in if 97 \<le> n \<and> n \<le> 122 then char_of (n - 32) else c)"

definition addrScopes :: "int \<Rightarrow> string" where
  "addrScopes n =
     (if n = 0 then ''global'' else if n = 254 then ''host'' else if n = 200 then ''site''
      else if n = 253 then ''link'' else if n = 255 then ''nowhere'' else [])"

definition lifetime :: "u32 \<Rightarrow> string" where
  "lifetime t = (if t = 0xFFFFFFFF then ''forever'' else Itoa (uint t) @ ''sec'')"

text \<open>One address; an address that is neither 4 nor 16 bytes long ends the program.\<close>

definition show_addr :: "nl_addr \<Rightarrow> string res" where
  "show_addr a =
     (if length (a_ip a) \<notin> {4, 16} then Exit 1
      else Val (''    '' @ (if length (a_ip a) = 4 then ''inet'' else ''inet6'') @ '' '' @ a_peer a @
        (case a_brd a of None \<Rightarrow> [] | Some b \<Rightarrow> '' brd '' @ b) @
        '' scope '' @ addrScopes (a_scope a) @ '' '' @ a_label a @ [newline] @
        ''       valid_lft '' @ lifetime (a_valid a) @ '' preferred_lft '' @ lifetime (a_preferred a) @ [newline]))"

fun show_addrs :: "'w nl_env \<Rightarrow> nl_addr list \<Rightarrow> 'w ip_state \<Rightarrow> unit res \<times> 'w ip_state" where
  "show_addrs nl [] s = (Val (), s)"
| "show_addrs nl (a # as) s =
     then_do (show_addr a, s) (\<lambda>txt s. then_do (emit nl txt s) (\<lambda>_ s. show_addrs nl as s))"

definition showLinkAddresses :: "'w nl_env \<Rightarrow> nl_link \<Rightarrow> 'w ip_state \<Rightarrow> unit res \<times> 'w ip_state" where
  "showLinkAddresses nl l s =
     (case AddrList nl l (world s) of
        Inl _ \<Rightarrow> emit_log nl ''Can't enumerate addresses'' s
      | Inr as \<Rightarrow> show_addrs nl as s)"

definition show_link :: "nl_link \<Rightarrow> string" where
  "show_link l =
     Itoa (l_index l) @ '': '' @ l_name l @ '': <'' @
     map (\<lambda>c. if c = CHR ''|'' then CHR '','' else c) (upper (l_flags l)) @
     ''> mtu '' @ Itoa (l_mtu l) @ '' state '' @ upper (l_oper l) @ [newline] @
     ''    link/'' @ l_encap l @ '' '' @ l_hw l @ [newline]"

fun show_each :: "'w nl_env \<Rightarrow> bool \<Rightarrow> nl_link list \<Rightarrow> 'w ip_state \<Rightarrow> unit res \<times> 'w ip_state" where
  "show_each nl withAddresses [] s = (Val (), s)"
| "show_each nl withAddresses (l # ls) s =
     then_do (emit nl (show_link l) s) (\<lambda>_ s.
     then_do (if withAddresses then showLinkAddresses nl l s else (Val (), s)) (\<lambda>_ s.
       show_each nl withAddresses ls s))"

definition showLinks :: "'w nl_env \<Rightarrow> bool \<Rightarrow> 'w ip_state \<Rightarrow> unit res \<times> 'w ip_state" where
  "showLinks nl withAddresses s =
     (case LinkList nl (world s) of Inl _ \<Rightarrow> fatal s | Inr ls \<Rightarrow> show_each nl withAddresses ls s)"

section \<open>Addresses, links, routes\<close>

definition addrip :: "'w nl_env \<Rightarrow> string list \<Rightarrow> 'w ip_state \<Rightarrow> unit res \<times> 'w ip_state" where
  "addrip nl arg s =
     (if length arg = 1 then showLinks nl True s
      else
        then_do (advance s) (\<lambda>_ s.
        then_do (want [''add'', ''del''] s) (\<lambda>_ s.
        then_do (cur arg s) (\<lambda>a s.
          let c = one a [''add'', ''del'']
          in if c \<notin> {''add'', ''del''} then usage arg s
             else
               then_do (advance s) (\<lambda>_ s.
               then_do (want [''CIDR format address''] s) (\<lambda>_ s.
               then_do (cur arg s) (\<lambda>a s.
                 case ParseAddr nl a of
                   Inl _ \<Rightarrow> usage arg s
                 | Inr addr \<Rightarrow>
                     then_do (dev nl arg s) (\<lambda>iface s.
                       request nl (if c = ''add'' then AddrAdd iface addr else AddrDel iface addr) s))))))))"

definition linkshow :: "'w nl_env \<Rightarrow> string list \<Rightarrow> 'w ip_state \<Rightarrow> unit res \<times> 'w ip_state" where
  "linkshow nl arg s =
     then_do (advance s) (\<lambda>_ s.
     then_do (want [''<nothing>'', ''<device name>''] s) (\<lambda>_ s.
       if length arg < cursor s then (Crash ''slice bounds out of range'', s)
       else if drop (cursor s) arg = [] then showLinks nl False s
       else (Val (), s)))"

definition linkset :: "'w nl_env \<Rightarrow> string list \<Rightarrow> 'w ip_state \<Rightarrow> unit res \<times> 'w ip_state" where
  "linkset nl arg s =
     then_do (dev nl arg s) (\<lambda>iface s.
     then_do (advance s) (\<lambda>_ s.
     then_do (want [''up'', ''down''] s) (\<lambda>_ s.
     then_do (cur arg s) (\<lambda>a s.
       let c = one a [''up'', ''down'']
       in if c = ''up'' then request nl (LinkSetUp iface) s
          else if c = ''down'' then request nl (LinkSetDown iface) s
          else usage arg s))))"

definition link :: "'w nl_env \<Rightarrow> string list \<Rightarrow> 'w ip_state \<Rightarrow> unit res \<times> 'w ip_state" where
  "link nl arg s =
     (if length arg = 1 then linkshow nl arg s
      else
        then_do (advance s) (\<lambda>_ s.
        then_do (want [''show'', ''set''] s) (\<lambda>_ s.
        then_do (cur arg s) (\<lambda>a s.
          let c = one a [''show'', ''set'']
          in if c = ''show'' then linkshow nl arg s
             else if c = ''set'' then linkset nl arg s
             else usage arg s))))"

definition routeshow :: "'w nl_env \<Rightarrow> 'w ip_state \<Rightarrow> unit res \<times> 'w ip_state" where
  "routeshow nl s = (case proc_route nl (world s) of Inl _ \<Rightarrow> fatal s | Inr b \<Rightarrow> emit_log nl b s)"

definition nodespec :: "string list \<Rightarrow> 'w ip_state \<Rightarrow> string res \<times> 'w ip_state" where
  "nodespec arg s =
     then_do (advance s) (\<lambda>_ s.
     then_do (want [''default'', ''CIDR''] s) (\<lambda>_ s. cur arg s))"

definition nexthop :: "'w nl_env \<Rightarrow> string list \<Rightarrow> 'w ip_state \<Rightarrow> (string \<times> nl_addr) res \<times> 'w ip_state" where
  "nexthop nl arg s =
     then_do (advance s) (\<lambda>_ s.
     then_do (want [''via''] s) (\<lambda>_ s.
     then_do (cur arg s) (\<lambda>nh s.
       if nh \<noteq> ''via'' then usage arg s
       else
         then_do (advance s) (\<lambda>_ s.
         then_do (want [''Gateway CIDR''] s) (\<lambda>_ s.
         then_do (cur arg s) (\<lambda>a s.
           case ParseAddr nl a of Inl _ \<Rightarrow> fatal s | Inr addr \<Rightarrow> (Val (nh, addr), s)))))))"

definition routeadddefault :: "'w nl_env \<Rightarrow> string list \<Rightarrow> 'w ip_state \<Rightarrow> unit res \<times> 'w ip_state" where
  "routeadddefault nl arg s =
     then_do (nexthop nl arg s) (\<lambda>(nh, nhval) s.
     then_do (dev nl arg s) (\<lambda>l s.
       if nh = ''via'' then
         then_do (emit_log nl (''Add default route '' @ fmt_addr nl nhval @ '' via '' @ fmt_link nl l) s) (\<lambda>_ s.
           request nl (RouteAdd (l_index l) (a_ip nhval)) s)
       else usage arg s))"

definition routeadd :: "'w nl_env \<Rightarrow> string list \<Rightarrow> 'w ip_state \<Rightarrow> unit res \<times> 'w ip_state" where
  "routeadd nl arg s =
     then_do (nodespec arg s) (\<lambda>ns s. if ns = ''default'' then routeadddefault nl arg s else usage arg s)"

definition route :: "'w nl_env \<Rightarrow> string list \<Rightarrow> 'w ip_state \<Rightarrow> unit res \<times> 'w ip_state" where
  "route nl arg s =
     then_do (advance s) (\<lambda>_ s.
       if length arg < cursor s then (Crash ''slice bounds out of range'', s)
       else if drop (cursor s) arg = [] then routeshow nl s
       else
         then_do (want [''show'', ''add''] s) (\<lambda>_ s.
         then_do (cur arg s) (\<lambda>a s.
           let c = one a [''show'', ''add'']
           in if c = ''show'' then routeshow nl s
              else if c = ''add'' then routeadd nl arg s
              else usage arg s)))"

section \<open>The command\<close>

definition ip_dispatch :: "'w nl_env \<Rightarrow> string list \<Rightarrow> 'w ip_state \<Rightarrow> unit res \<times> 'w ip_state" where
  "ip_dispatch nl arg s =
     then_do (cur arg s) (\<lambda>a s.
       let c = one a [''addr'', ''route'', ''link'']
       in if c = ''addr'' then addrip nl arg s
          else if c = ''link'' then link nl arg s
          else if c = ''route'' then route nl arg s
          else usage arg s)"

text \<open>The deferred function turns every panic into \<^verbatim>\<open>log.Fatalf\<close>.\<close>

definition recovered :: "unit res \<times> 'w ip_state \<Rightarrow> unit res \<times> 'w ip_state" where
  "recovered r = (case r of (Crash p, s) \<Rightarrow> fatal s | _ \<Rightarrow> r)"

definition ip_main :: "'w nl_env \<Rightarrow> string list \<Rightarrow> 'w \<Rightarrow> unit res \<times> 'w" where
  "ip_main nl argv w =
     (case Parse (\<lambda>_. None) () argv of
        Inl _ \<Rightarrow> (Exit 2, w)
      | Inr (_, arg) \<Rightarrow>
          (case recovered (ip_dispatch nl arg \<lparr>cursor = 0, whatIWant = [''addr'', ''route'', ''link''], world = w\<rparr>) of
             (r, s) \<Rightarrow> (r, world s)))"

section \<open>What a command line requests\<close>

text \<open>The netlink library with its requests recorded; which of them fail is left open.\<close>

definition recorded :: "nl_call list nl_env \<Rightarrow> (nl_call \<Rightarrow> goerr option) \<Rightarrow> nl_call list nl_env" where
  "recorded nl fails = nl\<lparr>nl_do := (\<lambda>c w. (fails c, w @ [c])), put := (\<lambda>_ w. w)\<rparr>"

text \<open>
  The grammar of the requests, on the list of arguments: an optional word \<^verbatim>\<open>dev\<close> and the name of a device,
  then the rest; and the request a command line stands for.
\<close>

definition device :: "(string \<Rightarrow> goerr + nl_link) \<Rightarrow> string list \<Rightarrow> (nl_link \<times> string list) option" where
  "device lnk ws =
     (case (if take 1 ws = [''dev''] then tl ws else ws) of
        [] \<Rightarrow> None
      | n # rest \<Rightarrow> (case lnk n of Inl _ \<Rightarrow> None | Inr l \<Rightarrow> Some (l, rest)))"

definition addr_request :: "(string \<Rightarrow> goerr + nl_link) \<Rightarrow> (string \<Rightarrow> goerr + nl_addr) \<Rightarrow> string list \<Rightarrow> nl_call option" where
  "addr_request lnk addr ws =
     (case ws of
        c # a # rest \<Rightarrow>
          (case addr a of
             Inl _ \<Rightarrow> None
           | Inr ad \<Rightarrow>
               if one c [''add'', ''del''] = ''add'' then map_option (\<lambda>(l, _). AddrAdd l ad) (device lnk rest)
               else if one c [''add'', ''del''] = ''del'' then map_option (\<lambda>(l, _). AddrDel l ad) (device lnk rest)
               else None)
      | _ \<Rightarrow> None)"

definition link_request :: "(string \<Rightarrow> goerr + nl_link) \<Rightarrow> string list \<Rightarrow> nl_call option" where
  "link_request lnk ws =
     (case ws of
        c # rest \<Rightarrow>
          if one c [''show'', ''set''] = ''set'' then
            (case device lnk rest of
               Some (l, d # _) \<Rightarrow>
                 if one d [''up'', ''down''] = ''up'' then Some (LinkSetUp l)
                 else if one d [''up'', ''down''] = ''down'' then Some (LinkSetDown l)
                 else None
             | _ \<Rightarrow> None)
          else None
      | _ \<Rightarrow> None)"

definition route_request :: "(string \<Rightarrow> goerr + nl_link) \<Rightarrow> (string \<Rightarrow> goerr + nl_addr) \<Rightarrow> string list \<Rightarrow> nl_call option" where
  "route_request lnk addr ws =
     (case ws of
        c # ns # via # gw # rest \<Rightarrow>
          if one c [''show'', ''add''] = ''add'' \<and> ns = ''default'' \<and> via = ''via'' then
            (case addr gw of
               Inl _ \<Rightarrow> None
             | Inr ad \<Rightarrow> map_option (\<lambda>(l, _). RouteAdd (l_index l) (a_ip ad)) (device lnk rest))
          else None
      | _ \<Rightarrow> None)"

definition ip_request :: "(string \<Rightarrow> goerr + nl_link) \<Rightarrow> (string \<Rightarrow> goerr + nl_addr) \<Rightarrow> string list \<Rightarrow> nl_call option" where
  "ip_request lnk addr ws =
     (case ws of
        [] \<Rightarrow> None
      | c # rest \<Rightarrow>
          let k = one c [''addr'', ''route'', ''link'']
          in if k = ''addr'' then addr_request lnk addr rest
             else if k = ''link'' then link_request lnk rest
             else if k = ''route'' then route_request lnk addr rest
             else None)"

text \<open>\<open>at_words s arg ws\<close>: the words behind the cursor. \<open>makes s m cs\<close>: \<open>m\<close>, run in \<open>s\<close>, makes the requests \<open>cs\<close>.\<close>

definition at_words :: "'w ip_state \<Rightarrow> string list \<Rightarrow> string list \<Rightarrow> bool" where
  "at_words s arg ws \<longleftrightarrow> drop (Suc (cursor s)) arg = ws"

definition makes :: "nl_call list ip_state \<Rightarrow> 'a res \<times> nl_call list ip_state \<Rightarrow> nl_call option \<Rightarrow> bool" where
  "makes s m c \<longleftrightarrow> world (snd m) = world s @ (case c of None \<Rightarrow> [] | Some c \<Rightarrow> [c])"

lemma makes_simps [simp]:
  "makes s (r, s') None \<longleftrightarrow> world s' = world s"
  "makes s (r, s') (Some c) \<longleftrightarrow> world s' = world s @ [c]"
  by (auto simp: makes_def)

lemma basic_world [simp]:
  "world (snd (want ws s)) = world s" "world (snd (advance s)) = world s" "world (snd (cur arg s)) = world s"
  "world (snd (fatal s)) = world s" "world (snd (emit (recorded nl fails) out s)) = world s"
  "world (snd (emit_log (recorded nl fails) out s)) = world s"
  by (simp_all add: want_def advance_def cur_def fatal_def emit_def emit_log_def recorded_def)

lemma usage_world [simp]: "world (snd (usage arg s)) = world s" "usage arg s \<noteq> (Val x, s')"
  by (auto simp: usage_def then_do_def cur_def)

lemma usage_pair: "\<exists>r. usage arg s = (r, s) \<and> (\<forall>x. r \<noteq> Val x)"
  by (simp add: usage_def cur_def)

text \<open>The state after one more word has been reached.\<close>

definition reached :: "string list \<Rightarrow> 'w ip_state \<Rightarrow> 'w ip_state" where
  "reached t s = s\<lparr>cursor := Suc (cursor s), whatIWant := t\<rparr>"

lemma reached_simps [simp]:
  "world (reached t s) = world s" "cursor (reached t s) = Suc (cursor s)"
  by (simp_all add: reached_def)

lemma next_word:
  "at_words s arg ws \<Longrightarrow>
     then_do (advance s) (\<lambda>_ s. then_do (want t s) (\<lambda>_ s. then_do (cur arg s) f)) =
       (case ws of [] \<Rightarrow> (Crash ''index out of range'', reached t s) | w # ws' \<Rightarrow> f w (reached t s))"
  by (auto simp: advance_def want_def cur_def at_words_def reached_def nth_via_drop hd_drop_conv_nth split: list.splits)

lemma at_words_reached [simp]: "at_words s arg (w # ws) \<Longrightarrow> at_words (reached t s) arg ws"
  using tl_drop [of "Suc (cursor s)" arg] by (simp add: at_words_def reached_def drop_Suc)

lemma cur_word: "at_words s arg (w # ws) \<Longrightarrow> cur arg (reached t s) = (Val w, reached t s)"
  by (auto simp: cur_def at_words_def reached_def nth_via_drop) (metis drop_eq_Nil leI list.discI)

lemma want_after: "then_do (want t' (reached t s)) f = f () (reached t' s)"
  by (simp add: want_def reached_def)

lemma recorded_simps [simp]:
  "LinkByName (recorded nl fails) = LinkByName nl" "ParseAddr (recorded nl fails) = ParseAddr nl"
  "AddrList (recorded nl fails) = AddrList nl" "LinkList (recorded nl fails) = LinkList nl"
  "proc_route (recorded nl fails) = proc_route nl" "put (recorded nl fails) out w = w"
  by (simp_all add: recorded_def)

lemma dev_found:
  assumes "at_words s arg (w # ws)"
  shows "\<exists>r s'. (case LinkByName nl w (world s) of Inl _ \<Rightarrow> usage arg (reached t s) | Inr iface \<Rightarrow> (Val iface, reached t s)) = (r, s') \<and>
    world s' = world s \<and>
    (case (case LinkByName nl w (world s) of Inl _ \<Rightarrow> None | Inr l \<Rightarrow> Some (l, ws)) of
       None \<Rightarrow> (\<forall>x. r \<noteq> Val x) | Some (l, rest) \<Rightarrow> r = Val l \<and> at_words s' arg rest)"
proof -
  obtain r :: "nl_link res" where "usage arg (reached t s) = (r, reached t s)" "\<forall>x. r \<noteq> Val x" using usage_pair by blast
  with assms show ?thesis by (cases "LinkByName nl w (world s)") auto
qed

lemma dev_spec:
  assumes "at_words s arg ws"
  shows "\<exists>r s'. dev (recorded nl fails) arg s = (r, s') \<and> world s' = world s \<and>
    (case device (\<lambda>n. LinkByName nl n (world s)) ws of
       None \<Rightarrow> (\<forall>x. r \<noteq> Val x)
     | Some (l, rest) \<Rightarrow> r = Val l \<and> at_words s' arg rest)"
proof (cases ws)
  case Nil
  with assms show ?thesis unfolding dev_def by (simp add: next_word device_def)
next
  case (Cons d ws')
  have aw: "at_words (reached [''dev'', ''device name''] s) arg ws'" using assms Cons by simp
  show ?thesis
  proof (cases "d = ''dev''")
    case True
    show ?thesis
    proof (cases ws')
      case Nil
      with assms aw True Cons show ?thesis
        unfolding dev_def by (simp add: next_word next_word [OF aw] device_def)
    next
      case w: (Cons n rest)
      with dev_found [OF aw [unfolded w], of "[''device name'']" nl] assms True Cons show ?thesis
        unfolding dev_def by (simp add: next_word next_word [OF aw] device_def)
    qed
  next
    case False
    with dev_found [OF assms [unfolded Cons], of "[''device name'']" nl] assms Cons show ?thesis
      unfolding dev_def by (simp add: next_word want_after cur_word device_def)
  qed
qed

lemma request_makes: "world s' = world s \<Longrightarrow> makes s (request (recorded nl fails) c s') (Some c)"
  by (simp add: request_def recorded_def)

lemma usage_makes [simp]: "makes s (usage arg s') None \<longleftrightarrow> world s' = world s"
  by (simp add: makes_def)

lemma dev_then:
  assumes "at_words s arg ws" and "world s = world s0"
    and "\<And>l rest s'. device (\<lambda>n. LinkByName nl n (world s0)) ws = Some (l, rest) \<Longrightarrow> world s' = world s0 \<Longrightarrow> at_words s' arg rest \<Longrightarrow>
      makes s0 (f l s') c"
    and "device (\<lambda>n. LinkByName nl n (world s0)) ws = None \<Longrightarrow> c = None"
  shows "makes s0 (then_do (dev (recorded nl fails) arg s) f) c"
proof -
  obtain r s' where d: "dev (recorded nl fails) arg s = (r, s')" "world s' = world s"
      "case device (\<lambda>n. LinkByName nl n (world s)) ws of
         None \<Rightarrow> (\<forall>x. r \<noteq> Val x) | Some (l, rest) \<Rightarrow> r = Val l \<and> at_words s' arg rest"
    using dev_spec [OF assms(1)] by blast
  show ?thesis
  proof (cases "device (\<lambda>n. LinkByName nl n (world s0)) ws")
    case None
    with d assms(2,4) show ?thesis by (cases r) auto
  next
    case (Some p)
    with d assms(2,3) show ?thesis by (cases p) auto
  qed
qed

lemma addrip_makes:
  assumes aw: "at_words s arg ws" and "length arg \<noteq> 1"
  shows "makes s (addrip (recorded nl fails) arg s) (addr_request (\<lambda>n. LinkByName nl n (world s)) (ParseAddr nl) ws)"
proof (cases ws)
  case (Cons c ws')
  let ?s = "reached [''add'', ''del''] s"
  have aw1: "at_words ?s arg ws'" using aw Cons by simp
  show ?thesis
  proof (cases ws')
    case Nil
    with assms Cons show ?thesis
      by (simp add: addrip_def next_word [OF aw] next_word [OF aw1] addr_request_def Let_def)
  next
    case c: (Cons x more)
    have aw2: "at_words (reached [''CIDR format address''] ?s) arg more" using aw1 c by simp
    show ?thesis
      using assms(2) Cons c
      by (auto simp: addrip_def next_word [OF aw] next_word [OF aw1] addr_request_def Let_def split: sum.splits
          intro!: dev_then [OF aw2] request_makes)
  qed
qed (use assms in \<open>simp add: addrip_def next_word [OF aw] addr_request_def\<close>)

lemma show_addrs_world [simp]: "world (snd (show_addrs (recorded nl fails) as s)) = world s"
  by (induction as arbitrary: s) (auto simp: then_do_def emit_def recorded_def split: res.splits)

lemma showLinkAddresses_world [simp]: "world (snd (showLinkAddresses (recorded nl fails) l s)) = world s"
  by (simp add: showLinkAddresses_def split: sum.splits)

lemma showLinkAddresses_keeps:
  "showLinkAddresses (recorded nl fails) l s = (r, s') \<Longrightarrow> world s' = world s"
  using showLinkAddresses_world [of nl fails l s] by simp

lemma show_each_world [simp]: "world (snd (show_each (recorded nl fails) b ls s)) = world s"
proof (induction ls arbitrary: s)
  case (Cons l ls)
  then show ?case
    by (auto simp: emit_def then_do_def dest!: showLinkAddresses_keeps split: res.splits prod.splits)
qed simp

lemma showLinks_makes: "makes s (showLinks (recorded nl fails) b s) None"
  by (simp add: makes_def showLinks_def split: sum.splits)

lemma routeshow_makes: "world s' = world s \<Longrightarrow> makes s (routeshow (recorded nl fails) s') None"
  by (simp add: makes_def routeshow_def split: sum.splits)

lemma linkshow_makes: "world s' = world s \<Longrightarrow> makes s (linkshow (recorded nl fails) arg s') None"
  using showLinks_makes [of "s'\<lparr>cursor := Suc (cursor s'), whatIWant := [''<nothing>'', ''<device name>'']\<rparr>" nl fails False]
  by (simp add: linkshow_def advance_def want_def makes_def)

lemma linkset_request:
  assumes aw: "at_words s arg ws" and "world s = world s0"
  shows "makes s0 (linkset (recorded nl fails) arg s)
    (case device (\<lambda>n. LinkByName nl n (world s0)) ws of
       Some (l, d # _) \<Rightarrow>
         if one d [''up'', ''down''] = ''up'' then Some (LinkSetUp l)
         else if one d [''up'', ''down''] = ''down'' then Some (LinkSetDown l)
         else None
     | _ \<Rightarrow> None)"
  unfolding linkset_def
proof (rule dev_then [OF aw assms(2)])
  fix l rest s'
  assume d: "device (\<lambda>n. LinkByName nl n (world s0)) ws = Some (l, rest)" "world s' = world s0" "at_words s' arg rest"
  show "makes s0 (then_do (advance s') (\<lambda>_ s. then_do (want [''up'', ''down''] s) (\<lambda>_ s. then_do (cur arg s) (\<lambda>a s.
       let c = one a [''up'', ''down'']
       in if c = ''up'' then request (recorded nl fails) (LinkSetUp l) s
          else if c = ''down'' then request (recorded nl fails) (LinkSetDown l) s
          else usage arg s))))
    (case device (\<lambda>n. LinkByName nl n (world s0)) ws of
       Some (l, d # _) \<Rightarrow>
         if one d [''up'', ''down''] = ''up'' then Some (LinkSetUp l)
         else if one d [''up'', ''down''] = ''down'' then Some (LinkSetDown l)
         else None
     | _ \<Rightarrow> None)"
    using d(1,2) by (auto simp: next_word [OF d(3)] Let_def intro!: request_makes split: list.splits)
qed simp

lemma link_makes:
  assumes aw: "at_words s arg ws" and "length arg \<noteq> 1"
  shows "makes s (link (recorded nl fails) arg s) (link_request (\<lambda>n. LinkByName nl n (world s)) ws)"
proof (cases ws)
  case (Cons c ws')
  have aw1: "at_words (reached [''show'', ''set''] s) arg ws'" using aw Cons by simp
  show ?thesis
    using assms(2) Cons linkset_request [OF aw1, of s nl fails] linkshow_makes [of "reached [''show'', ''set''] s" s nl fails arg]
    by (auto simp: link_def next_word [OF aw] link_request_def Let_def)
qed (use assms in \<open>simp add: link_def next_word [OF aw] link_request_def\<close>)

lemma routeadddefault_request:
  assumes aw: "at_words s arg ws" and "world s = world s0"
  shows "makes s0 (routeadddefault (recorded nl fails) arg s)
    (case ws of
       via # gw # rest \<Rightarrow>
         if via = ''via'' then
           (case ParseAddr nl gw of
              Inl _ \<Rightarrow> None
            | Inr ad \<Rightarrow> map_option (\<lambda>(l, _). RouteAdd (l_index l) (a_ip ad)) (device (\<lambda>n. LinkByName nl n (world s0)) rest))
         else None
     | _ \<Rightarrow> None)"
proof (cases ws)
  case (Cons v ws')
  let ?s = "reached [''via''] s"
  have aw1: "at_words ?s arg ws'" using aw Cons by simp
  obtain r :: "(string \<times> nl_addr) res" where u: "usage arg ?s = (r, ?s)" "\<forall>x. r \<noteq> Val x" using usage_pair by blast
  show ?thesis
  proof (cases ws')
    case Nil
    with u assms(2) Cons show ?thesis
      by (cases r) (auto simp: routeadddefault_def nexthop_def then_do_assoc next_word [OF aw] next_word [OF aw1])
  next
    case c: (Cons gw rest)
    have aw2: "at_words (reached [''Gateway CIDR''] ?s) arg rest" using aw1 c by simp
    show ?thesis
    proof (cases "v = ''via''")
      case True
      show ?thesis
        unfolding routeadddefault_def nexthop_def then_do_assoc next_word [OF aw]
        using assms(2) Cons c True
        by (auto simp: next_word [OF aw1] fatal_def emit_log_def emit_def split: sum.splits
            intro!: dev_then [OF aw2] request_makes)
    next
      case False
      with u assms(2) Cons c show ?thesis
        by (cases r) (auto simp: routeadddefault_def nexthop_def then_do_assoc next_word [OF aw])
    qed
  qed
qed (use assms in \<open>simp add: routeadddefault_def nexthop_def then_do_assoc next_word [OF aw]\<close>)

lemma route_makes:
  assumes aw: "at_words s arg ws" and "cursor s < length arg"
  shows "makes s (route (recorded nl fails) arg s)
    (route_request (\<lambda>n. LinkByName nl n (world s)) (ParseAddr nl) ws)"
proof (cases ws)
  case Nil
  with assms show ?thesis
    by (simp add: route_def advance_def at_words_def route_request_def routeshow_makes)
next
  case (Cons c ws')
  let ?s = "reached [''show'', ''add''] s" and ?ns = "[''default'', ''CIDR'']"
  have aw1: "at_words ?s arg ws'" using aw Cons by simp
  have r: "route (recorded nl fails) arg s =
    (let k = one c [''show'', ''add'']
     in if k = ''show'' then routeshow (recorded nl fails) ?s
        else if k = ''add'' then routeadd (recorded nl fails) arg ?s
        else usage arg ?s)"
    using assms Cons next_word [OF aw, of "[''show'', ''add'']"]
    by (simp add: route_def advance_def at_words_def)
  show ?thesis
  proof (cases ws')
    case Nil
    with Cons show ?thesis
      by (auto simp: r Let_def routeadd_def nodespec_def then_do_assoc next_word [OF aw1] route_request_def
          routeshow_makes)
  next
    case c: (Cons ns rest)
    have "at_words (reached ?ns ?s) arg rest" using aw1 c by simp
    from routeadddefault_request [OF this, of s nl fails] Cons c show ?thesis
      by (auto simp: r Let_def routeadd_def nodespec_def then_do_assoc next_word [OF aw1] route_request_def
          routeshow_makes split: list.splits)
  qed
qed

lemma ip_dispatch_request:
  assumes "cursor s = 0"
  shows "makes s (ip_dispatch (recorded nl fails) arg s)
    (ip_request (\<lambda>n. LinkByName nl n (world s)) (ParseAddr nl) arg)"
proof (cases arg)
  case Nil
  then show ?thesis by (simp add: ip_dispatch_def cur_def assms ip_request_def)
next
  case (Cons c ws)
  have aw: "at_words s arg ws" using assms Cons by (simp add: at_words_def)
  have one: "ws = []" if "length arg = 1" using that Cons by simp
  have "makes s (addrip (recorded nl fails) arg s) (addr_request (\<lambda>n. LinkByName nl n (world s)) (ParseAddr nl) ws)"
    using addrip_makes [OF aw] one showLinks_makes
    by (cases "length arg = 1") (auto simp: addrip_def addr_request_def)
  moreover have "makes s (link (recorded nl fails) arg s) (link_request (\<lambda>n. LinkByName nl n (world s)) ws)"
    using link_makes [OF aw] one linkshow_makes
    by (cases "length arg = 1") (auto simp: link_def link_request_def)
  moreover have "cursor s < length arg" using assms Cons by simp
  ultimately show ?thesis
    using Cons assms route_makes [OF aw]
    by (auto simp: ip_dispatch_def cur_def ip_request_def Let_def)
qed

lemma recovered_world [simp]: "world (snd (recovered r)) = world (snd r)"
  by (auto simp: recovered_def fatal_def split: prod.splits res.splits)

lemma recovered_no_panic: "fst (recovered r) \<noteq> Crash p"
  by (auto simp: recovered_def fatal_def split: prod.splits res.splits)

text \<open>A machine with one network card.\<close>

definition eth0 :: nl_link where
  "eth0 = \<lparr>l_index = 2, l_name = ''eth0'', l_flags = ''up|broadcast'', l_mtu = 1500, l_oper = ''up'', l_encap = ''ether'',
     l_hw = ''52:54:00:12:34:56''\<rparr>"

definition gateway :: nl_addr where
  "gateway = \<lparr>a_ip = [10, 0, 2, 2], a_peer = ''10.0.2.2/24'', a_brd = None, a_scope = 0, a_label = [],
     a_preferred = 0, a_valid = 0\<rparr>"

definition one_card :: "nl_call list nl_env" where
  "one_card = \<lparr>LinkByName = (\<lambda>n _. if n = ''eth0'' then Inr eth0 else Inl (Errno ''Link not found'')),
     LinkList = (\<lambda>_. Inr [eth0]), AddrList = (\<lambda>_ _. Inr []),
     ParseAddr = (\<lambda>t. if t = ''10.0.2.2/24'' then Inr gateway else Inl (Errno ''invalid CIDR address'')),
     nl_do = (\<lambda>_ w. (None, w)), proc_route = (\<lambda>_. Inr []),
     fmt_addr = a_peer, fmt_link = l_name, put = (\<lambda>_ w. w)\<rparr>"

text \<open>
  C29. A command line of \<^verbatim>\<open>ip\<close> makes exactly the netlink request that the grammar of the
  command gives it, and none if it is not in that grammar: the cursor that the handlers move through the
  arguments reads each word once and in order, words may be abbreviated to any unambiguous prefix, a line that
  ends too early makes no request although the handlers index behind the last argument, and no panic leaves
  the program. This holds whichever requests fail.
\<close>

theorem ip_requests:
  assumes "arg = [] \<or> operand (hd arg)"
  shows "snd (ip_main (recorded nl fails) arg []) =
      (case ip_request (\<lambda>n. LinkByName nl n []) (ParseAddr nl) arg of None \<Rightarrow> [] | Some c \<Rightarrow> [c]) \<and>
    fst (ip_main (recorded nl fails) arg []) \<noteq> Crash p"
proof -
  let ?s = "\<lparr>cursor = 0, whatIWant = [''addr'', ''route'', ''link''], world = []\<rparr>"
  let ?r = "recovered (ip_dispatch (recorded nl fails) arg ?s)"
  have m: "ip_main (recorded nl fails) arg [] = (fst ?r, world (snd ?r))"
    using assms Parse_done [of arg "\<lambda>_. None" "()"] by (auto simp: ip_main_def operand_def case_prod_beta simp del: recovered_world)
  show ?thesis
    using ip_dispatch_request [of ?s nl fails arg] by (simp add: m makes_def recovered_no_panic)
qed

theorem ip_requests_witness:
  "snd (ip_main (recorded one_card (\<lambda>_. None)) [''r'', ''add'', ''default'', ''via'', ''10.0.2.2/24'', ''dev'', ''eth0''] []) =
     [RouteAdd 2 [10, 0, 2, 2]] \<and>
   snd (ip_main (recorded one_card (\<lambda>_. None)) [''link'', ''set'', ''eth0''] []) = []"
  using ip_requests [of "[''r'', ''add'', ''default'', ''via'', ''10.0.2.2/24'', ''dev'', ''eth0'']" one_card "\<lambda>_. None"]
    ip_requests [of "[''link'', ''set'', ''eth0'']" one_card "\<lambda>_. None"]
  by (simp add: operand_def ip_request_def link_request_def route_request_def device_def one_def one_card_def
      eth0_def gateway_def Let_def)

end
