(* ===== verification/Grep.thy ===== *)
theory Grep
  imports Go_Flag Go_Fs
begin

text \<open>
  The command \<^verbatim>\<open>src/cmds/grep/grep.go\<close>: one goroutine per file, each with a channel of its results, and the main
  goroutine that prints the channels one after the other. The regular expression is a parameter, a test on lines.
  The shared counter \<^verbatim>\<open>nGrep\<close> is not protected in the source: \<^verbatim>\<open>nGrep++\<close> and \<^verbatim>\<open>nGrep--\<close> are a load
  and a store here, with the steps of other goroutines in between, and an update can be lost. Loads and stores take
  effect in one order for all goroutines.
\<close>

section \<open>One file\<close>

record grep_flags =
  gf_match :: bool
  gf_recursive :: bool
  gf_noshowmatch :: bool
  gf_quiet :: bool

definition grep_defaults :: grep_flags where
  "grep_defaults = \<lparr>gf_match = True, gf_recursive = False, gf_noshowmatch = False, gf_quiet = False\<rparr>"

definition grep_formal :: "grep_flags formal" where
  "grep_formal n =
     (if n = ''v'' then Some (bool_flag (\<lambda>b. gf_match_update (\<lambda>_. b)))
      else if n = ''r'' then Some (bool_flag (\<lambda>b. gf_recursive_update (\<lambda>_. b)))
      else if n = ''l'' then Some (bool_flag (\<lambda>b. gf_noshowmatch_update (\<lambda>_. b)))
      else if n = ''q'' then Some (bool_flag (\<lambda>b. gf_quiet_update (\<lambda>_. b)))
      else None)"

text \<open>
  \<^verbatim>\<open>grepCommand\<close>: the name and the lines that \<^verbatim>\<open>ReadString\<close> returns without an error. A last line
  without newline comes with \<^verbatim>\<open>io.EOF\<close> and ends the loop unread.
\<close>

record grepCommand =
  gc_name :: string
  gc_lines :: "bytes list"

definition open_lines :: "bytes \<Rightarrow> bytes list" where
  "open_lines content = filter (\<lambda>l. l \<noteq> [] \<and> last l = newline) (read_all_chunks content)"

definition printmatch :: "grep_flags \<Rightarrow> bool \<Rightarrow> (bytes \<Rightarrow> bool) \<Rightarrow> grepCommand \<Rightarrow> bytes \<Rightarrow> string" where
  "printmatch fl showname re c line =
     (if showname then gc_name c else []) @
     (if gf_noshowmatch fl then []
      else if re line = gf_match fl then (if showname then '':'' else []) @ line else [])"

section \<open>The goroutines\<close>

text \<open>
  Where a \<^verbatim>\<open>grep\<close> goroutine stands: before \<^verbatim>\<open>nGrep++\<close>, at its store with the value it has loaded, at the send to \<^verbatim>\<open>allGrep\<close>, at
  the head of its loop with the lines that are left, at the send of a result, or at its end. \<^verbatim>\<open>res\<close> is a channel
  for one result.
\<close>

datatype grep_pc =
    GStart
  | GInc int
  | GSend
  | GLoop "bytes list"
  | GPush bytes "bytes list"
  | GEnd

record grep_proc =
  gp_cmd :: grepCommand
  gp_pc :: grep_pc
  gp_res :: "bytes list"

text \<open>
  Where \<^verbatim>\<open>main\<close> stands: at the loop over the files, at the receive from \<^verbatim>\<open>allGrep\<close>, at the loop over the channel of
  a goroutine, before \<^verbatim>\<open>nGrep--\<close>, at its store, at the comparison with 0, or at the exit.
\<close>

datatype gmain_pc =
    MFiles "grepCommand list"
  | MWait
  | MRange nat
  | MDec
  | MStore int
  | MTest
  | MExit nat

record grep_state =
  nGrep :: int
  procs :: "grep_proc list"
  gmain :: gmain_pc
  gout :: string

record grep_env =
  ge_flags :: grep_flags
  ge_showname :: bool
  ge_re :: "bytes \<Rightarrow> bool"

text \<open>\<^verbatim>\<open>grep\<close>, one step; the rendezvous on \<^verbatim>\<open>allGrep\<close> is a step of the receiver.\<close>

definition grep_one :: "grep_env \<Rightarrow> grep_proc \<Rightarrow> int \<Rightarrow> (grep_proc \<times> int) option" where
  "grep_one e p n =
     (case gp_pc p of
        GStart \<Rightarrow> Some (p\<lparr>gp_pc := GInc n\<rparr>, n)
      | GInc v \<Rightarrow> Some (p\<lparr>gp_pc := GSend\<rparr>, v + 1)
      | GSend \<Rightarrow> None
      | GLoop [] \<Rightarrow> Some (p\<lparr>gp_pc := GEnd\<rparr>, n)
      | GLoop (l # ls) \<Rightarrow>
          Some (p\<lparr>gp_pc := if ge_re e l = gf_match (ge_flags e) then GPush l ls else GLoop ls\<rparr>, n)
      | GPush l ls \<Rightarrow>
          if gp_res p = [] then
            Some (p\<lparr>gp_res := [l], gp_pc := GLoop (if gf_noshowmatch (ge_flags e) then [] else ls)\<rparr>, n)
          else None
      | GEnd \<Rightarrow> None)"

text \<open>
  \<^verbatim>\<open>main\<close> behind the pipeline that opens the files: start a goroutine for each file, then print the channels.
  The step at \<^verbatim>\<open>MWait\<close> takes the channel of goroutine \<open>i\<close>.
\<close>

definition start_proc :: "grepCommand \<Rightarrow> grep_proc" where
  "start_proc c = \<lparr>gp_cmd = c, gp_pc = GStart, gp_res = []\<rparr>"

definition main_step :: "grep_env \<Rightarrow> grep_state \<Rightarrow> grep_state option" where
  "main_step e s =
     (case gmain s of
        MFiles [] \<Rightarrow> Some (s\<lparr>gmain := MWait\<rparr>)
      | MFiles (c # cs) \<Rightarrow> Some (s\<lparr>procs := procs s @ [start_proc c], gmain := MFiles cs\<rparr>)
      | MWait \<Rightarrow> None
      | MRange i \<Rightarrow>
          let p = procs s ! i
          in (case gp_res p of
                l # _ \<Rightarrow>
                  Some (if gf_quiet (ge_flags e) then s\<lparr>gmain := MExit 0\<rparr>
                        else s\<lparr>procs := (procs s)[i := p\<lparr>gp_res := []\<rparr>],
                               gout := gout s @ printmatch (ge_flags e) (ge_showname e) (ge_re e) (gp_cmd p) l\<rparr>)
              | [] \<Rightarrow> if gp_pc p = GEnd then Some (s\<lparr>gmain := MDec\<rparr>) else None)
      | MDec \<Rightarrow> Some (s\<lparr>gmain := MStore (nGrep s)\<rparr>)
      | MStore v \<Rightarrow> Some (s\<lparr>nGrep := v - 1, gmain := MTest\<rparr>)
      | MTest \<Rightarrow>
          Some (s\<lparr>gmain := if nGrep s = 0 then MExit (if gf_quiet (ge_flags e) then 1 else 0) else MWait\<rparr>)
      | MExit _ \<Rightarrow> None)"

definition take_step :: "nat \<Rightarrow> grep_state \<Rightarrow> grep_state option" where
  "take_step i s =
     (if gmain s = MWait \<and> i < length (procs s) \<and> gp_pc (procs s ! i) = GSend then
        Some (s\<lparr>procs := (procs s)[i := (procs s ! i)\<lparr>gp_pc := GLoop (gc_lines (gp_cmd (procs s ! i)))\<rparr>],
                gmain := MRange i\<rparr>)
      else None)"

definition alive :: "grep_state \<Rightarrow> bool" where
  "alive s \<longleftrightarrow> (case gmain s of MExit _ \<Rightarrow> False | _ \<Rightarrow> True)"

definition proc_step :: "grep_env \<Rightarrow> nat \<Rightarrow> grep_state \<Rightarrow> grep_state option" where
  "proc_step e i s =
     (if i < length (procs s) \<and> alive s then
        map_option (\<lambda>(p, n). s\<lparr>procs := (procs s)[i := p], nGrep := n\<rparr>) (grep_one e (procs s ! i) (nGrep s))
      else None)"

datatype grep_turn = TMain | TTake nat | TProc nat

fun turn_step :: "grep_env \<Rightarrow> grep_turn \<Rightarrow> grep_state \<Rightarrow> grep_state option" where
  "turn_step e TMain s = main_step e s"
| "turn_step e (TTake i) s = take_step i s"
| "turn_step e (TProc i) s = proc_step e i s"

inductive grep_step :: "grep_env \<Rightarrow> grep_state \<Rightarrow> grep_state \<Rightarrow> bool" for e where
  turn: "turn_step e t s = Some s' \<Longrightarrow> grep_step e s s'"

inductive_cases grep_stepE: "grep_step e s s'"

definition grep_start :: "grepCommand list \<Rightarrow> grep_state" where
  "grep_start cs = \<lparr>nGrep = 0, procs = [], gmain = MFiles cs, gout = []\<rparr>"

section \<open>The pipeline of files\<close>

text \<open>The world with the names that have been sent to \<^verbatim>\<open>treenames\<close>.\<close>

definition with_names :: "'w os_env \<Rightarrow> ('w \<times> string list) os_env" where
  "with_names os =
     \<lparr>os_kernel = (\<lambda>c (w, ns). case os_kernel os c w of (err, w') \<Rightarrow> (err, w', ns)),
      os_stat = (\<lambda>p (w, _). os_stat os p w), os_lstat = (\<lambda>p (w, _). os_lstat os p w),
      os_readlink = (\<lambda>p (w, _). os_readlink os p w), os_readdir = (\<lambda>p (w, _). os_readdir os p w),
      os_open = (\<lambda>p (w, _). os_open os p w), os_read = (\<lambda>p (w, _). os_read os p w),
      os_getwd = (\<lambda>(w, _). os_getwd os w),
      os_input = (\<lambda>(w, ns). case os_input os w of (r, w') \<Rightarrow> (r, w', ns))\<rparr>"

text \<open>
  The function given to \<^verbatim>\<open>filepath.Walk\<close>. For a name that cannot be examined \<^verbatim>\<open>fi\<close> is nil, and
  \<^verbatim>\<open>fi.IsDir()\<close> panics before the error is looked at.
\<close>

definition grep_visit :: "grep_flags \<Rightarrow> 'w os_env \<Rightarrow> ('w \<times> string list) walk_fn" where
  "grep_visit fl os name fi err s =
     (case fi of
        None \<Rightarrow> (Crash ''nil pointer dereference'', s)
      | Some st \<Rightarrow>
          if is_dir st \<and> \<not> gf_recursive fl then
            (Val (Some SkipDir), snd (os_kernel (with_names os) (Printf ''grep: %v: Is a directory'' [name]) s))
          else if err \<noteq> None then (Val err, snd (os_kernel (with_names os) (Printf ''%v: %v'' [name]) s))
          else (Val None, fst s, snd s @ [name]))"

fun grep_names :: "nat \<Rightarrow> grep_flags \<Rightarrow> 'w os_env \<Rightarrow> string list \<Rightarrow> 'w \<times> string list \<Rightarrow> (unit res \<times> 'w \<times> string list) option" where
  "grep_names n fl os [] s = Some (Val (), s)"
| "grep_names n fl os (v # vs) s =
     (case Walk n (with_names os) (grep_visit fl os) v s of
        None \<Rightarrow> None
      | Some (Val _, s') \<Rightarrow> grep_names n fl os vs s'
      | Some (Exit k, s') \<Rightarrow> Some (Exit k, s')
      | Some (Crash p, s') \<Rightarrow> Some (Crash p, s'))"

text \<open>The goroutine that opens the files.\<close>

fun grep_open :: "'w os_env \<Rightarrow> string list \<Rightarrow> 'w \<Rightarrow> grepCommand list \<times> 'w" where
  "grep_open os [] w = ([], w)"
| "grep_open os (i # is) w =
     (if os_open os i w \<noteq> None then grep_open os is (snd (os_kernel os (Printf ''can't open %s: %v'' [i]) w))
      else case grep_open os is w of (fs, w') \<Rightarrow>
        (\<lparr>gc_name = i, gc_lines = open_lines (case os_read os i w of Inl _ \<Rightarrow> [] | Inr b \<Rightarrow> b)\<rparr> # fs, w'))"

text \<open>
  \<^verbatim>\<open>main\<close> up to the loop over \<^verbatim>\<open>files\<close>: the settings and the first state of the goroutines.
  \<open>compile\<close> is \<^verbatim>\<open>regexp.MustCompile\<close>, which panics for a malformed expression.
\<close>

definition grep_main ::
    "nat \<Rightarrow> 'w os_env \<Rightarrow> (string \<Rightarrow> (bytes \<Rightarrow> bool) option) \<Rightarrow> bytes \<Rightarrow> string list \<Rightarrow> 'w \<Rightarrow>
     ((grep_env \<times> grep_state) res \<times> 'w) option" where
  "grep_main n os compile stdin argv w =
     (case Parse grep_formal grep_defaults argv of
        Inl _ \<Rightarrow> Some (Exit 2, w)
      | Inr (fl, a) \<Rightarrow>
          (case compile (case a of [] \<Rightarrow> ''.*'' | r # _ \<Rightarrow> r) of
             None \<Rightarrow> Some (Crash ''regexp: Compile'', w)
           | Some re \<Rightarrow>
               if length a < 2 then
                 Some (Val (\<lparr>ge_flags = fl, ge_showname = False, ge_re = re\<rparr>,
                   \<lparr>nGrep = 0, procs = [start_proc \<lparr>gc_name = ''<stdin>'', gc_lines = open_lines stdin\<rparr>], gmain = MWait, gout = []\<rparr>), w)
               else
                 (case grep_names n fl os (tl a) (w, []) of
                    None \<Rightarrow> None
                  | Some (Val (), w', names) \<Rightarrow>
                      (case grep_open os names w' of (fs, w'') \<Rightarrow>
                         Some (Val (\<lparr>ge_flags = fl, ge_showname = length (tl a) > 1, ge_re = re\<rparr>, grep_start fs), w''))
                  | Some (Exit k, w', _) \<Rightarrow> Some (Exit k, w')
                  | Some (Crash p, w', _) \<Rightarrow> Some (Crash p, w'))))"

section \<open>What is printed\<close>

text \<open>The results of a file, the results a goroutine has still to deliver, and their text.\<close>

definition results :: "grep_env \<Rightarrow> bytes list \<Rightarrow> bytes list" where
  "results e ls =
     (let r = filter (\<lambda>l. ge_re e l = gf_match (ge_flags e)) ls in if gf_noshowmatch (ge_flags e) then take 1 r else r)"

fun todo :: "grep_env \<Rightarrow> grep_pc \<Rightarrow> bytes list" where
  "todo e (GLoop ls) = results e ls"
| "todo e (GPush l ls) = l # (if gf_noshowmatch (ge_flags e) then [] else results e ls)"
| "todo e _ = []"

definition text_of :: "grep_env \<Rightarrow> grepCommand \<Rightarrow> bytes list \<Rightarrow> string" where
  "text_of e c ls = concat (map (printmatch (ge_flags e) (ge_showname e) (ge_re e) c) ls)"

definition file_out :: "grep_env \<Rightarrow> grepCommand \<Rightarrow> string" where
  "file_out e c = text_of e c (results e (gc_lines c))"

definition outs :: "grep_env \<Rightarrow> grepCommand list \<Rightarrow> nat list \<Rightarrow> string" where
  "outs e cs is = concat (map (\<lambda>i. file_out e (cs ! i)) is)"

lemma results_simps [simp]:
  "results e [] = []"
  "results e (l # ls) =
     (if ge_re e l = gf_match (ge_flags e) then l # (if gf_noshowmatch (ge_flags e) then [] else results e ls)
      else results e ls)"
  by (auto simp: results_def Let_def)

lemma text_of_simps [simp]:
  "text_of e c [] = []"
  "text_of e c (l # ls) = printmatch (ge_flags e) (ge_showname e) (ge_re e) c l @ text_of e c ls"
  by (simp_all add: text_of_def)

text \<open>A goroutine whose channel has not been taken.\<close>

fun before_send :: "grep_pc \<Rightarrow> bool" where
  "before_send GStart = True"
| "before_send (GInc v) = True"
| "before_send GSend = True"
| "before_send _ = False"

definition waiting :: "grep_proc \<Rightarrow> bool" where
  "waiting p \<longleftrightarrow> before_send (gp_pc p) \<and> gp_res p = []"

fun main_inv :: "grep_env \<Rightarrow> grepCommand list \<Rightarrow> nat list \<Rightarrow> grep_proc list \<Rightarrow> string \<Rightarrow> gmain_pc \<Rightarrow> bool" where
  "main_inv e cs ds ps out (MFiles rest) \<longleftrightarrow> map gp_cmd ps @ rest = cs \<and> ds = [] \<and> out = []"
| "main_inv e cs ds ps out (MRange i) \<longleftrightarrow>
     map gp_cmd ps = cs \<and> i < length ps \<and> i \<notin> set ds \<and> \<not> before_send (gp_pc (ps ! i)) \<and>
     out @ text_of e (cs ! i) (gp_res (ps ! i) @ todo e (gp_pc (ps ! i))) = outs e cs ds @ file_out e (cs ! i)"
| "main_inv e cs ds ps out MWait \<longleftrightarrow> map gp_cmd ps = cs \<and> out = outs e cs ds"
| "main_inv e cs ds ps out (MExit k) \<longleftrightarrow> map gp_cmd ps = cs \<and> k = 0 \<and> ds \<noteq> [] \<and> out = outs e cs ds"
| "main_inv e cs ds ps out _ \<longleftrightarrow> map gp_cmd ps = cs \<and> ds \<noteq> [] \<and> out = outs e cs ds"

text \<open>\<open>ds\<close> lists the goroutines whose channels have been printed, in order. The counter plays no role.\<close>

definition grep_inv :: "grep_env \<Rightarrow> grepCommand list \<Rightarrow> nat list \<Rightarrow> grep_state \<Rightarrow> bool" where
  "grep_inv e cs ds s \<longleftrightarrow>
     distinct ds \<and> set ds \<subseteq> {..<length (procs s)} \<and>
     (\<forall>i < length (procs s). i \<notin> set ds \<longrightarrow> gmain s \<noteq> MRange i \<longrightarrow> waiting (procs s ! i)) \<and>
     (\<forall>i \<in> set ds. gp_pc (procs s ! i) = GEnd) \<and>
     main_inv e cs ds (procs s) (gout s) (gmain s)"

lemma grep_inv_start: "grep_inv e cs [] (grep_start cs)"
  by (simp add: grep_inv_def grep_start_def)

lemma map_cmd_update [simp]:
  "i < length ps \<Longrightarrow> gp_cmd q = gp_cmd (ps ! i) \<Longrightarrow> map gp_cmd (ps[i := q]) = map gp_cmd ps"
  by (metis list_update_id map_update)

lemma inv_files:
  assumes "grep_inv e cs ds s" and "gmain s = MFiles (c # rest)"
  shows "grep_inv e cs ds (s\<lparr>procs := procs s @ [start_proc c], gmain := MFiles rest\<rparr>)"
  using assms by (auto simp: grep_inv_def nth_append less_Suc_eq waiting_def start_proc_def [of c])

lemma inv_print:
  assumes inv: "grep_inv e cs ds s" and m: "gmain s = MRange i" and r: "gp_res (procs s ! i) = [l]"
  shows "grep_inv e cs ds
    (s\<lparr>procs := (procs s)[i := (procs s ! i)\<lparr>gp_res := []\<rparr>],
       gout := gout s @ printmatch (ge_flags e) (ge_showname e) (ge_re e) (gp_cmd (procs s ! i)) l\<rparr>)"
proof -
  have i: "i < length (procs s)" "i \<notin> set ds" and c: "cs ! i = gp_cmd (procs s ! i)" and cs: "map gp_cmd (procs s) = cs"
    using inv m by (auto simp: grep_inv_def)
  have "map gp_cmd ((procs s)[i := (procs s ! i)\<lparr>gp_res := []\<rparr>]) = cs"
    using i cs by simp
  then show ?thesis
    using inv m r i c by (auto simp: grep_inv_def nth_list_update)
qed

lemma inv_range_end:
  assumes "grep_inv e cs ds s" and "gmain s = MRange i" and "gp_res (procs s ! i) = []" "gp_pc (procs s ! i) = GEnd"
  shows "grep_inv e cs (ds @ [i]) (s\<lparr>gmain := MDec\<rparr>)"
  using assms by (auto simp: grep_inv_def outs_def)

lemma inv_main:
  assumes "grep_inv e cs ds s" and "main_step e s = Some s'" and "\<not> gf_quiet (ge_flags e)"
    and "\<forall>p \<in> set (procs s). length (gp_res p) \<le> 1"
  shows "\<exists>ds'. grep_inv e cs ds' s'"
proof (cases "gmain s")
  case (MFiles rest)
  show ?thesis
  proof (cases rest)
    case Nil
    with assms(1,2) MFiles have "grep_inv e cs ds s'" by (auto simp: main_step_def grep_inv_def outs_def)
    then show ?thesis ..
  next
    case (Cons c cs')
    with assms(2) MFiles inv_files [OF assms(1)] show ?thesis by (auto simp: main_step_def)
  qed
next
  case (MRange i)
  show ?thesis
  proof (cases "gp_res (procs s ! i)")
    case Nil
    with assms MRange inv_range_end [OF assms(1) MRange Nil] show ?thesis
      by (auto simp: main_step_def Let_def split: if_splits)
  next
    case (Cons l ls)
    have "i < length (procs s)" using assms(1) MRange by (simp add: grep_inv_def)
    with assms(4) Cons have "gp_res (procs s ! i) = [l]" by (metis One_nat_def Suc_le_mono le_zero_eq length_0_conv length_Cons nth_mem)
    with assms MRange Cons inv_print [OF assms(1) MRange] show ?thesis
      by (auto simp: main_step_def Let_def)
  qed
next
  case MTest
  with assms have "grep_inv e cs ds s'" by (auto simp: main_step_def grep_inv_def)
  then show ?thesis ..
qed (use assms in \<open>auto simp: main_step_def grep_inv_def\<close>)

lemma inv_take:
  assumes inv: "grep_inv e cs ds s" and t: "take_step i s = Some s'"
  shows "grep_inv e cs ds s'"
proof -
  let ?p = "procs s ! i" and ?q = "(procs s ! i)\<lparr>gp_pc := GLoop (gc_lines (gp_cmd (procs s ! i)))\<rparr>"
  have s: "gmain s = MWait" "i < length (procs s)" "gp_pc ?p = GSend" "s' = s\<lparr>procs := (procs s)[i := ?q], gmain := MRange i\<rparr>"
    using t by (auto simp: take_step_def split: if_splits)
  have i: "i \<notin> set ds" using inv s by (auto simp: grep_inv_def)
  then have "gp_res ?p = []" using inv s by (auto simp: grep_inv_def waiting_def)
  moreover have "map gp_cmd ((procs s)[i := ?q]) = map gp_cmd (procs s)"
    using s by simp
  ultimately show ?thesis
    using inv s i by (auto simp: grep_inv_def nth_list_update file_out_def)
qed

lemma grep_one_cmd: "grep_one e p n = Some (p', n') \<Longrightarrow> gp_cmd p' = gp_cmd p"
  by (auto simp: grep_one_def split: grep_pc.splits list.splits if_splits)

lemma grep_one_left:
  "grep_one e p n = Some (p', n') \<Longrightarrow> \<not> before_send (gp_pc p) \<Longrightarrow>
     \<not> before_send (gp_pc p') \<and> n' = n \<and> gp_res p' @ todo e (gp_pc p') = gp_res p @ todo e (gp_pc p)"
  by (auto simp: grep_one_def split: grep_pc.splits list.splits if_splits)

lemma grep_one_waiting: "grep_one e p n = Some (p', n') \<Longrightarrow> waiting p \<Longrightarrow> waiting p'"
  by (auto simp: grep_one_def waiting_def split: grep_pc.splits)

lemma grep_one_end: "gp_pc p = GEnd \<Longrightarrow> grep_one e p n = None"
  by (simp add: grep_one_def)

lemma main_inv_other:
  assumes "main_inv e cs ds ps out m" and "i < length ps" and "gp_cmd q = gp_cmd (ps ! i)" and "m \<noteq> MRange i"
  shows "main_inv e cs ds (ps[i := q]) out m"
  using assms by (cases m) auto

lemma inv_proc:
  assumes inv: "grep_inv e cs ds s" and t: "proc_step e i s = Some s'"
  shows "grep_inv e cs ds s'"
proof -
  let ?p = "procs s ! i"
  obtain q n where o: "grep_one e ?p (nGrep s) = Some (q, n)" and s: "i < length (procs s)"
      "s' = s\<lparr>procs := (procs s)[i := q], nGrep := n\<rparr>"
    using t by (auto simp: proc_step_def split: if_splits)
  have i: "i \<notin> set ds" using inv o by (auto simp: grep_inv_def grep_one_end)
  show ?thesis
  proof (cases "gmain s = MRange i")
    case True
    have cmd: "map gp_cmd ((procs s)[i := q]) = map gp_cmd (procs s)"
      using grep_one_cmd [OF o] s by simp
    from True have "\<not> before_send (gp_pc ?p)" using inv by (simp add: grep_inv_def)
    with grep_one_left [OF o this] inv s i True cmd show ?thesis
      by (auto simp: grep_inv_def nth_list_update)
  next
    case False
    then have w: "waiting q" using inv s i grep_one_waiting [OF o] by (auto simp: grep_inv_def)
    have "main_inv e cs ds ((procs s)[i := q]) (gout s) (gmain s)"
      using inv s False grep_one_cmd [OF o] by (intro main_inv_other) (auto simp: grep_inv_def)
    with inv s i w show ?thesis by (auto simp: grep_inv_def nth_list_update)
  qed
qed

text \<open>The channel of a goroutine holds at most one result.\<close>

definition within_cap :: "grep_state \<Rightarrow> bool" where
  "within_cap s \<longleftrightarrow> (\<forall>p \<in> set (procs s). length (gp_res p) \<le> 1)"

lemma grep_one_cap: "grep_one e p n = Some (p', n') \<Longrightarrow> length (gp_res p) \<le> 1 \<Longrightarrow> length (gp_res p') \<le> 1"
  by (auto simp: grep_one_def split: grep_pc.splits list.splits if_splits)

lemma main_step_cap: "main_step e s = Some s' \<Longrightarrow> within_cap s \<Longrightarrow> within_cap s'"
  by (auto simp: main_step_def Let_def within_cap_def start_proc_def split: gmain_pc.splits list.splits if_splits
      dest!: set_update_subset_insert [THEN subsetD])

lemma take_step_cap: "take_step i s = Some s' \<Longrightarrow> within_cap s \<Longrightarrow> within_cap s'"
  by (auto simp: take_step_def within_cap_def split: if_splits dest!: set_update_subset_insert [THEN subsetD])

lemma proc_step_cap:
  assumes "proc_step e i s = Some s'" and "within_cap s"
  shows "within_cap s'"
proof -
  obtain q n where q: "grep_one e (procs s ! i) (nGrep s) = Some (q, n)" "i < length (procs s)"
      "s' = s\<lparr>procs := (procs s)[i := q], nGrep := n\<rparr>"
    using assms(1) by (auto simp: proc_step_def split: if_splits)
  then have "length (gp_res q) \<le> 1" using assms(2) grep_one_cap [OF q(1)] by (simp add: within_cap_def)
  with assms(2) q(3) show ?thesis by (auto simp: within_cap_def dest!: set_update_subset_insert [THEN subsetD])
qed

lemma turn_inv:
  assumes "turn_step e t s = Some s'" and "grep_inv e cs ds s" and "within_cap s" and "\<not> gf_quiet (ge_flags e)"
  shows "\<exists>ds'. grep_inv e cs ds' s'"
proof (cases t)
  case TMain
  with assms(1) have "main_step e s = Some s'" by simp
  then show ?thesis by (rule inv_main [OF assms(2) _ assms(4) assms(3) [unfolded within_cap_def]])
next
  case (TTake i)
  with assms(1) have "take_step i s = Some s'" by simp
  then show ?thesis using inv_take [OF assms(2)] by blast
next
  case (TProc i)
  with assms(1) have "proc_step e i s = Some s'" by simp
  then show ?thesis using inv_proc [OF assms(2)] by blast
qed

lemma turn_cap: "turn_step e t s = Some s' \<Longrightarrow> within_cap s \<Longrightarrow> within_cap s'"
  by (cases t) (simp_all add: main_step_cap take_step_cap proc_step_cap)

lemma grep_inv_reach:
  assumes "(grep_step e)\<^sup>*\<^sup>* (grep_start cs) s" and "\<not> gf_quiet (ge_flags e)"
  shows "within_cap s \<and> (\<exists>ds. grep_inv e cs ds s)"
  using assms(1)
proof (induction rule: rtranclp_induct)
  case base
  show ?case using grep_inv_start by (auto simp: within_cap_def grep_start_def)
next
  case (step s s')
  then obtain t ds where "turn_step e t s = Some s'" "grep_inv e cs ds s" "within_cap s" by (auto elim: grep_stepE)
  then show ?case using turn_inv turn_cap assms(2) by blast
qed

section \<open>Progress and termination\<close>

lemma grep_one_ready:
  "gp_res p = [] \<Longrightarrow> gp_pc p \<notin> {GSend, GEnd} \<Longrightarrow> \<exists>q m. grep_one e p n = Some (q, m)"
  by (auto simp: grep_one_def split: grep_pc.splits list.splits)

text \<open>What stops a run: the exit, or a receive for which no sender is left.\<close>

definition all_taken :: "nat list \<Rightarrow> grep_state \<Rightarrow> bool" where
  "all_taken ds s \<longleftrightarrow> gmain s = MWait \<and> set ds = {..<length (procs s)}"

lemma grep_progress:
  assumes inv: "grep_inv e cs ds s" and "alive s" and "\<not> all_taken ds s"
  shows "\<exists>t s'. turn_step e t s = Some s'"
proof (cases "gmain s")
  case (MFiles rest)
  then show ?thesis by (intro exI [of _ TMain]) (cases rest; simp add: main_step_def)
next
  case MWait
  then obtain i where i: "i < length (procs s)" "waiting (procs s ! i)"
    using inv assms(3) by (auto simp: grep_inv_def all_taken_def)
  show ?thesis
  proof (cases "gp_pc (procs s ! i) = GSend")
    case True
    with i MWait show ?thesis by (intro exI [of _ "TTake i"]) (simp add: take_step_def)
  next
    case False
    moreover have "gp_pc (procs s ! i) \<noteq> GEnd" using i by (auto simp: waiting_def)
    ultimately obtain q m where "grep_one e (procs s ! i) (nGrep s) = Some (q, m)"
      using i grep_one_ready [of "procs s ! i" e "nGrep s"] by (auto simp: waiting_def)
    with i assms(2) show ?thesis by (intro exI [of _ "TProc i"]) (simp add: proc_step_def)
  qed
next
  case (MRange i)
  then have i: "i < length (procs s)" "\<not> before_send (gp_pc (procs s ! i))" using inv by (auto simp: grep_inv_def)
  show ?thesis
  proof (cases "gp_res (procs s ! i) = [] \<and> gp_pc (procs s ! i) \<noteq> GEnd")
    case True
    then obtain q m where "grep_one e (procs s ! i) (nGrep s) = Some (q, m)"
      using i(2) grep_one_ready [of "procs s ! i"] by fastforce
    with i(1) assms(2) show ?thesis by (intro exI [of _ "TProc i"]) (simp add: proc_step_def)
  next
    case False
    with MRange show ?thesis by (intro exI [of _ TMain]) (auto simp: main_step_def Let_def split: list.splits)
  qed
qed (use assms(2) in \<open>auto simp: alive_def main_step_def intro!: exI [of _ TMain]\<close>)

fun pc_weight :: "grepCommand \<Rightarrow> grep_pc \<Rightarrow> nat" where
  "pc_weight c GStart = 3 * length (gc_lines c) + 8"
| "pc_weight c (GInc v) = 3 * length (gc_lines c) + 7"
| "pc_weight c GSend = 3 * length (gc_lines c) + 6"
| "pc_weight c (GLoop ls) = 3 * length ls + 1"
| "pc_weight c (GPush l ls) = 3 * length ls + 3"
| "pc_weight c GEnd = 0"

definition proc_weight :: "grep_proc \<Rightarrow> nat" where
  "proc_weight p = length (gp_res p) + pc_weight (gp_cmd p) (gp_pc p)"

fun main_weight :: "gmain_pc \<Rightarrow> nat" where
  "main_weight (MFiles cs) = sum_list (map (\<lambda>c. 3 * length (gc_lines c) + 9) cs) + 1"
| "main_weight MWait = 0"
| "main_weight (MRange i) = 4"
| "main_weight MDec = 3"
| "main_weight (MStore v) = 2"
| "main_weight MTest = 1"
| "main_weight (MExit k) = 0"

definition grep_measure :: "grep_state \<Rightarrow> nat" where
  "grep_measure s = sum_list (map proc_weight (procs s)) + main_weight (gmain s)"

lemma weight_update:
  assumes "i < length ps"
  shows "sum_list (map proc_weight (ps[i := q])) + proc_weight (ps ! i) = sum_list (map proc_weight ps) + proc_weight q"
proof -
  have "proc_weight (ps ! i) \<le> sum_list (map proc_weight ps)"
    using assms member_le_sum_list [of "proc_weight (ps ! i)" "map proc_weight ps"] by simp
  with assms show ?thesis by (simp add: map_update sum_list_update)
qed

lemma grep_one_weight: "grep_one e p n = Some (p', n') \<Longrightarrow> proc_weight p' < proc_weight p"
  by (auto simp: grep_one_def proc_weight_def split: grep_pc.splits list.splits if_splits)

lemma turn_measure:
  assumes "turn_step e t s = Some s'" and "\<And>i. gmain s = MRange i \<Longrightarrow> i < length (procs s)"
  shows "grep_measure s' < grep_measure s"
proof (cases t)
  case TMain
  show ?thesis
  proof (cases "gmain s")
    case (MFiles rest)
    with assms TMain show ?thesis
      by (cases rest) (auto simp: main_step_def grep_measure_def start_proc_def proc_weight_def)
  next
    case (MRange i)
    with assms TMain weight_update [of i "procs s" "(procs s ! i)\<lparr>gp_res := []\<rparr>"] show ?thesis
      by (auto simp: main_step_def grep_measure_def Let_def proc_weight_def split: list.splits if_splits)
  qed (use assms TMain in \<open>auto simp: main_step_def grep_measure_def\<close>)
next
  case (TTake i)
  with assms weight_update [of i "procs s" "(procs s ! i)\<lparr>gp_pc := GLoop (gc_lines (gp_cmd (procs s ! i)))\<rparr>"]
  show ?thesis by (auto simp: take_step_def grep_measure_def proc_weight_def split: if_splits)
next
  case (TProc i)
  with assms obtain q n where q: "grep_one e (procs s ! i) (nGrep s) = Some (q, n)" "i < length (procs s)"
      "s' = s\<lparr>procs := (procs s)[i := q], nGrep := n\<rparr>"
    by (auto simp: proc_step_def split: if_splits)
  with grep_one_weight [OF q(1)] weight_update [OF q(2), of q] show ?thesis by (simp add: grep_measure_def)
qed

lemma grep_steps_bound:
  assumes "(grep_step e ^^ n) (grep_start cs) s" and "\<not> gf_quiet (ge_flags e)"
  shows "n + grep_measure s \<le> grep_measure (grep_start cs)"
  using assms(1)
proof (induction n arbitrary: s)
  case (Suc n)
  then obtain s0 t where s0: "(grep_step e ^^ n) (grep_start cs) s0" "turn_step e t s0 = Some s"
    by (auto elim: grep_stepE)
  then obtain ds where "grep_inv e cs ds s0"
    using grep_inv_reach [OF relpowp_imp_rtranclp assms(2)] by blast
  then have "grep_measure s < grep_measure s0" by (intro turn_measure [OF s0(2)]) (simp add: grep_inv_def)
  with Suc.IH [OF s0(1)] show ?case by simp
qed simp

lemma grep_final:
  assumes "(grep_step e)\<^sup>*\<^sup>* (grep_start cs) s" and "\<nexists>s'. grep_step e s s'" and "\<not> gf_quiet (ge_flags e)"
  shows "\<exists>order. distinct order \<and> set order \<subseteq> {..<length cs} \<and> gout s = outs e cs order \<and>
    (gmain s = MExit 0 \<and> order \<noteq> [] \<or> gmain s = MWait \<and> set order = {..<length cs})"
proof -
  obtain ds where inv: "grep_inv e cs ds s" using grep_inv_reach [OF assms(1,3)] by blast
  moreover have "\<not> alive s \<or> all_taken ds s" using grep_progress [OF inv] assms(2) by (auto intro: grep_step.turn)
  ultimately show ?thesis
    by (intro exI [of _ ds])
      (auto simp: grep_inv_def alive_def all_taken_def split: gmain_pc.splits dest: arg_cong [of _ _ length])
qed

section \<open>Runs\<close>

text \<open>The run of a given list of turns.\<close>

fun grep_turns :: "grep_env \<Rightarrow> grep_turn list \<Rightarrow> grep_state \<Rightarrow> grep_state option" where
  "grep_turns e [] s = Some s"
| "grep_turns e (t # ts) s = (case turn_step e t s of None \<Rightarrow> None | Some s' \<Rightarrow> grep_turns e ts s')"

lemma grep_turns_steps: "grep_turns e ts s = Some s' \<Longrightarrow> (grep_step e ^^ length ts) s s'"
proof (induction ts arbitrary: s)
  case (Cons t ts)
  then obtain s1 where "turn_step e t s = Some s1" "grep_turns e ts s1 = Some s'" by (auto split: option.splits)
  with Cons.IH show ?case by (auto simp del: relpowp.simps intro!: relpowp_Suc_I2 grep_step.turn)
qed simp

lemma exit_stops: "gmain s = MExit k \<Longrightarrow> \<nexists>s'. grep_step e s s'"
proof
  assume m: "gmain s = MExit k" and "\<exists>s'. grep_step e s s'"
  then obtain t s' where "turn_step e t s = Some s'" by (auto elim: grep_stepE)
  with m show False by (cases t) (auto simp: main_step_def take_step_def proc_step_def alive_def)
qed

text \<open>With the channels of all goroutines taken, nothing wakes \<^verbatim>\<open>main\<close> at its receive.\<close>

lemma wait_stops:
  assumes "gmain s = MWait" and "list_all (\<lambda>p. gp_pc p = GEnd) (procs s)"
  shows "\<nexists>s'. grep_step e s s'"
proof
  assume "\<exists>s'. grep_step e s s'"
  then obtain t s' where "turn_step e t s = Some s'" by (auto elim: grep_stepE)
  with assms show False
    by (cases t) (auto simp: main_step_def take_step_def proc_step_def grep_one_end list_all_length split: if_splits)
qed

definition two_files :: "grepCommand list" where
  "two_files = [\<lparr>gc_name = ''a'', gc_lines = [''x1'' @ [newline], ''y'' @ [newline]]\<rparr>,
     \<lparr>gc_name = ''b'', gc_lines = [''x2'' @ [newline]]\<rparr>]"

definition find_x :: grep_env where
  "find_x = \<lparr>ge_flags = grep_defaults, ge_showname = True, ge_re = (\<lambda>l. hd l = CHR ''x'')\<rparr>"

definition both_printed :: string where
  "both_printed = ''b:x2'' @ [newline] @ ''a:x1'' @ [newline]"

text \<open>The second goroutine is served first; both are counted before.\<close>

definition good_turns :: "grep_turn list" where
  "good_turns = [TMain, TMain, TMain, TProc 0, TProc 0, TProc 1, TProc 1,
     TTake 1, TProc 1, TProc 1, TMain, TProc 1, TMain, TMain, TMain, TMain,
     TTake 0, TProc 0, TProc 0, TMain, TProc 0, TProc 0, TMain, TMain, TMain, TMain]"

lemma good_run:
  "map_option (\<lambda>s. (gmain s, gout s)) (grep_turns find_x good_turns (grep_start two_files)) = Some (MExit 0, both_printed)"
  by code_simp

text \<open>
  The store of \<^verbatim>\<open>nGrep--\<close> falls between the load and the store of the other goroutine's \<^verbatim>\<open>nGrep++\<close> and is lost:
  everything is printed, and then \<^verbatim>\<open>main\<close> waits for ever.
\<close>

definition lost_turns :: "grep_turn list" where
  "lost_turns = [TMain, TMain, TMain, TProc 1, TProc 1,
     TTake 1, TProc 1, TProc 1, TMain, TProc 1, TMain, TMain, TProc 0, TMain, TProc 0, TMain,
     TTake 0, TProc 0, TProc 0, TMain, TProc 0, TProc 0, TMain, TMain, TMain, TMain]"

lemma lost_run:
  "map_option (\<lambda>s. (gmain s, gout s, map gp_pc (procs s))) (grep_turns find_x lost_turns (grep_start two_files)) =
     Some (MWait, both_printed, [GEnd, GEnd])"
  by code_simp

lemma grep_may_block:
  "\<exists>s. (grep_step find_x)\<^sup>*\<^sup>* (grep_start two_files) s \<and> gmain s = MWait \<and> gout s = both_printed \<and> (\<nexists>s'. grep_step find_x s s')"
proof -
  from lost_run obtain s where s: "grep_turns find_x lost_turns (grep_start two_files) = Some s"
    and m: "gmain s = MWait" "gout s = both_printed" and "map gp_pc (procs s) = [GEnd, GEnd]" by auto
  then have "list_all (\<lambda>p. gp_pc p = GEnd) (procs s)" by (auto simp: map_eq_Cons_conv)
  with wait_stops [OF m(1)] m relpowp_imp_rtranclp [OF grep_turns_steps [OF s]] show ?thesis by blast
qed

text \<open>
  C38. Whatever the scheduling, a run of \<^verbatim>\<open>grep\<close> without \<^verbatim>\<open>-q\<close> has at most nine steps for each file and three for each line,
  and one more. A run that cannot go on has printed, for some of the files and in some order, exactly the results of each file
  (its matching lines, with \<^verbatim>\<open>-l\<close> at most its name), with nothing of different files mixed. Either it has exited with 0, or all files are printed and the main goroutine is
  blocked for ever at its receive from \<^verbatim>\<open>allGrep\<close>.
\<close>

theorem grep_prints_whole_files:
  assumes "\<not> gf_quiet (ge_flags e)"
  shows "((grep_step e ^^ n) (grep_start cs) s \<longrightarrow> n \<le> sum_list (map (\<lambda>c. 3 * length (gc_lines c) + 9) cs) + 1) \<and>
    ((grep_step e)\<^sup>*\<^sup>* (grep_start cs) s \<and> (\<nexists>s'. grep_step e s s') \<longrightarrow>
      (\<exists>order. distinct order \<and> set order \<subseteq> {..<length cs} \<and>
        gout s = concat (map (\<lambda>i. file_out e (cs ! i)) order) \<and>
        (gmain s = MExit 0 \<and> order \<noteq> [] \<or> gmain s = MWait \<and> set order = {..<length cs})))"
proof -
  have "grep_measure (grep_start cs) = sum_list (map (\<lambda>c. 3 * length (gc_lines c) + 9) cs) + 1"
    by (simp add: grep_measure_def grep_start_def)
  then show ?thesis
    using grep_steps_bound [OF _ assms, of n cs s] grep_final [OF _ _ assms, of cs s] by (auto simp: outs_def)
qed

theorem grep_prints_whole_files_witness:
  "\<exists>s order. (grep_step find_x ^^ 26) (grep_start two_files) s \<and> gmain s = MExit 0 \<and> gout s = both_printed \<and>
    distinct order \<and> order \<noteq> [] \<and> gout s = concat (map (\<lambda>i. file_out find_x (two_files ! i)) order)"
proof -
  from good_run obtain s where s: "grep_turns find_x good_turns (grep_start two_files) = Some s"
    and m: "gmain s = MExit 0" "gout s = both_printed" by auto
  have "length good_turns = 26" by (simp add: good_turns_def)
  with grep_turns_steps [OF s] have n: "(grep_step find_x ^^ 26) (grep_start two_files) s" by (simp only:)
  have "\<not> gf_quiet (ge_flags find_x)" by (simp add: find_x_def grep_defaults_def)
  from grep_prints_whole_files [OF this, of 26 two_files s] relpowp_imp_rtranclp [OF n] exit_stops [OF m(1)] m
  obtain order where "distinct order" "order \<noteq> []" "gout s = concat (map (\<lambda>i. file_out find_x (two_files ! i)) order)" by auto
  with n m show ?thesis by blast
qed

section \<open>Files that are not printed\<close>

text \<open>A schedule in which only the first goroutine runs.\<close>

lemma last_counted:
  assumes "gmain s = MDec" and "nGrep s = 1" and "\<not> gf_quiet (ge_flags e)"
  shows "\<exists>s'. (grep_step e)\<^sup>*\<^sup>* s s' \<and> gmain s' = MExit 0 \<and> gout s' = gout s"
proof -
  have "grep_turns e [TMain, TMain, TMain] s = Some (s\<lparr>nGrep := 0, gmain := MExit 0\<rparr>)"
    using assms by (simp add: main_step_def)
  from relpowp_imp_rtranclp [OF grep_turns_steps [OF this]] show ?thesis
    by (intro exI [of _ "s\<lparr>nGrep := 0, gmain := MExit 0\<rparr>"]) simp
qed

lemma first_only:
  assumes "grep_inv e cs [] s" and "within_cap s" and "gmain s = MRange 0" and "nGrep s = 1" and "\<not> gf_quiet (ge_flags e)"
  shows "\<exists>s'. (grep_step e)\<^sup>*\<^sup>* s s' \<and> gmain s' = MExit 0 \<and> gout s' = outs e cs [0]"
  using assms
proof (induction "grep_measure s" arbitrary: s rule: less_induct)
  case less
  let ?p = "procs s ! 0"
  have p: "0 < length (procs s)" "\<not> before_send (gp_pc ?p)" using less.prems by (auto simp: grep_inv_def)
  have "alive s" using less.prems by (simp add: alive_def)
  have step: ?case if t: "turn_step e t s = Some s'" and "grep_inv e cs [] s'" "gmain s' = MRange 0" "nGrep s' = 1" for t s'
  proof -
    have "grep_measure s' < grep_measure s" using p(1) less.prems(3) by (intro turn_measure [OF t]) simp
    then have "\<exists>s''. (grep_step e)\<^sup>*\<^sup>* s' s'' \<and> gmain s'' = MExit 0 \<and> gout s'' = outs e cs [0]"
      using that less.prems turn_cap [OF t] by (intro less.hyps) auto
    then show ?thesis using grep_step.turn [OF t] by (meson converse_rtranclp_into_rtranclp)
  qed
  consider l ls where "gp_res ?p = l # ls" | "gp_res ?p = []" "gp_pc ?p = GEnd" | "gp_res ?p = []" "gp_pc ?p \<noteq> GEnd"
    by (cases "gp_res ?p") auto
  then show ?case
  proof cases
    case 1
    then have r: "gp_res ?p = [l]" using less.prems(2) p(1) by (cases ls) (auto simp: within_cap_def dest: bspec [OF _ nth_mem [of 0]])
    show ?thesis
      by (rule step [of TMain, OF _ inv_print [OF less.prems(1,3) r]]) (use less.prems r in \<open>auto simp: main_step_def Let_def\<close>)
  next
    case 2
    then have "turn_step e TMain s = Some (s\<lparr>gmain := MDec\<rparr>)"
      using less.prems by (simp add: main_step_def Let_def)
    then have "grep_step e s (s\<lparr>gmain := MDec\<rparr>)" by (rule grep_step.turn)
    moreover have "gout s = outs e cs [0]" using less.prems 2 by (simp add: grep_inv_def outs_def)
    ultimately show ?thesis
      using last_counted [of "s\<lparr>gmain := MDec\<rparr>" e] less.prems(4,5) by (auto intro: converse_rtranclp_into_rtranclp)
  next
    case 3
    then obtain q n where q: "grep_one e ?p (nGrep s) = Some (q, n)" using p(2) grep_one_ready [of ?p] by fastforce
    from grep_one_left [OF q p(2)] less.prems have "n = 1" by simp
    have t: "proc_step e 0 s = Some (s\<lparr>procs := (procs s)[0 := q], nGrep := n\<rparr>)"
      using q p(1) \<open>alive s\<close> by (simp add: proc_step_def)
    show ?thesis
      by (rule step [of "TProc 0", OF _ inv_proc [OF less.prems(1) t]]) (use t less.prems \<open>n = 1\<close> in simp_all)
  qed
qed

lemma all_started:
  "(grep_step e)\<^sup>*\<^sup>* \<lparr>nGrep = 0, procs = ps, gmain = MFiles fs, gout = []\<rparr>
     \<lparr>nGrep = 0, procs = ps @ map start_proc fs, gmain = MWait, gout = []\<rparr>"
proof (induction fs arbitrary: ps)
  case Nil
  have "turn_step e TMain \<lparr>nGrep = 0, procs = ps, gmain = MFiles [], gout = []\<rparr> =
    Some \<lparr>nGrep = 0, procs = ps, gmain = MWait, gout = []\<rparr>" by (simp add: main_step_def)
  from r_into_rtranclp [of "grep_step e", OF grep_step.turn [OF this]] show ?case by simp
next
  case (Cons c fs)
  have "turn_step e TMain \<lparr>nGrep = 0, procs = ps, gmain = MFiles (c # fs), gout = []\<rparr> =
    Some \<lparr>nGrep = 0, procs = ps @ [start_proc c], gmain = MFiles fs, gout = []\<rparr>" by (simp add: main_step_def)
  from converse_rtranclp_into_rtranclp [of "grep_step e", OF grep_step.turn [OF this] Cons.IH] show ?case by simp
qed

text \<open>
  The counter \<^verbatim>\<open>nGrep\<close> does not protect the loop of \<^verbatim>\<open>main\<close>: for every list of files there is
  a schedule in which the first file is finished before any other goroutine has counted itself, and the command
  exits with 0 having printed the matches of the first file only.
\<close>

lemma grep_may_drop_files:
  assumes "cs \<noteq> []" and "\<not> gf_quiet (ge_flags e)"
  shows "\<exists>s. (grep_step e)\<^sup>*\<^sup>* (grep_start cs) s \<and> gmain s = MExit 0 \<and> gout s = file_out e (cs ! 0)"
proof -
  obtain c fs where cs: "cs = c # fs" using assms(1) by (cases cs) auto
  let ?s = "\<lambda>n pc m. \<lparr>nGrep = n, procs = (start_proc c)\<lparr>gp_pc := pc\<rparr> # map start_proc fs, gmain = m, gout = []\<rparr>"
  let ?t = "?s 1 (GLoop (gc_lines c)) (MRange 0)"
  have 0: "(grep_step e)\<^sup>*\<^sup>* (grep_start cs) (?s 0 GStart MWait)"
    using all_started [of e "[]" cs] cs by (simp add: grep_start_def start_proc_def)
  have "grep_turns e [TProc 0, TProc 0, TTake 0] (?s 0 GStart MWait) = Some ?t"
    by (simp add: proc_step_def alive_def grep_one_def take_step_def start_proc_def)
  from rtranclp_trans [OF 0 relpowp_imp_rtranclp [OF grep_turns_steps [OF this]]]
  have r: "(grep_step e)\<^sup>*\<^sup>* (grep_start cs) ?t" .
  have "\<forall>i < length (procs ?t). i \<notin> set [] \<longrightarrow> gmain ?t \<noteq> MRange i \<longrightarrow> waiting (procs ?t ! i)"
    by (auto simp: waiting_def start_proc_def nth_Cons' )
  moreover have "main_inv e cs [] (procs ?t) [] (MRange 0)"
    by (simp add: cs start_proc_def outs_def file_out_def comp_def)
  ultimately have "grep_inv e cs [] ?t" by (simp add: grep_inv_def)
  then obtain s where "(grep_step e)\<^sup>*\<^sup>* ?t s" "gmain s = MExit 0" "gout s = outs e cs [0]"
    using first_only [of e cs ?t] assms(2) by (auto simp: within_cap_def start_proc_def)
  with r show ?thesis by (auto simp: outs_def intro: rtranclp_trans)
qed

text \<open>When no file can be opened, \<^verbatim>\<open>main\<close> waits for a channel that no goroutine will send.\<close>

lemma grep_no_file_blocks:
  "(grep_step e)\<^sup>*\<^sup>* (grep_start []) \<lparr>nGrep = 0, procs = [], gmain = MWait, gout = []\<rparr> \<and>
   (\<nexists>s'. grep_step e \<lparr>nGrep = 0, procs = [], gmain = MWait, gout = []\<rparr> s')"
proof
  have "turn_step e TMain (grep_start []) = Some \<lparr>nGrep = 0, procs = [], gmain = MWait, gout = []\<rparr>"
    by (simp add: main_step_def grep_start_def)
  then show "(grep_step e)\<^sup>*\<^sup>* (grep_start []) \<lparr>nGrep = 0, procs = [], gmain = MWait, gout = []\<rparr>"
    by (rule r_into_rtranclp [of "grep_step e", OF grep_step.turn])
qed (rule wait_stops; simp)

end
