(* ===== verification/Stty.thy ===== *)
theory Stty
  imports Go_Fs Go_Strconv "HOL-Library.Multiset"
begin

text \<open>
  The command \<^verbatim>\<open>stty\<close> of \<^verbatim>\<open>src/cmds/stty\<close>: reading the terminal settings, changing them by name and
  writing them back. The four ioctls are parameters. Go iterates over a map in an unspecified order, so every loop
  over \<^verbatim>\<open>boolFields\<close> and \<^verbatim>\<open>cc\<close> whose order matters takes the order as an argument.
\<close>

section \<open>Tables\<close>

datatype tword = WI | WO | WC | WL

record bit_field =
  b_word :: tword
  b_mask :: u32

definition fld :: "tword \<Rightarrow> u32 \<Rightarrow> bit_field" where
  "fld w m = \<lparr>b_word = w, b_mask = m\<rparr>"

definition boolFields :: "(string \<times> bit_field) list" where
  "boolFields =
    [(''ignbrk'', fld WI 1), (''brkint'', fld WI 2), (''ignpar'', fld WI 4), (''parmrk'', fld WI 8),
     (''inpck'', fld WI 0x10), (''istrip'', fld WI 0x20), (''inlcr'', fld WI 0x40), (''igncr'', fld WI 0x80),
     (''icrnl'', fld WI 0x100), (''iuclc'', fld WI 0x200), (''ixon'', fld WI 0x400), (''ixany'', fld WI 0x800),
     (''ixoff'', fld WI 0x1000), (''imaxbel'', fld WI 0x2000), (''iutf8'', fld WI 0x4000),
     (''opost'', fld WO 1), (''olcuc'', fld WO 2), (''onlcr'', fld WO 4), (''ocrnl'', fld WO 8),
     (''onocr'', fld WO 0x10), (''onlret'', fld WO 0x20), (''ofill'', fld WO 0x40), (''ofdel'', fld WO 0x80),
     (''isig'', fld WL 1), (''icanon'', fld WL 2), (''xcase'', fld WL 4), (''echo'', fld WL 8),
     (''echoe'', fld WL 0x10), (''echok'', fld WL 0x20), (''echonl'', fld WL 0x40), (''noflsh'', fld WL 0x80),
     (''tostop'', fld WL 0x100), (''echoctl'', fld WL 0x200), (''echoprt'', fld WL 0x400), (''echoke'', fld WL 0x800),
     (''flusho'', fld WL 0x1000), (''pendin'', fld WL 0x4000), (''iexten'', fld WL 0x8000),
     (''cstopb'', fld WC 0x40), (''cread'', fld WC 0x80), (''parenb'', fld WC 0x100), (''parodd'', fld WC 0x200),
     (''hupcl'', fld WC 0x400), (''clocal'', fld WC 0x800)]"

text \<open>The indices into the control characters. The index of \<^verbatim>\<open>time\<close> is that of \<^verbatim>\<open>intr\<close>.\<close>

definition cc :: "(string \<times> nat) list" where
  "cc = [(''min'', 5), (''time'', 0), (''lnext'', 15), (''intr'', 0), (''quit'', 1), (''erase'', 2), (''kill'', 3),
     (''eof'', 4), (''eol'', 11), (''eol2'', 16), (''start'', 8), (''stop'', 9), (''susp'', 10), (''werase'', 14)]"

section \<open>Settings\<close>

text \<open>\<^verbatim>\<open>syscall.Termios\<close> and \<^verbatim>\<open>winsize\<close> of the kernel, and \<^verbatim>\<open>tty\<close> of the command.\<close>

record termios =
  t_word :: "tword \<Rightarrow> u32"
  t_Cc :: "u8 list"
  t_Ispeed :: u32
  t_Ospeed :: u32

record winsize =
  ws_Row :: u16
  ws_Col :: u16

record tty =
  Ispeed :: int
  Ospeed :: int
  Row :: int
  Col :: int
  CC :: "string \<Rightarrow> u8 option"
  Opts :: "string \<Rightarrow> bool option"

record 'w tty_dev =
  tiGet :: "'w \<Rightarrow> goerr + termios"
  tiSet :: "termios \<Rightarrow> 'w \<Rightarrow> goerr option \<times> 'w"
  wsGet :: "'w \<Rightarrow> goerr + winsize"
  wsSet :: "winsize \<Rightarrow> 'w \<Rightarrow> goerr option \<times> 'w"

definition opt_of :: "termios \<Rightarrow> bit_field \<Rightarrow> bool" where
  "opt_of tm b \<longleftrightarrow> t_word tm (b_word b) AND b_mask b \<noteq> 0"

definition gtty :: "'w tty_dev \<Rightarrow> 'w \<Rightarrow> goerr + tty" where
  "gtty dev w =
     (case tiGet dev w of
        Inl err \<Rightarrow> Inl err
      | Inr tm \<Rightarrow>
          (case wsGet dev w of
             Inl err \<Rightarrow> Inl err
           | Inr ws \<Rightarrow>
               Inr \<lparr>Ispeed = uint (t_Ispeed tm), Ospeed = uint (t_Ospeed tm), Row = uint (ws_Row ws), Col = uint (ws_Col ws),
                    CC = map_of (map (\<lambda>(n, c). (n, t_Cc tm ! c)) cc),
                    Opts = map_of (map (\<lambda>(n, b). (n, opt_of tm b)) boolFields)\<rparr>))"

definition set_bit_field :: "bool \<Rightarrow> bit_field \<Rightarrow> termios \<Rightarrow> termios" where
  "set_bit_field on b tm =
     (let i = t_word tm (b_word b);
          i' = (if on then i OR b_mask b else i AND NOT (b_mask b))
      in tm\<lparr>t_word := (t_word tm)(b_word b := i')\<rparr>)"

definition set_fields :: "(string \<times> bit_field) list \<Rightarrow> tty \<Rightarrow> termios \<Rightarrow> termios" where
  "set_fields ord t tm = fold (\<lambda>(n, b). set_bit_field (Opts t n = Some True) b) ord tm"

text \<open>A missing entry of the map reads as 0.\<close>

definition set_chars :: "(string \<times> nat) list \<Rightarrow> tty \<Rightarrow> termios \<Rightarrow> termios" where
  "set_chars ord t tm =
     fold (\<lambda>(n, c) m. m\<lparr>t_Cc := (t_Cc m)[c := (case CC t n of None \<Rightarrow> 0 | Some v \<Rightarrow> v)]\<rparr>) ord tm"

definition stty ::
    "'w tty_dev \<Rightarrow> (string \<times> bit_field) list \<Rightarrow> (string \<times> nat) list \<Rightarrow> tty \<Rightarrow> 'w \<Rightarrow> (goerr + tty) \<times> 'w" where
  "stty dev bord cord t w =
     (case tiGet dev w of
        Inl err \<Rightarrow> (Inl err, w)
      | Inr tm \<Rightarrow>
          let tm' = (set_chars cord t (set_fields bord t tm))
                \<lparr>t_Ispeed := word_of_int (Ispeed t), t_Ospeed := word_of_int (Ospeed t)\<rparr>
          in case tiSet dev tm' w of
               (Some err, w') \<Rightarrow> (Inl err, w')
             | (None, w') \<Rightarrow>
                 (case wsSet dev \<lparr>ws_Row = word_of_int (Row t), ws_Col = word_of_int (Col t)\<rparr> w' of
                    (Some err, w'') \<Rightarrow> (Inl err, w'')
                  | (None, w'') \<Rightarrow> (gtty dev w'', w'')))"

section \<open>Options\<close>

definition intarg :: "string list \<Rightarrow> int res" where
  "intarg s = (if length s < 2 then Exit 1 else case Atoi (s ! 1) of Inl _ \<Rightarrow> Exit 1 | Inr i \<Rightarrow> Val i)"

definition bind_res :: "'a res \<Rightarrow> ('a \<Rightarrow> 'b res) \<Rightarrow> 'b res" where
  "bind_res r f = (case r of Val x \<Rightarrow> f x | Exit k \<Rightarrow> Exit k | Crash p \<Rightarrow> Crash p)"

lemma bind_res_simps [simp]: "bind_res (Val x) f = f x" "bind_res (Exit k) f = Exit k" "bind_res (Crash p) f = Crash p"
  by (simp_all add: bind_res_def)

text \<open>One option; the flag says whether its argument has been used.\<close>

definition setOpt :: "tty \<Rightarrow> string list \<Rightarrow> (tty \<times> bool) res" where
  "setOpt t opts =
     (let o1 = hd opts
      in if o1 = ''row'' then bind_res (intarg opts) (\<lambda>i. Val (t\<lparr>Row := i\<rparr>, True))
         else if o1 = ''col'' then bind_res (intarg opts) (\<lambda>i. Val (t\<lparr>Col := i\<rparr>, True))
         else if o1 = ''speed'' then bind_res (intarg opts) (\<lambda>i. Val (t\<lparr>Ispeed := i\<rparr>, True))
         else if map_of cc o1 \<noteq> None then
           bind_res (intarg opts) (\<lambda>i. Val (t\<lparr>CC := (CC t)(o1 \<mapsto> word_of_int i)\<rparr>, True))
         else if o1 = [] then Crash ''index out of range''
         else
           let on = (hd o1 \<noteq> CHR ''~'');
               o2 = (if on then o1 else tl o1)
           in if map_of boolFields o2 = None then Exit 1
              else Val (t\<lparr>Opts := (Opts t)(o2 \<mapsto> on)\<rparr>, False))"

fun setOpts :: "tty \<Rightarrow> string list \<Rightarrow> tty res" where
  "setOpts t [] = Val t"
| "setOpts t (x # opts) =
     bind_res (setOpt t (x # opts)) (\<lambda>(t', used). setOpts t' (if used then tl opts else opts))"

definition raw_opts :: "string list" where
  "raw_opts = [''~ignbrk'', ''~brkint'', ''~parmrk'', ''~istrip'', ''~inlcr'', ''~igncr'', ''~icrnl'', ''~ixon'', ''~opost'', ''~echo'', ''~echonl'', ''~icanon'', ''~isig'', ''~iexten'', ''~parenb'', ''min'', ''1'', ''time'', ''0'']"

definition setRaw ::
    "'w tty_dev \<Rightarrow> (string \<times> bit_field) list \<Rightarrow> (string \<times> nat) list \<Rightarrow> 'w \<Rightarrow> (goerr + tty) res \<times> 'w" where
  "setRaw dev bord cord w =
     (case gtty dev w of
        Inl err \<Rightarrow> (Val (Inl err), w)
      | Inr t \<Rightarrow>
          (case setOpts t raw_opts of
             Val t' \<Rightarrow> (case stty dev bord cord t' w of (r, w') \<Rightarrow> (Val r, w'))
           | Exit k \<Rightarrow> (Exit k, w)
           | Crash p \<Rightarrow> (Crash p, w)))"

text \<open>
  \<^verbatim>\<open>main\<close>: the result is the settings it prints, if any. \<open>load\<close> stands for reading a file and decoding its
  JSON text over the current settings; the text itself, also that of \<^verbatim>\<open>dump\<close>, is not modelled.
\<close>

definition stty_main ::
    "'w tty_dev \<Rightarrow> (string \<Rightarrow> 'w \<Rightarrow> tty \<Rightarrow> goerr + tty) \<Rightarrow> (string \<times> bit_field) list \<Rightarrow> (string \<times> nat) list \<Rightarrow>
     string list \<Rightarrow> 'w \<Rightarrow> tty option res \<times> 'w" where
  "stty_main dev load bord cord args w =
     (case gtty dev w of
        Inl _ \<Rightarrow> (Exit 1, w)
      | Inr t \<Rightarrow>
          let finish = (\<lambda>t'. case stty dev bord cord t' w of
                (Inl _, w') \<Rightarrow> (Exit 1, w') | (Inr t'', w') \<Rightarrow> (Val (Some t''), w'))
          in if args = [] \<or> hd args \<in> {''pretty'', ''dump''} then (Val (Some t), w)
          else if hd args = ''load'' then
            (if length args \<noteq> 2 then (Exit 1, w)
             else case load (args ! 1) w t of Inl _ \<Rightarrow> (Exit 1, w) | Inr t' \<Rightarrow> finish t')
          else if hd args = ''raw'' then
            (case setRaw dev bord cord w of
               (Val (Inl _), w') \<Rightarrow> (Exit 1, w')
             | (Val (Inr _), w') \<Rightarrow> (Val None, w')
             | (Exit k, w') \<Rightarrow> (Exit k, w')
             | (Crash p, w') \<Rightarrow> (Crash p, w'))
          else
            (case setOpts t args of
               Val t' \<Rightarrow> finish t'
             | Exit k \<Rightarrow> (Exit k, w)
             | Crash p \<Rightarrow> (Crash p, w)))"

section \<open>Reading back\<close>

definition exponents :: "nat list" where
  "exponents = [0..<15] @ [0..<8] @ [0..<13] @ [14, 15] @ [6..<12]"

lemma boolFields_powers: "map (b_mask \<circ> snd) boolFields = map (\<lambda>k. 2 ^ k) exponents"
  by code_simp

lemma boolFields_distinct: "distinct (map (\<lambda>(n, b). (b_word b, b_mask b)) boolFields)" "distinct (map fst boolFields)"
  by (simp_all add: boolFields_def fld_def)

lemma exponents_32: "k \<in> set exponents \<Longrightarrow> k < 32"
  by (auto simp: exponents_def)

lemma field_power:
  assumes "(n, b) \<in> set boolFields"
  obtains k where "k < 32" "b_mask b = 2 ^ k"
proof -
  have "b_mask b \<in> set (map (b_mask \<circ> snd) boolFields)" using assms by force
  then show thesis unfolding boolFields_powers using that exponents_32 by auto
qed

lemma opt_of_same:
  assumes "(n, b) \<in> set boolFields"
  shows "opt_of (set_bit_field on b tm) b = on"
proof -
  obtain k where "k < 32" "b_mask b = 2 ^ k" using field_power [OF assms] .
  then show ?thesis
    by (simp add: opt_of_def set_bit_field_def Let_def and_exp_eq_0_iff_not_bit bit_or_iff bit_and_iff bit_not_iff bit_exp_iff)
qed

lemma opt_of_other:
  assumes "(n, b) \<in> set boolFields" and "(m, c) \<in> set boolFields" and "(b_word b, b_mask b) \<noteq> (b_word c, b_mask c)"
  shows "opt_of (set_bit_field on c tm) b = opt_of tm b"
proof -
  obtain k l where "k < 32" "b_mask b = 2 ^ k" "l < 32" "b_mask c = 2 ^ l"
    using field_power [OF assms(1)] field_power [OF assms(2)] by metis
  with assms(3) show ?thesis
    by (auto simp: opt_of_def set_bit_field_def Let_def and_exp_eq_0_iff_not_bit bit_or_iff bit_and_iff bit_not_iff bit_exp_iff)
qed

lemma set_fields_other:
  assumes "set ord \<subseteq> set boolFields" and "(n, b) \<in> set boolFields"
    and "(b_word b, b_mask b) \<notin> (\<lambda>(n, b). (b_word b, b_mask b)) ` set ord"
  shows "opt_of (set_fields ord t tm) b = opt_of tm b"
  using assms
proof (induction ord arbitrary: tm)
  case (Cons x ord)
  then have "opt_of (set_fields ord t (set_bit_field (Opts t (fst x) = Some True) (snd x) tm)) b =
      opt_of (set_bit_field (Opts t (fst x) = Some True) (snd x) tm) b" by (intro Cons.IH) auto
  also have "\<dots> = opt_of tm b" using Cons.prems by (intro opt_of_other [of n _ "fst x"]) (auto simp: case_prod_beta)
  finally show ?case by (simp add: set_fields_def case_prod_beta)
qed (simp add: set_fields_def)

lemma set_fields_opt:
  assumes "set ord \<subseteq> set boolFields" and "distinct (map (\<lambda>(n, b). (b_word b, b_mask b)) ord)" and "(n, b) \<in> set ord"
  shows "opt_of (set_fields ord t tm) b = (Opts t n = Some True)"
  using assms
proof (induction ord arbitrary: tm)
  case (Cons x ord)
  show ?case
  proof (cases "x = (n, b)")
    case True
    with Cons.prems have "opt_of (set_fields ord t (set_bit_field (Opts t n = Some True) b tm)) b =
        opt_of (set_bit_field (Opts t n = Some True) b tm) b"
      by (intro set_fields_other [of _ n]) (auto simp: case_prod_beta)
    with True Cons.prems show ?thesis by (simp add: set_fields_def opt_of_same [of n])
  next
    case False
    with Cons.prems Cons.IH [of "set_bit_field (Opts t (fst x) = Some True) (snd x) tm"] show ?thesis
      by (simp add: set_fields_def case_prod_beta)
  qed
qed simp

lemma set_chars_word [simp]: "t_word (set_chars ord t tm) = t_word tm"
  unfolding set_chars_def by (induction ord arbitrary: tm) auto

lemma set_fields_Cc [simp]: "t_Cc (set_fields ord t tm) = t_Cc tm"
  unfolding set_fields_def by (induction ord arbitrary: tm) (auto simp: set_bit_field_def Let_def)

text \<open>What \<^verbatim>\<open>stty\<close> relies on: a setting that was accepted is read back, and the window size is apart from it.\<close>

locale tty_device =
  fixes dev :: "'w tty_dev"
  assumes get_set: "tiSet dev tm w = (None, w') \<Longrightarrow> tiGet dev w' = Inr tm"
    and size_set: "wsSet dev ws w = (None, w') \<Longrightarrow> tiGet dev w' = tiGet dev w \<and> wsGet dev w' = Inr ws"
begin

lemma stty_reads_back:
  assumes "stty dev bord cord t w = (Inr t', w')"
  obtains tm tm' where "tiGet dev w = Inr tm"
    "tm' = (set_chars cord t (set_fields bord t tm))\<lparr>t_Ispeed := word_of_int (Ispeed t), t_Ospeed := word_of_int (Ospeed t)\<rparr>"
    "Opts t' = map_of (map (\<lambda>(n, b). (n, opt_of tm' b)) boolFields)"
    "Row t' = uint (word_of_int (Row t) :: u16)" "Col t' = uint (word_of_int (Col t) :: u16)"
proof -
  obtain tm w1 where tm: "tiGet dev w = Inr tm" and
    w1: "tiSet dev ((set_chars cord t (set_fields bord t tm))\<lparr>t_Ispeed := word_of_int (Ispeed t), t_Ospeed := word_of_int (Ospeed t)\<rparr>) w = (None, w1)"
    and w': "wsSet dev \<lparr>ws_Row = word_of_int (Row t), ws_Col = word_of_int (Col t)\<rparr> w1 = (None, w')"
    and g: "gtty dev w' = Inr t'"
    using assms by (auto simp: stty_def Let_def split: sum.splits prod.splits option.splits)
  from get_set [OF w1] size_set [OF w'] g that [OF tm refl] show thesis
    by (auto simp: gtty_def)
qed

end

definition plain_tty :: "(termios \<times> winsize) tty_dev" where
  "plain_tty = \<lparr>tiGet = (\<lambda>(tm, _). Inr tm), tiSet = (\<lambda>tm (_, ws). (None, tm, ws)), wsGet = (\<lambda>(_, ws). Inr ws),
     wsSet = (\<lambda>ws (tm, _). (None, tm, ws))\<rparr>"

interpretation plain: tty_device plain_tty
  by unfold_locales (auto simp: plain_tty_def)

lemma map_of_field: "(n, b) \<in> set boolFields \<Longrightarrow> map_of (map (\<lambda>(n, b). (n, f b)) boolFields) n = Some (f b)"
  using boolFields_distinct(2) map_of_map [of f boolFields] by (simp add: comp_def)

lemma order_ok:
  assumes "mset bord = mset boolFields"
  shows "set bord = set boolFields" "distinct (map (\<lambda>(n, b). (b_word b, b_mask b)) bord)"
proof -
  show "set bord = set boolFields" using assms by (rule mset_eq_setD)
  have "mset (map (\<lambda>(n, b). (b_word b, b_mask b)) bord) = mset (map (\<lambda>(n, b). (b_word b, b_mask b)) boolFields)"
    using assms by simp
  then show "distinct (map (\<lambda>(n, b). (b_word b, b_mask b)) bord)" using boolFields_distinct(1) mset_eq_imp_distinct_iff by blast
qed

text \<open>
  C39. The options that \<^verbatim>\<open>stty\<close> sets are the options it reads back: for a terminal that keeps its settings and
  for every order in which the loop over \<^verbatim>\<open>boolFields\<close> runs, the settings returned have each of the 44
  options on exactly if it was asked to be on, and the size of the window modulo \<open>2 ^ 16\<close>.
\<close>

theorem stty_options_roundtrip:
  assumes "tty_device dev" and "mset bord = mset boolFields" and "stty dev bord cord t w = (Inr t', w')"
  shows "(\<forall>(n, b) \<in> set boolFields. Opts t' n = Some (Opts t n = Some True)) \<and>
    Row t' = Row t mod 2 ^ 16 \<and> Col t' = Col t mod 2 ^ 16"
proof -
  obtain tm tm' where tm': "tm' = (set_chars cord t (set_fields bord t tm))\<lparr>t_Ispeed := word_of_int (Ispeed t), t_Ospeed := word_of_int (Ospeed t)\<rparr>"
    and o: "Opts t' = map_of (map (\<lambda>(n, b). (n, opt_of tm' b)) boolFields)"
    and rc: "Row t' = uint (word_of_int (Row t) :: u16)" "Col t' = uint (word_of_int (Col t) :: u16)"
    by (rule tty_device.stty_reads_back [OF assms(1,3)])
  have "Opts t' n = Some (Opts t n = Some True)" if "(n, b) \<in> set boolFields" for n b
  proof -
    have "opt_of tm' b = opt_of (set_fields bord t tm) b" by (simp add: tm' opt_of_def)
    also have "\<dots> = (Opts t n = Some True)" using that order_ok [OF assms(2)] by (intro set_fields_opt) auto
    finally show ?thesis using map_of_field [OF that, of "opt_of tm'"] o by simp
  qed
  with rc show ?thesis by (auto simp: uint_word_of_int)
qed

definition blank_termios :: termios where
  "blank_termios = \<lparr>t_word = (\<lambda>_. 0), t_Cc = replicate 32 0, t_Ispeed = 0, t_Ospeed = 0\<rparr>"

definition echo_only :: tty where
  "echo_only = \<lparr>Ispeed = 0, Ospeed = 0, Row = 24, Col = 80, CC = Map.empty, Opts = [''echo'' \<mapsto> True]\<rparr>"

theorem stty_options_roundtrip_witness:
  "\<exists>t' w'. stty plain_tty (rev boolFields) cc echo_only (blank_termios, \<lparr>ws_Row = 0, ws_Col = 0\<rparr>) = (Inr t', w') \<and>
     Opts t' ''echo'' = Some True \<and> Opts t' ''isig'' = Some False \<and> Row t' = 24"
proof -
  obtain t' w' where s: "stty plain_tty (rev boolFields) cc echo_only (blank_termios, \<lparr>ws_Row = 0, ws_Col = 0\<rparr>) = (Inr t', w')"
    by (simp add: stty_def plain_tty_def gtty_def Let_def)
  from stty_options_roundtrip [OF plain.tty_device_axioms _ s]
  have "\<forall>(n, b) \<in> set boolFields. Opts t' n = Some (Opts echo_only n = Some True)" "Row t' = Row echo_only mod 2 ^ 16"
    by simp_all
  then have "Opts t' ''echo'' = Some True \<and> Opts t' ''isig'' = Some False \<and> Row t' = 24"
    by (simp add: boolFields_def echo_only_def)
  with s show ?thesis by blast
qed

text \<open>
  \<^verbatim>\<open>stty intr\<close> may do nothing: the entry \<^verbatim>\<open>time\<close> of the table has the index of
  \<^verbatim>\<open>intr\<close>, and the one that the loop over the map reaches last wins. For every terminal and every character
  there is an order in which the interrupt character is set and an order in which it keeps its old value.
\<close>

lemma stty_intr_may_be_lost:
  assumes "length (t_Cc tm) = 32" and "0 \<le> v" and "v < 256"
  shows "\<exists>c1 c2. mset c1 = mset cc \<and> mset c2 = mset cc \<and>
    t_Cc (fst (snd (stty_main plain_tty load boolFields c1 [''intr'', Itoa v] (tm, ws)))) ! 0 = word_of_int v \<and>
    t_Cc (fst (snd (stty_main plain_tty load boolFields c2 [''intr'', Itoa v] (tm, ws)))) ! 0 = t_Cc tm ! 0"
proof (intro exI conjI)
  let ?c = "[(''intr'', 0), (''min'', 5), (''time'', 0), (''lnext'', 15), (''quit'', 1), (''erase'', 2), (''kill'', 3),
     (''eof'', 4), (''eol'', 11), (''eol2'', 16), (''start'', 8), (''stop'', 9), (''susp'', 10), (''werase'', 14)]"
  have i: "Atoi (Itoa v) = Inr v" using assms by (intro Atoi_Itoa) auto
  note ev = stty_main_def plain_tty_def gtty_def stty_def Let_def setOpt_def intarg_def i set_chars_def
  show "mset cc = mset cc" ..
  show "mset ?c = mset cc" by (simp add: cc_def)
  show "t_Cc (fst (snd (stty_main plain_tty load boolFields cc [''intr'', Itoa v] (tm, ws)))) ! 0 = word_of_int v"
    using assms(1) by (simp add: ev cc_def)
  show "t_Cc (fst (snd (stty_main plain_tty load boolFields ?c [''intr'', Itoa v] (tm, ws)))) ! 0 = t_Cc tm ! 0"
    using assms(1) by (simp add: ev cc_def)
qed

end
