(* ===== verification/Switch_Root.thy ===== *)
theory Switch_Root
  imports Go_Fs Go_Flag
begin

text \<open>
  The command \<^verbatim>\<open>src/cmds/switch_root/switch_root.go\<close>: deleting the old root, moving the new one over it and
  starting its init. The file system types of \<^verbatim>\<open>statfs\<close> and the program that is started are parameters.
\<close>

section \<open>Deleting the old root\<close>

text \<open>
  The loop of \<^verbatim>\<open>littleDoctor\<close> over the names of a directory. The directory itself is removed after each of its
  entries, as in the source.
\<close>

fun doctor_names ::
    "(string \<Rightarrow> 'w \<Rightarrow> (goerr option res \<times> 'w) option) \<Rightarrow> 'w os_env \<Rightarrow> string \<Rightarrow> string list \<Rightarrow> 'w \<Rightarrow>
     (goerr option res \<times> 'w) option" where
  "doctor_names rec os path [] w = Some (Val None, w)"
| "doctor_names rec os path (fileName # names) w =
     (if fileName = ''.'' \<or> fileName = ''..'' then doctor_names rec os path names w
      else case rec (Join [path, fileName]) w of
             Some (Val None, w') \<Rightarrow>
               (case os_kernel os (Remove path) w' of
                  (Some err, w'') \<Rightarrow> Some (Val (Some err), w'')
                | (None, w'') \<Rightarrow> doctor_names rec os path names w'')
           | r \<Rightarrow> r)"

text \<open>
  \<^verbatim>\<open>littleDoctor\<close>. The depth of the recursion is bounded by fuel, and \<open>None\<close> is a deeper recursion. When
  \<^verbatim>\<open>file.Stat\<close> fails, the nil \<^verbatim>\<open>fileStat\<close> is dereferenced before the error is looked at.
\<close>

fun littleDoctor ::
    "nat \<Rightarrow> 'w os_env \<Rightarrow> (string \<Rightarrow> 'w \<Rightarrow> goerr + int) \<Rightarrow> string \<Rightarrow> int \<Rightarrow> 'w \<Rightarrow> (goerr option res \<times> 'w) option" where
  "littleDoctor 0 os statfs path fsType w = None"
| "littleDoctor (Suc n) os statfs path fsType w =
     (case statfs path w of
        Inl err \<Rightarrow> Some (Val (Some err), w)
      | Inr ty \<Rightarrow>
          if ty \<noteq> fsType then Some (Val None, w)
          else if os_open os path w \<noteq> None then Some (Val (Some (Errorf ''Could not open %s: %v'')), w)
          else (case os_stat os path w of
                  Inl err \<Rightarrow> Some (Crash ''nil pointer dereference'', w)
                | Inr fileStat \<Rightarrow>
                    if is_dir fileStat then
                      (case os_readdir os path w of
                         Inl err \<Rightarrow> Some (Val (Some err), w)
                       | Inr names \<Rightarrow> doctor_names (\<lambda>p. littleDoctor n os statfs p fsType) os path names w)
                    else (case os_kernel os (Remove path) w of (err, w') \<Rightarrow> Some (Val err, w'))))"

section \<open>Switching\<close>

text \<open>A call whose error is wrapped into a message and returned.\<close>

definition or_return :: "'w os_env \<Rightarrow> call \<Rightarrow> string \<Rightarrow> ('w \<Rightarrow> goerr option res \<times> 'w) \<Rightarrow> 'w \<Rightarrow> goerr option res \<times> 'w" where
  "or_return os c msg f w =
     then_do (os_do os c w) (\<lambda>err w'. if err \<noteq> None then (Val (Some (Errorf msg)), w') else f w')"

definition specialFS :: "'w os_env \<Rightarrow> 'w \<Rightarrow> goerr option res \<times> 'w" where
  "specialFS os w =
     (case run_calls (os_kernel os)
         [Mkdir ''/proc'' 0, Mkdir ''/sys'' 0, Mkdir ''/dev'' 0,
          Mount [] ''/proc'' ''proc'' 0 [], Mount [] ''/sys'' ''sysfs'' 0 [], Mount [] ''/dev'' ''devtmpfs'' 0 []] w of
        (Ret _, w') \<Rightarrow> (Val None, w')
      | (Fail err, w') \<Rightarrow> (Val (Some err), w')
      | (Panic p, w') \<Rightarrow> (Crash p, w'))"

definition MS_MOVE :: int where
  "MS_MOVE = 0x2000"

text \<open>The part of \<^verbatim>\<open>SwitchRoot\<close> after the deletion; \<open>run_init\<close> is \<^verbatim>\<open>execCommand\<close>.\<close>

definition enter_root ::
    "'w os_env \<Rightarrow> (string \<Rightarrow> 'w \<Rightarrow> goerr option \<times> 'w) \<Rightarrow> string \<Rightarrow> 'w \<Rightarrow> goerr option res \<times> 'w" where
  "enter_root os run_init init =
     or_return os (Mount ''.'' ''/'' ''ext4'' MS_MOVE []) ''switch_root: fatal mount error %v''
     (or_return os (Chroot ''.'') ''switch_root: fatal chroot error %v''
     (or_return os (Chdir ''/'') ''switch_root: failed change directory to '/' %v''
     (\<lambda>w. then_do (specialFS os w) (\<lambda>err w.
        if err \<noteq> None then (Val (Some (Errorf ''switch_root: failed to create special files %v'')), w)
        else case run_init init w of
               (Some _, w') \<Rightarrow> (Val (Some (Errorf ''switch_root: exec failed %v'')), w')
             | (None, w') \<Rightarrow> (Val None, w')))))"

definition SwitchRoot ::
    "nat \<Rightarrow> 'w os_env \<Rightarrow> (string \<Rightarrow> 'w \<Rightarrow> goerr + int) \<Rightarrow> (string \<Rightarrow> 'w \<Rightarrow> goerr option \<times> 'w) \<Rightarrow> string \<Rightarrow> string \<Rightarrow> 'w \<Rightarrow>
     (goerr option res \<times> 'w) option" where
  "SwitchRoot n os statfs run_init newRoot init w =
     (case os_kernel os (Chdir newRoot) w of
        (Some _, w) \<Rightarrow> Some (Val (Some (Errorf ''switch_root: failed change directory to new_root %v'')), w)
      | (None, w) \<Rightarrow>
          (case statfs ''/'' w of
             Inl _ \<Rightarrow> Some (Val (Some (Errorf ''switch_root: failed statfs %v'')), w)
           | Inr fsType \<Rightarrow>
               map_option (\<lambda>r. then_do r (\<lambda>err w.
                   if err \<noteq> None then (Val (Some (Errorf ''switch_root: failed Deletion of rootfs %v'')), w)
                   else enter_root os run_init init w))
                 (littleDoctor n os statfs ''/'' fsType w)))"

record switch_flags =
  sr_help :: bool
  sr_version :: bool

definition switch_formal :: "switch_flags formal" where
  "switch_formal n =
     (if n = ''h'' then Some (bool_flag (\<lambda>b. sr_help_update (\<lambda>_. b)))
      else if n = ''V'' then Some (bool_flag (\<lambda>b. sr_version_update (\<lambda>_. b)))
      else None)"

text \<open>With one operand \<^verbatim>\<open>flag.Args()[1]\<close> panics.\<close>

definition switch_root_main ::
    "nat \<Rightarrow> 'w os_env \<Rightarrow> (string \<Rightarrow> 'w \<Rightarrow> goerr + int) \<Rightarrow> (string \<Rightarrow> 'w \<Rightarrow> goerr option \<times> 'w) \<Rightarrow> string list \<Rightarrow> 'w \<Rightarrow>
     (unit res \<times> 'w) option" where
  "switch_root_main n os statfs run_init argv w =
     (case Parse switch_formal \<lparr>sr_help = False, sr_version = False\<rparr> argv of
        Inl _ \<Rightarrow> Some (Exit 2, w)
      | Inr (f, args) \<Rightarrow>
          if args = [] \<or> sr_help f then
            Some (Exit 0, snd (os_kernel os (Printf (''switch_root [-h] [-V]'' @ [newline] @ ''switch_root newroot init'') []) w))
          else if sr_version f then Some (Exit 0, snd (os_kernel os (Printf ''Version XX'' []) w))
          else if length args < 2 then Some (Crash ''index out of range'', w)
          else map_option (\<lambda>r. then_do r (\<lambda>err w. (if err = None then Val () else Exit 1, w)))
                 (SwitchRoot n os statfs run_init (args ! 0) (args ! 1) w))"

section \<open>What is deleted\<close>

text \<open>The names that the recursion reaches.\<close>

inductive below :: "string \<Rightarrow> string \<Rightarrow> bool" for root where
  root: "below root root"
| entry: "below root p \<Longrightarrow> name \<noteq> ''.'' \<Longrightarrow> name \<noteq> ''..'' \<Longrightarrow> below root (Join [p, name])"

text \<open>A log of removals below \<open>root\<close> of names on a file system of the type \<open>t\<close>.\<close>

definition removals :: "(string \<Rightarrow> goerr + int) \<Rightarrow> string \<Rightarrow> int \<Rightarrow> call list \<Rightarrow> bool" where
  "removals ty root t cs \<longleftrightarrow> (\<forall>c \<in> set cs. \<exists>p. c = Remove p \<and> below root p \<and> ty p = Inr t)"

lemma removals_append [simp]: "removals ty root t (as @ bs) \<longleftrightarrow> removals ty root t as \<and> removals ty root t bs"
  by (auto simp: removals_def)

lemma removals_simps [simp]:
  "removals ty root t []"
  "removals ty root t (Remove p # cs) \<longleftrightarrow> below root p \<and> ty p = Inr t \<and> removals ty root t cs"
  by (auto simp: removals_def)

lemma doctor_names_removals:
  assumes "os_kernel os = log_kernel bad" and "below root path" and "ty path = Inr t"
    and "\<And>p w r w'. below root p \<Longrightarrow> rec p w = Some (r, w') \<Longrightarrow> \<exists>cs. w' = w @ cs \<and> removals ty root t cs"
    and "doctor_names rec os path names w = Some (r, w')"
  shows "\<exists>cs. w' = w @ cs \<and> removals ty root t cs"
  using assms(5)
proof (induction names arbitrary: w)
  case (Cons name names)
  show ?case
  proof (cases "name = ''.'' \<or> name = ''..''")
    case False
    then have b: "below root (Join [path, name])" using assms(2) by (auto intro: below.entry)
    from False Cons.prems obtain r1 w1 where r1: "rec (Join [path, name]) w = Some (r1, w1)"
      by (auto split: option.splits)
    then obtain cs1 where cs1: "w1 = w @ cs1" "removals ty root t cs1" using assms(4) [OF b] by blast
    show ?thesis
    proof (cases "r1 = Val None")
      case True
      show ?thesis
      proof (cases "Remove path \<in> bad")
        case bad: True
        with False Cons.prems r1 True assms(1-3) cs1 show ?thesis
          by (auto simp: log_kernel_def intro!: exI [of _ "cs1 @ [Remove path]"])
      next
        case ok: False
        with False Cons.prems r1 True assms(1)
        have "doctor_names rec os path names (w1 @ [Remove path]) = Some (r, w')" by (simp add: log_kernel_def)
        from Cons.IH [OF this] obtain cs where "w' = (w1 @ [Remove path]) @ cs" "removals ty root t cs" by blast
        with cs1 assms(2,3) show ?thesis by (auto intro!: exI [of _ "cs1 @ [Remove path] @ cs"])
      qed
    next
      case ne: False
      with False Cons.prems r1 have "w' = w1" by (auto split: res.splits option.splits)
      with cs1 show ?thesis by blast
    qed
  qed (use Cons in auto)
qed simp

lemma littleDoctor_removals:
  assumes "os_kernel os = log_kernel bad" and "below root path"
    and "littleDoctor n os (\<lambda>p _. ty p) path t w = Some (r, w')"
  shows "\<exists>cs. w' = w @ cs \<and> removals ty root t cs"
  using assms(2,3)
proof (induction n arbitrary: path w r w')
  case (Suc n)
  show ?case
  proof (cases "ty path = Inr t \<and> os_open os path w = None \<and> (\<exists>st. os_stat os path w = Inr st)")
    case True
    then obtain st where st: "os_stat os path w = Inr st" by blast
    show ?thesis
    proof (cases "is_dir st \<and> (\<exists>names. os_readdir os path w = Inr names)")
      case dir: True
      then obtain names where "os_readdir os path w = Inr names" by blast
      with Suc.prems True st dir
      have "doctor_names (\<lambda>p. littleDoctor n os (\<lambda>p _. ty p) p t) os path names w = Some (r, w')" by simp
      then show ?thesis
        using True by (intro doctor_names_removals [OF assms(1) Suc.prems(1) _ Suc.IH]) simp_all
    next
      case False
      with Suc.prems True st assms(1) show ?thesis
        by (auto simp: log_kernel_def split: if_splits sum.splits)
    qed
  next
    case False
    with Suc.prems show ?thesis by (auto split: if_splits sum.splits)
  qed
qed simp

text \<open>A small root: a directory of the running system and the mount point of the new one.\<close>

definition small_stat :: "bool \<Rightarrow> Stat_t" where
  "small_stat d = \<lparr>st_Dev = 1, st_Ino = 1, st_Nlink = 1, st_Mode = (if d then 0x41ED else 0x81A4), st_Uid = 0,
     st_Gid = 0, st_Rdev = 0, st_Size = 0, st_Mtim = 0\<rparr>"

definition small_root :: "call list os_env" where
  "small_root =
     (let stat = (\<lambda>p (w :: call list). Inr (small_stat (p \<in> {''/'', ''/bin'', ''/new''})))
      in \<lparr>os_kernel = log_kernel {Remove ''/''}, os_stat = stat, os_lstat = stat,
          os_readlink = (\<lambda>_ _. Inl (Errno ''EINVAL'')),
          os_readdir = (\<lambda>p _. Inr (if p = ''/'' then [''bin'', ''new''] else if p = ''/bin'' then [''sh''] else [])),
          os_open = (\<lambda>_ _. None), os_read = (\<lambda>_ _. Inr []), os_getwd = (\<lambda>_. Inr ''/''),
          os_input = (\<lambda>w. (Inl EOF, w))\<rparr>)"

lemma is_dir_small_stat [simp]: "is_dir (small_stat True)" "\<not> is_dir (small_stat False)"
  by code_simp+

lemma small_root_sel [simp]:
  "os_kernel small_root = log_kernel {Remove ''/''}" "os_open small_root p w = None"
  "os_stat small_root p w = Inr (small_stat (p \<in> {''/'', ''/bin'', ''/new''}))"
  "os_readdir small_root p w = Inr (if p = ''/'' then [''bin'', ''new''] else if p = ''/bin'' then [''sh''] else [])"
  by (simp_all add: small_root_def Let_def)

definition small_types :: "string \<Rightarrow> goerr + int" where
  "small_types p = Inr (if take 4 p = ''/new'' then 0xEF53 else 0x01021994)"

text \<open>
  C36. \<^verbatim>\<open>littleDoctor\<close> removes nothing but names below the root it is given, and of these only such whose
  file system has the type of that root: a new root on a file system of another type survives, whatever the
  directories contain and whichever removals fail.
\<close>

theorem littleDoctor_spares_other_types:
  assumes "os_kernel os = log_kernel bad"
    and "littleDoctor n os (\<lambda>p _. ty p) root t [] = Some (r, cs)"
  shows "\<forall>c \<in> set cs. \<exists>p. c = Remove p \<and> below root p \<and> ty p = Inr t"
  using littleDoctor_removals [OF assms(1) below.root assms(2)] by (auto simp: removals_def)

lemma small_doctor:
  "littleDoctor 3 small_root (\<lambda>p _. small_types p) ''/'' 0x01021994 [] =
     Some (Val (Some (Errno ''EIO'')), [Remove ''/bin/sh'', Remove ''/bin'', Remove ''/''])"
  by code_simp

theorem littleDoctor_spares_other_types_witness:
  "list_all (\<lambda>c. \<exists>p. c = Remove p \<and> below ''/'' p \<and> small_types p = Inr 0x01021994) [Remove ''/bin/sh'', Remove ''/bin'', Remove ''/'']"
  unfolding list_all_iff
  by (rule littleDoctor_spares_other_types [OF _ small_doctor]) simp

section \<open>Enough fuel\<close>

text \<open>The directories of the type \<open>t\<close> below \<open>path\<close> that the deletion enters are nested in less than \<open>n\<close> levels.\<close>

fun doctor_within :: "nat \<Rightarrow> 'w os_env \<Rightarrow> (string \<Rightarrow> goerr + int) \<Rightarrow> int \<Rightarrow> string \<Rightarrow> bool" where
  "doctor_within 0 os ty t path = False"
| "doctor_within (Suc n) os ty t path =
     (\<forall>w st names. ty path = Inr t \<longrightarrow> os_stat os path w = Inr st \<longrightarrow> is_dir st \<longrightarrow> os_readdir os path w = Inr names \<longrightarrow>
        (\<forall>name \<in> set names. name \<noteq> ''.'' \<longrightarrow> name \<noteq> ''..'' \<longrightarrow> doctor_within n os ty t (Join [path, name])))"

text \<open>How a deletion ends: with or without an error, or with the panic.\<close>

definition doctor_ends :: "goerr option res \<Rightarrow> bool" where
  "doctor_ends r \<longleftrightarrow> (\<exists>err. r = Val err) \<or> r = Crash ''nil pointer dereference''"

lemma doctor_names_total:
  assumes "\<And>name w. name \<in> set names \<Longrightarrow> name \<noteq> ''.'' \<Longrightarrow> name \<noteq> ''..'' \<Longrightarrow>
    \<exists>r w'. rec (Join [path, name]) w = Some (r, w') \<and> doctor_ends r"
  shows "\<exists>r w'. doctor_names rec os path names w = Some (r, w') \<and> doctor_ends r"
  using assms
proof (induction names arbitrary: w)
  case (Cons name names)
  have IH: "\<exists>r w'. doctor_names rec os path names v = Some (r, w') \<and> doctor_ends r" for v
    by (rule Cons.IH, rule Cons.prems) simp_all
  show ?case
  proof (cases "name = ''.'' \<or> name = ''..''")
    case False
    then obtain r w' where r: "rec (Join [path, name]) w = Some (r, w')" "doctor_ends r"
      using Cons.prems [of name w] by auto
    obtain err w'' where k: "os_kernel os (Remove path) w' = (err, w'')" by fastforce
    show ?thesis
      using False r k IH [of w''] by (cases "r = Val None"; cases err) (auto simp: doctor_ends_def split: option.splits)
  qed (use IH in simp)
qed (simp add: doctor_ends_def)

lemma littleDoctor_total:
  "doctor_within n os ty t path \<Longrightarrow> \<exists>r w'. littleDoctor n os (\<lambda>p _. ty p) path t w = Some (r, w') \<and> doctor_ends r"
proof (induction n arbitrary: path w)
  case (Suc n)
  show ?case
  proof (cases "\<exists>st names. ty path = Inr t \<and> os_open os path w = None \<and> os_stat os path w = Inr st \<and> is_dir st \<and> os_readdir os path w = Inr names")
    case True
    then obtain st names where d: "ty path = Inr t" "os_open os path w = None" "os_stat os path w = Inr st" "is_dir st"
      "os_readdir os path w = Inr names" by blast
    have "\<exists>r w'. doctor_names (\<lambda>p. littleDoctor n os (\<lambda>p _. ty p) p t) os path names w = Some (r, w') \<and> doctor_ends r"
      by (rule doctor_names_total, rule Suc.IH) (use Suc.prems d in auto)
    with d show ?thesis by simp
  next
    case False
    then show ?thesis by (auto simp: doctor_ends_def split: sum.split prod.split)
  qed
qed simp

section \<open>What is deleted for certain\<close>

text \<open>
  The removals, in order, for a name that holds just one file: the file, or the directory after the only entry in it.
\<close>

inductive only_file :: "'w os_env \<Rightarrow> (string \<Rightarrow> goerr + int) \<Rightarrow> int \<Rightarrow> string \<Rightarrow> string list \<Rightarrow> bool" for os ty t where
  only_file_leaf:
    "ty p = Inr t \<Longrightarrow> \<forall>w. os_open os p w = None \<and> os_stat os p w = Inr st \<Longrightarrow> \<not> is_dir st \<Longrightarrow> only_file os ty t p [p]"
| only_file_dir:
    "ty p = Inr t \<Longrightarrow> \<forall>w. os_open os p w = None \<and> os_stat os p w = Inr st \<and> os_readdir os p w = Inr [name] \<Longrightarrow> is_dir st \<Longrightarrow>
     name \<noteq> ''.'' \<Longrightarrow> name \<noteq> ''..'' \<Longrightarrow> only_file os ty t (Join [p, name]) ps \<Longrightarrow> only_file os ty t p (ps @ [p])"

lemma littleDoctor_only_file:
  assumes "os_kernel os = log_kernel bad" and "only_file os ty t p ps" and "doctor_within n os ty t p"
    and "list_all (\<lambda>q. Remove q \<notin> bad) ps"
  shows "littleDoctor n os (\<lambda>p _. ty p) p t w = Some (Val None, w @ map Remove ps)"
  using assms(2-4)
proof (induction arbitrary: n w rule: only_file.induct)
  case (only_file_leaf p st)
  then show ?case using assms(1) by (cases n) (auto simp: log_kernel_def)
next
  case (only_file_dir p st name ps)
  then obtain m where n: "n = Suc m" by (cases n) auto
  have "doctor_within m os ty t (Join [p, name])" using only_file_dir.prems(1) only_file_dir.hyps(1-5) by (auto simp: n)
  with only_file_dir have "littleDoctor m os (\<lambda>p _. ty p) (Join [p, name]) t v = Some (Val None, v @ map Remove ps)" for v
    by simp
  with only_file_dir.hyps(1-5) only_file_dir.prems(2) assms(1) show ?case by (simp add: n log_kernel_def)
qed

section \<open>switch_root fails\<close>

lemma doctor_names_first:
  assumes "dropWhile (\<lambda>name. name = ''.'' \<or> name = ''..'') names = name # rest"
  shows "doctor_names rec os path names w =
    (case rec (Join [path, name]) w of
       Some (Val None, w') \<Rightarrow>
         (case os_kernel os (Remove path) w' of
            (Some err, w'') \<Rightarrow> Some (Val (Some err), w'')
          | (None, w'') \<Rightarrow> doctor_names rec os path rest w'')
     | r \<Rightarrow> r)"
  using assms by (induction names) (auto split: if_splits)

text \<open>The deletion of a root that cannot be removed: what the deletion of its first entry does, and then the error.\<close>

lemma littleDoctor_root:
  assumes "os_kernel os = log_kernel bad" and "Remove path \<in> bad" and "ty path = Inr t" and "os_open os path w = None"
    and "os_stat os path w = Inr st" "is_dir st" and "os_readdir os path w = Inr names"
    and "dropWhile (\<lambda>name. name = ''.'' \<or> name = ''..'') names = name # rest"
    and "littleDoctor n os (\<lambda>p _. ty p) (Join [path, name]) t w = Some (r, w')"
  shows "littleDoctor (Suc n) os (\<lambda>p _. ty p) path t w =
    Some (if r = Val None then (Val (Some (Errno ''EIO'')), w' @ [Remove path]) else (r, w'))"
  using assms by (auto simp: doctor_names_first log_kernel_def split: res.split option.split)

text \<open>
  C37. \<^verbatim>\<open>switch_root\<close> never switches. The kernel refuses to remove the root directory, and
  \<^verbatim>\<open>littleDoctor\<close> tries that after the first entry of the root. So when the new root can be entered and the
  root can be listed, has an entry and is not deeper than the fuel, the command ends: with the error that the deletion failed (or with the
  panic of a failed \<^verbatim>\<open>Stat\<close>), after removing nothing but names of the old root's file system type, and without
  mounting anything or starting init. When the first entry is a file, or a directory that holds nothing but one file,
  possibly in further directories, and its removals succeed, then these are removed, the removal of the root is tried, and that is all.
\<close>

theorem switch_root_never_switches:
  assumes "os_kernel os = log_kernel bad" and "Remove ''/'' \<in> bad" and "Chdir newRoot \<notin> bad"
    and "ty ''/'' = Inr t" and "os_open os ''/'' [Chdir newRoot] = None"
    and "os_stat os ''/'' [Chdir newRoot] = Inr st" and "is_dir st" and "os_readdir os ''/'' [Chdir newRoot] = Inr names"
    and "dropWhile (\<lambda>name. name = ''.'' \<or> name = ''..'') names = name # rest"
    and "doctor_within n os ty t (Join [''/'', name])"
  shows "\<exists>r cs. SwitchRoot (Suc n) os (\<lambda>p _. ty p) run_init newRoot init [] = Some (r, Chdir newRoot # cs) \<and>
    (r = Val (Some (Errorf ''switch_root: failed Deletion of rootfs %v'')) \<or> r = Crash ''nil pointer dereference'') \<and>
    removals ty ''/'' t cs \<and>
    (\<forall>ps. only_file os ty t (Join [''/'', name]) ps \<longrightarrow> list_all (\<lambda>q. Remove q \<notin> bad) ps \<longrightarrow>
      r = Val (Some (Errorf ''switch_root: failed Deletion of rootfs %v'')) \<and> cs = map Remove (ps @ [''/'']))"
proof -
  obtain r1 w1 where e: "littleDoctor n os (\<lambda>p _. ty p) (Join [''/'', name]) t [Chdir newRoot] = Some (r1, w1)"
    and r1: "doctor_ends r1" using littleDoctor_total [OF assms(10)] by blast
  note d = littleDoctor_root [OF assms(1,2,4-9) e]
  obtain cs where cs: "(if r1 = Val None then w1 @ [Remove ''/''] else w1) = [Chdir newRoot] @ cs" "removals ty ''/'' t cs"
    using littleDoctor_removals [OF assms(1) below.root, of "Suc n" ty "''/''" t "[Chdir newRoot]"] d by (auto split: if_splits)
  define r where "r = (case r1 of Val _ \<Rightarrow> Val (Some (Errorf ''switch_root: failed Deletion of rootfs %v'')) | _ \<Rightarrow> r1)"
  have s: "SwitchRoot (Suc n) os (\<lambda>p _. ty p) run_init newRoot init [] = Some (r, Chdir newRoot # cs)"
    using assms(1,3,4) d cs(1) r1 by (auto simp: SwitchRoot_def log_kernel_def r_def doctor_ends_def split: if_splits)
  have "r = Val (Some (Errorf ''switch_root: failed Deletion of rootfs %v'')) \<and> cs = map Remove (ps @ [''/''])"
    if "only_file os ty t (Join [''/'', name]) ps" "list_all (\<lambda>q. Remove q \<notin> bad) ps" for ps
    using littleDoctor_only_file [OF assms(1) that(1) assms(10) that(2), of "[Chdir newRoot]"] e cs(1) by (simp add: r_def)
  with s cs(2) r1 show ?thesis by (auto simp: r_def doctor_ends_def)
qed

lemma small_Join: "Join [''/'', ''bin''] = ''/bin''" "Join [''/bin'', ''sh''] = ''/bin/sh''"
  by code_simp+

lemma small_root_within: "doctor_within 2 small_root small_types 0x01021994 ''/bin''"
  by (simp add: numeral_2_eq_2 small_Join)

lemma small_root_chain: "only_file small_root small_types 0x01021994 ''/bin'' ([''/bin/sh''] @ [''/bin''])"
proof (rule only_file_dir [where name = "''sh''" and st = "small_stat True"])
  show "only_file small_root small_types 0x01021994 (Join [''/bin'', ''sh'']) [''/bin/sh'']"
    unfolding small_Join by (rule only_file_leaf [where st = "small_stat False"]) (simp_all add: small_types_def)
qed (simp_all add: small_types_def)

theorem switch_root_never_switches_witness:
  "SwitchRoot (Suc 2) small_root (\<lambda>p _. small_types p) (\<lambda>_ w. (None, w)) ''/new'' ''/sbin/init'' [] =
     Some (Val (Some (Errorf ''switch_root: failed Deletion of rootfs %v'')),
       [Chdir ''/new'', Remove ''/bin/sh'', Remove ''/bin'', Remove ''/''])"
proof -
  have "doctor_within 2 small_root small_types 0x01021994 (Join [''/'', ''bin''])"
    using small_root_within by (simp only: small_Join)
  from switch_root_never_switches [of small_root "{Remove ''/''}" "''/new''" small_types, OF _ _ _ _ _ _ _ _ _ this,
      of "small_stat True" "[''bin'', ''new'']" "[''new'']" "\<lambda>_ w. (None, w)" "''/sbin/init''"] small_root_chain
  show ?thesis unfolding small_Join by (force simp: small_types_def)
qed

end
