(* ===== verification/Vboot.thy ===== *)
theory Vboot
  imports Go_Fs Go_Flag
begin

text \<open>
  The verified boot \<^verbatim>\<open>src/cmds/vboot/vboot.go\<close>: read kernel, initrd and signatures from the boot device, verify,
  measure into the TPM and hand over to \<^verbatim>\<open>kexec\<close>. The hash functions, the signature scheme, the TPM and the
  system calls that end the process are parameters.
\<close>

record vboot_flags =
  publicKey :: string
  pcr :: nat
  bootDev :: string
  linuxKernel :: string
  linuxKernelSignature :: string
  initrd :: string
  initrdSignature :: string
  vdebug :: bool
  noTPM :: bool

definition vboot_defaults :: vboot_flags where
  "vboot_defaults = \<lparr>publicKey = ''/etc/sig.pub'', pcr = 12, bootDev = ''/dev/sda1'', linuxKernel = ''/mnt/vboot/kernel'',
     linuxKernelSignature = ''/mnt/vboot/kernel.sig'', initrd = ''/mnt/vboot/initrd'',
     initrdSignature = ''/mnt/vboot/initrd.sig'', vdebug = False, noTPM = False\<rparr>"

definition vboot_formal :: "vboot_flags formal" where
  "vboot_formal n =
     (if n = ''pubkey'' then Some (string_flag (\<lambda>v. publicKey_update (\<lambda>_. v)))
      else if n = ''pcr'' then Some (False, \<lambda>v f. map_sum id (\<lambda>i. f\<lparr>pcr := i\<rparr>) (ParseUint0 64 v))
      else if n = ''boot-device'' then Some (string_flag (\<lambda>v. bootDev_update (\<lambda>_. v)))
      else if n = ''kernel'' then Some (string_flag (\<lambda>v. linuxKernel_update (\<lambda>_. v)))
      else if n = ''kernel-sig'' then Some (string_flag (\<lambda>v. linuxKernelSignature_update (\<lambda>_. v)))
      else if n = ''initrd'' then Some (string_flag (\<lambda>v. initrd_update (\<lambda>_. v)))
      else if n = ''initrd-sig'' then Some (string_flag (\<lambda>v. initrdSignature_update (\<lambda>_. v)))
      else if n = ''debug'' then Some (bool_flag (\<lambda>b. vdebug_update (\<lambda>_. b)))
      else if n = ''no-tpm'' then Some (bool_flag (\<lambda>b. noTPM_update (\<lambda>_. b)))
      else None)"

text \<open>
  \<open>reboot\<close> is \<^verbatim>\<open>syscall.Reboot(LINUX_REBOOT_CMD_POWER_OFF)\<close>, with \<open>None\<close> for a call that does not
  return; \<open>execve\<close> is \<^verbatim>\<open>syscall.Exec\<close>, with \<open>None\<close> for a process that has been replaced. \<open>Verify\<close> is
  \<^verbatim>\<open>ed25519.Verify\<close>, with \<open>None\<close> for the panic on a public key of the wrong size. The boolean of \<open>PcrExtend\<close>
  says whether the TPM was opened.
\<close>

record 'w vboot_env =
  vos :: "'w os_env"
  reboot :: "'w \<Rightarrow> goerr option option \<times> 'w"
  Sum256 :: "bytes \<Rightarrow> bytes"
  Sum1 :: "bytes \<Rightarrow> bytes"
  Verify :: "bytes \<Rightarrow> bytes \<Rightarrow> bytes \<Rightarrow> bool option"
  OpenTPM :: "'w \<Rightarrow> goerr option \<times> 'w"
  PcrExtend :: "bool \<Rightarrow> u32 \<Rightarrow> bytes \<Rightarrow> 'w \<Rightarrow> 'w"
  LookPath :: "'w \<Rightarrow> goerr + string"
  execve :: "string \<Rightarrow> string list \<Rightarrow> 'w \<Rightarrow> goerr option \<times> 'w"

text \<open>\<^verbatim>\<open>die\<close> returns to its caller only when the reboot call returns without an error.\<close>

definition die :: "'w vboot_env \<Rightarrow> vboot_flags \<Rightarrow> 'w \<Rightarrow> unit res \<times> 'w" where
  "die e f w =
     (if vdebug f then (Crash ''panic'', w)
      else case reboot e w of
             (None, w') \<Rightarrow> (Exit 0, w')
           | (Some (Some _), w') \<Rightarrow> (Exit 1, w')
           | (Some None, w') \<Rightarrow> (Val (), w'))"

definition die_on :: "'w vboot_env \<Rightarrow> vboot_flags \<Rightarrow> bool \<Rightarrow> 'w \<Rightarrow> unit res \<times> 'w" where
  "die_on e f bad w = (if bad then die e f w else (Val (), w))"

fun read_files ::
    "'w vboot_env \<Rightarrow> vboot_flags \<Rightarrow> string list \<Rightarrow> (string \<Rightarrow> bytes option) \<Rightarrow> 'w \<Rightarrow> (string \<Rightarrow> bytes option) res \<times> 'w" where
  "read_files e f [] files w = (Val files, w)"
| "read_files e f (p # ps) files w =
     (case os_read (vos e) p w of
        Inl _ \<Rightarrow> then_do (die e f w) (\<lambda>_ w. read_files e f ps files w)
      | Inr data \<Rightarrow> read_files e f ps (files(p \<mapsto> data)) w)"

definition content :: "(string \<Rightarrow> bytes option) \<Rightarrow> string \<Rightarrow> bytes" where
  "content files p = (case files p of None \<Rightarrow> [] | Some b \<Rightarrow> b)"

definition measure_files :: "'w vboot_env \<Rightarrow> vboot_flags \<Rightarrow> (string \<Rightarrow> bytes option) \<Rightarrow> 'w \<Rightarrow> unit res \<times> 'w" where
  "measure_files e f files w =
     (if noTPM f then (Val (), w)
      else case OpenTPM e w of (err, w) \<Rightarrow>
        then_do (die_on e f (err \<noteq> None) w) (\<lambda>_ w.
          (Val (), PcrExtend e (err = None) (of_nat (pcr f)) (Sum1 e (content files (initrd f)))
                     (PcrExtend e (err = None) (of_nat (pcr f)) (Sum1 e (content files (linuxKernel f))) w))))"

text \<open>The initrd is verified against the signature of the kernel, as in the source.\<close>

definition verify_files :: "'w vboot_env \<Rightarrow> vboot_flags \<Rightarrow> (string \<Rightarrow> bytes option) \<Rightarrow> 'w \<Rightarrow> unit res \<times> 'w" where
  "verify_files e f files w =
     (let pub = content files (publicKey f);
          kernelDigest = Sum256 e (content files (linuxKernel f));
          initrdDigest = Sum256 e (content files (initrd f))
      in case (Verify e pub kernelDigest (content files (linuxKernelSignature f)),
               Verify e pub initrdDigest (content files (linuxKernelSignature f))) of
           (Some kernelSuccess, Some initrdSuccess) \<Rightarrow> die_on e f (\<not> kernelSuccess \<or> \<not> initrdSuccess) w
         | _ \<Rightarrow> (Crash ''ed25519: bad public key length'', w))"

text \<open>\<open>Val True\<close>: the process has become \<^verbatim>\<open>kexec\<close>. When \<^verbatim>\<open>die\<close> returns, the run goes on.\<close>

definition boot :: "'w vboot_env \<Rightarrow> vboot_flags \<Rightarrow> 'w \<Rightarrow> bool res \<times> 'w" where
  "boot e f w =
     (case (case LookPath e w of Inl _ \<Rightarrow> ([], True) | Inr b \<Rightarrow> (b, False)) of (binary, lookErr) \<Rightarrow>
        then_do (die_on e f lookErr w) (\<lambda>_ w.
          case execve e binary [''kexec'', ''-initrd'', initrd f, linuxKernel f] w of
            (None, w) \<Rightarrow> (Val True, w)
          | (Some _, w) \<Rightarrow> then_do (die e f w) (\<lambda>_ w. (Val False, w))))"

definition vboot_files :: "vboot_flags \<Rightarrow> string list" where
  "vboot_files f = [publicKey f, linuxKernel f, linuxKernelSignature f, initrd f, initrdSignature f]"

definition vboot_main :: "'w vboot_env \<Rightarrow> string list \<Rightarrow> 'w \<Rightarrow> bool res \<times> 'w" where
  "vboot_main e argv w =
     (case Parse vboot_formal vboot_defaults argv of
        Inl _ \<Rightarrow> (Exit 2, w)
      | Inr (f, _) \<Rightarrow>
          then_do (os_do (vos e) (MkdirAll ''/mnt/vboot'' 0x1FF) w) (\<lambda>err w.
          then_do (die_on e f (err \<noteq> None) w) (\<lambda>_ w.
          then_do (os_do (vos e) (Mount (bootDev f) ''/mnt/vboot'' ''ext3'' 1 []) w) (\<lambda>err w.
          then_do (die_on e f (err \<noteq> None) w) (\<lambda>_ w.
          then_do (read_files e f (vboot_files f) Map.empty w) (\<lambda>files w.
          then_do (verify_files e f files w) (\<lambda>_ w.
          then_do (measure_files e f files w) (\<lambda>_ w. boot e f w))))))))"

section \<open>What boots\<close>

lemma die_on_Val:
  assumes "\<And>w w'. reboot e w \<noteq> (Some None, w')"
  shows "die_on e f bad w = (Val (), w') \<longleftrightarrow> \<not> bad \<and> w' = w"
  using assms [of w] by (auto simp: die_on_def die_def split: prod.splits option.splits)

lemma read_files_Val:
  assumes "\<And>w w'. reboot e w \<noteq> (Some None, w')" and "read_files e f ps files w = (Val files', w')"
  shows "w' = w \<and> (\<forall>p. files' p = (if p \<in> set ps then (case os_read (vos e) p w of Inr b \<Rightarrow> Some b | Inl _ \<Rightarrow> None) else files p)) \<and>
    (\<forall>p \<in> set ps. \<exists>b. os_read (vos e) p w = Inr b)"
  using assms(2)
proof (induction ps arbitrary: files)
  case (Cons p ps)
  show ?case
  proof (cases "os_read (vos e) p w")
    case (Inl err)
    with Cons.prems die_on_Val [OF assms(1), of f True w] show ?thesis by (auto simp: then_do_Val_iff die_on_def)
  next
    case (Inr b)
    with Cons.prems have "read_files e f ps (files(p \<mapsto> b)) w = (Val files', w')" by simp
    from Cons.IH [OF this] Inr show ?thesis by auto
  qed
qed simp

lemma boot_execs:
  assumes "boot e f w = (Val True, w')"
  shows "\<exists>binary w1. execve e binary [''kexec'', ''-initrd'', initrd f, linuxKernel f] w1 = (None, w')"
proof -
  from assms obtain binary w1 where
    "(case execve e binary [''kexec'', ''-initrd'', initrd f, linuxKernel f] w1 of
        (None, w) \<Rightarrow> (Val True, w) | (Some _, w) \<Rightarrow> then_do (die e f w) (\<lambda>_ w. (Val False, w))) = (Val True, w')"
    unfolding boot_def then_do_Val_iff prod.case by (cases "LookPath e w") (auto simp: then_do_Val_iff)
  then show ?thesis
    by (cases "execve e binary [''kexec'', ''-initrd'', initrd f, linuxKernel f] w1")
      (auto simp: then_do_Val_iff split: option.splits)
qed

text \<open>
  C34. \<^verbatim>\<open>vboot\<close> hands over to \<^verbatim>\<open>kexec\<close> only after a complete check. Provided the power-off call never
  returns without an error, a run that ends by executing \<^verbatim>\<open>kexec\<close> has made the mount point, mounted the boot
  device and read all five files, the digests of the kernel and of the initrd both verify under the public key -- both
  against the signature of the kernel -- and it executes \<^verbatim>\<open>kexec\<close> on the paths of that kernel and that initrd.
\<close>

theorem vboot_boots_verified:
  assumes "\<And>w w'. reboot e w \<noteq> (Some None, w')"
    and "Parse vboot_formal vboot_defaults argv = Inr (f, rest)"
    and "vboot_main e argv w = (Val True, w')"
  shows "\<exists>w1 w2 w3 pub k ks i isig binary. os_kernel (vos e) (MkdirAll ''/mnt/vboot'' 0x1FF) w = (None, w1) \<and>
    os_kernel (vos e) (Mount (bootDev f) ''/mnt/vboot'' ''ext3'' 1 []) w1 = (None, w2) \<and>
    os_read (vos e) (publicKey f) w2 = Inr pub \<and> os_read (vos e) (linuxKernel f) w2 = Inr k \<and>
    os_read (vos e) (linuxKernelSignature f) w2 = Inr ks \<and> os_read (vos e) (initrd f) w2 = Inr i \<and>
    os_read (vos e) (initrdSignature f) w2 = Inr isig \<and>
    Verify e pub (Sum256 e k) ks = Some True \<and> Verify e pub (Sum256 e i) ks = Some True \<and>
    execve e binary [''kexec'', ''-initrd'', initrd f, linuxKernel f] w3 = (None, w')"
proof -
  obtain w1 w2 files w3 w4 where mk: "os_kernel (vos e) (MkdirAll ''/mnt/vboot'' 0x1FF) w = (None, w1)"
    and m: "os_kernel (vos e) (Mount (bootDev f) ''/mnt/vboot'' ''ext3'' 1 []) w1 = (None, w2)"
    and r: "read_files e f (vboot_files f) Map.empty w2 = (Val files, w2)" and v: "verify_files e f files w2 = (Val (), w3)"
    and b: "boot e f w4 = (Val True, w')"
    using assms(2,3) read_files_Val [OF assms(1)]
    by (fastforce simp: vboot_main_def then_do_Val_iff die_on_Val [OF assms(1)] os_do_def split: prod.splits)
  from read_files_Val [OF assms(1) r] have f: "\<forall>p \<in> set (vboot_files f). \<exists>b. os_read (vos e) p w2 = Inr b \<and> files p = Some b"
    by auto
  then obtain pub k ks i isig where c: "files (publicKey f) = Some pub" "files (linuxKernel f) = Some k"
      "files (linuxKernelSignature f) = Some ks" "files (initrd f) = Some i"
    and o: "os_read (vos e) (publicKey f) w2 = Inr pub" "os_read (vos e) (linuxKernel f) w2 = Inr k"
      "os_read (vos e) (linuxKernelSignature f) w2 = Inr ks" "os_read (vos e) (initrd f) w2 = Inr i"
      "os_read (vos e) (initrdSignature f) w2 = Inr isig"
    by (auto simp: vboot_files_def)
  from v c have "Verify e pub (Sum256 e k) ks = Some True \<and> Verify e pub (Sum256 e i) ks = Some True"
    by (auto simp: verify_files_def content_def die_on_Val [OF assms(1)] split: option.splits)
  with mk m o boot_execs [OF b] show ?thesis by blast
qed

definition one_disk :: "(string \<times> bytes) list \<Rightarrow> call list os_env" where
  "one_disk disk =
     \<lparr>os_kernel = log_kernel {}, os_stat = (\<lambda>_ _. Inl (Errno ''ENOENT'')), os_lstat = (\<lambda>_ _. Inl (Errno ''ENOENT'')),
      os_readlink = (\<lambda>_ _. Inl (Errno ''EINVAL'')), os_readdir = (\<lambda>_ _. Inr []), os_open = (\<lambda>_ _. None),
      os_read = (\<lambda>p _. case map_of disk p of None \<Rightarrow> Inl (Errno ''ENOENT'') | Some b \<Rightarrow> Inr b),
      os_getwd = (\<lambda>_. Inr ''/''), os_input = (\<lambda>w. (Inl EOF, w))\<rparr>"

definition one_boot :: "bytes \<Rightarrow> call list vboot_env" where
  "one_boot isig =
     \<lparr>vos = one_disk [(''/etc/sig.pub'', ''k''), (''/mnt/vboot/kernel'', ''image''), (''/mnt/vboot/kernel.sig'', ''kimage''),
        (''/mnt/vboot/initrd'', ''image''), (''/mnt/vboot/initrd.sig'', isig)],
      reboot = (\<lambda>w. (None, w)), Sum256 = id, Sum1 = id, Verify = (\<lambda>p d s. Some (s = p @ d)),
      OpenTPM = (\<lambda>w. (None, w)), PcrExtend = (\<lambda>_ _ _ w. w), LookPath = (\<lambda>_. Inr ''/bbin/kexec''),
      execve = (\<lambda>_ _ w. (None, w))\<rparr>"

lemma one_boot_runs:
  "vboot_main (one_boot []) [] [] = (Val True, [MkdirAll ''/mnt/vboot'' 0x1FF, Mount ''/dev/sda1'' ''/mnt/vboot'' ''ext3'' 1 []])"
  by code_simp

theorem vboot_boots_verified_witness:
  "\<exists>w1 w2 w3 pub k ks i isig binary. os_kernel (vos (one_boot [])) (MkdirAll ''/mnt/vboot'' 0x1FF) [] = (None, w1) \<and>
    os_kernel (vos (one_boot [])) (Mount ''/dev/sda1'' ''/mnt/vboot'' ''ext3'' 1 []) w1 = (None, w2) \<and>
    os_read (vos (one_boot [])) ''/etc/sig.pub'' w2 = Inr pub \<and> os_read (vos (one_boot [])) ''/mnt/vboot/kernel'' w2 = Inr k \<and>
    os_read (vos (one_boot [])) ''/mnt/vboot/kernel.sig'' w2 = Inr ks \<and> os_read (vos (one_boot [])) ''/mnt/vboot/initrd'' w2 = Inr i \<and>
    os_read (vos (one_boot [])) ''/mnt/vboot/initrd.sig'' w2 = Inr isig \<and>
    Verify (one_boot []) pub (Sum256 (one_boot []) k) ks = Some True \<and>
    Verify (one_boot []) pub (Sum256 (one_boot []) i) ks = Some True \<and>
    execve (one_boot []) binary [''kexec'', ''-initrd'', ''/mnt/vboot/initrd'', ''/mnt/vboot/kernel''] w3 =
      (None, [MkdirAll ''/mnt/vboot'' 0x1FF, Mount ''/dev/sda1'' ''/mnt/vboot'' ''ext3'' 1 []])"
  using vboot_boots_verified [of "one_boot []" "[]" vboot_defaults "[]", OF _ _ one_boot_runs]
  by (simp add: Parse_done vboot_defaults_def) (simp add: one_boot_def)

section \<open>The signature of the initrd\<close>

text \<open>The environment in which the file \<open>q\<close>, wherever it can be read, has another content.\<close>

definition resigned :: "string \<Rightarrow> bytes \<Rightarrow> 'w vboot_env \<Rightarrow> 'w vboot_env" where
  "resigned q sig e = e\<lparr>vos := (vos e)\<lparr>os_read := (\<lambda>p w. map_sum id (\<lambda>b. if p = q then sig else b) (os_read (vos e) p w))\<rparr>\<rparr>"

lemma resigned_sel [simp]:
  "reboot (resigned q sig e) = reboot e" "Sum256 (resigned q sig e) = Sum256 e" "Sum1 (resigned q sig e) = Sum1 e"
  "Verify (resigned q sig e) = Verify e" "OpenTPM (resigned q sig e) = OpenTPM e" "PcrExtend (resigned q sig e) = PcrExtend e"
  "LookPath (resigned q sig e) = LookPath e" "execve (resigned q sig e) = execve e"
  "os_kernel (vos (resigned q sig e)) = os_kernel (vos e)"
  "os_read (vos (resigned q sig e)) p w = map_sum id (\<lambda>b. if p = q then sig else b) (os_read (vos e) p w)"
  by (simp_all add: resigned_def)

lemma resigned_die [simp]: "die (resigned q sig e) = die e" "die_on (resigned q sig e) = die_on e"
proof -
  show d: "die (resigned q sig e) = die e" by (simp add: fun_eq_iff die_def)
  then show "die_on (resigned q sig e) = die_on e" by (simp add: fun_eq_iff die_on_def)
qed

lemma resigned_parts [simp]:
  "measure_files (resigned q sig e) = measure_files e"
  "verify_files (resigned q sig e) = verify_files e" "boot (resigned q sig e) = boot e"
  "os_do (vos (resigned q sig e)) = os_do (vos e)"
  by (simp_all add: fun_eq_iff measure_files_def verify_files_def boot_def os_do_def Let_def cong: option.case_cong prod.case_cong)

lemma read_files_resigned:
  assumes "\<And>files files' w. (\<forall>p. p \<noteq> q \<longrightarrow> files p = files' p) \<Longrightarrow> k files w = k files' w"
    and "\<forall>p. p \<noteq> q \<longrightarrow> files p = files' p"
  shows "then_do (read_files (resigned q sig e) f ps files w) k = then_do (read_files e f ps files' w) k"
  using assms(2)
proof (induction ps arbitrary: files files' w)
  case Nil
  then show ?case using assms(1) [of files files'] by (simp add: then_do_def)
next
  case (Cons p ps)
  show ?case
  proof (cases "os_read (vos e) p w")
    case (Inl err)
    then show ?thesis by (simp add: then_do_assoc Cons.IH [OF Cons.prems])
  next
    case (Inr b)
    with Cons.prems show ?thesis by (auto intro!: Cons.IH)
  qed
qed

lemma verify_measure_local:
  assumes "\<forall>p. p \<noteq> q \<longrightarrow> files p = files' p" "q \<notin> {publicKey f, linuxKernel f, linuxKernelSignature f, initrd f}"
  shows "verify_files e f files = verify_files e f files'" "measure_files e f files = measure_files e f files'"
proof -
  have "content files (publicKey f) = content files' (publicKey f)" "content files (linuxKernel f) = content files' (linuxKernel f)"
    "content files (linuxKernelSignature f) = content files' (linuxKernelSignature f)"
    "content files (initrd f) = content files' (initrd f)"
    using assms by (auto simp: content_def)
  then show "verify_files e f files = verify_files e f files'" "measure_files e f files = measure_files e f files'"
    by (simp_all only: verify_files_def measure_files_def fun_eq_iff simp_thms)
qed

text \<open>
  C35. The signature of the initrd decides nothing: when it is a file of its own, replacing its content by any other
  bytes leaves every run of \<^verbatim>\<open>vboot\<close> as it was, whatever the signature scheme.
\<close>

theorem vboot_ignores_initrd_signature:
  assumes "Parse vboot_formal vboot_defaults argv = Inr (f, rest)"
    and "initrdSignature f \<notin> {publicKey f, linuxKernel f, linuxKernelSignature f, initrd f}"
  shows "vboot_main (resigned (initrdSignature f) sig e) argv w = vboot_main e argv w"
proof -
  let ?k = "\<lambda>files w. then_do (verify_files e f files w) (\<lambda>_ w. then_do (measure_files e f files w) (\<lambda>_ w. boot e f w))"
  have "then_do (read_files (resigned (initrdSignature f) sig e) f ps Map.empty w) ?k = then_do (read_files e f ps Map.empty w) ?k" for ps w
  proof (rule read_files_resigned)
    fix files files' :: "string \<Rightarrow> bytes option" and w
    assume "\<forall>p. p \<noteq> initrdSignature f \<longrightarrow> files p = files' p"
    from verify_measure_local [OF this assms(2), of e] show "?k files w = ?k files' w" by simp
  qed simp
  with assms(1) show ?thesis by (simp add: vboot_main_def)
qed

theorem vboot_ignores_initrd_signature_witness:
  "vboot_main (resigned ''/mnt/vboot/initrd.sig'' ''forged'' (one_boot [])) [] [] = vboot_main (one_boot []) [] []"
  using vboot_ignores_initrd_signature [of "[]" vboot_defaults "[]" "''forged''" "one_boot []" "[]"]
  by (simp add: Parse_done vboot_defaults_def)

end
