(* ===== verification/Ldd.thy ===== *)
theory Ldd
  imports Go_Path Cpio_Fs "HOL-Library.Multiset"
begin

text \<open>
  The library dependencies of a program, \<^verbatim>\<open>src/pkg/ldd\<close>: \<^verbatim>\<open>follow\<close> records a name and the chain of
  symbolic links that starts there, \<^verbatim>\<open>Ldd\<close> collects what the dynamic loader lists. The file system is a
  \<open>fs_view\<close>; what \<^verbatim>\<open>debug/elf\<close> finds in a file, the output of the loader and the glob of the loaders are
  parameters.
\<close>

section \<open>Following links\<close>

text \<open>The map of names, in the order of insertion; \<open>FileInfo\<close> is the name with what \<^verbatim>\<open>Lstat\<close> returned.\<close>

type_synonym infos = "(string \<times> Stat_t) list"

definition IsRegular :: "Stat_t \<Rightarrow> bool" where
  "IsRegular st \<longleftrightarrow> stat_FileMode st AND ModeType = 0"

definition link_target :: "string \<Rightarrow> string \<Rightarrow> string" where
  "link_target l t = (if is_abs t then t else Join [Dir l, t])"

partial_function (option) follow :: "fs_view \<Rightarrow> string \<Rightarrow> infos \<Rightarrow> ((goerr + unit) \<times> infos) option" where
  "follow v l names =
     (if map_of names l \<noteq> None then Some (Inr (), names)
      else case v_Lstat v l of
        Inl e \<Rightarrow> Some (Inl (Errorf ''%v''), names)
      | Inr i \<Rightarrow>
          if IsRegular i then Some (Inr (), names @ [(l, i)])
          else (case v_Readlink v l of
                  Inl e \<Rightarrow> Some (Inl e, names @ [(l, i)])
                | Inr t \<Rightarrow> follow v (link_target l t) (names @ [(l, i)])))"

declare follow.simps [code]

section \<open>Asking the loader\<close>

text \<open>The file as \<^verbatim>\<open>debug/elf\<close> presents it: the data of the section \<^verbatim>\<open>.interp\<close>, and whether it is a shared object.\<close>

record elf_file =
  interp_data :: "(goerr + bytes) option"
  is_dyn :: bool

record ldd_env =
  ld_fs :: fs_view
  ld_open :: "string \<Rightarrow> goerr + elf_file option"
  ld_list :: "string \<Rightarrow> string \<Rightarrow> goerr + bytes"
  ld_Glob :: "string \<Rightarrow> goerr + string list"
  ld_range :: "string list \<Rightarrow> string list"

definition LdSo :: "ldd_env \<Rightarrow> goerr + string" where
  "LdSo e =
     (case ld_Glob e ''/lib*/ld-linux-*.so.*'' of
        Inl err \<Rightarrow> Inl err
      | Inr [] \<Rightarrow> Inl (Errorf ''No ld.so matches %v'')
      | Inr (n # _) \<Rightarrow> Inr n)"

definition dep_line :: "string \<Rightarrow> string list" where
  "dep_line p =
     (let f = split_on CHR '' '' p
      in if length f < 3 then [] else if f ! 1 \<noteq> ''=>'' \<or> f ! 2 = [] then [] else [f ! 2])"

definition runinterp :: "ldd_env \<Rightarrow> string \<Rightarrow> string \<Rightarrow> goerr + string list" where
  "runinterp e interp f = map_sum id (\<lambda>out. concat (map dep_line (split_on newline out))) (ld_list e interp f)"

text \<open>
  The interpreter of one file: \<open>Ret None\<close> where the loop continues with the next file. An empty section makes
  \<^verbatim>\<open>i[:len(i)-1]\<close> panic.
\<close>

definition interp_of :: "ldd_env \<Rightarrow> string \<Rightarrow> string option outcome" where
  "interp_of e n =
     (let guess = (\<lambda>f. if \<not> is_dyn f then Ret None
                       else case LdSo e of Inl err \<Rightarrow> Fail err | Inr i \<Rightarrow> Ret (Some i))
      in case ld_open e n of
           Inl err \<Rightarrow> Fail err
         | Inr None \<Rightarrow> Ret None
         | Inr (Some f) \<Rightarrow>
             (case interp_data f of
                None \<Rightarrow> guess f
              | Some (Inl err) \<Rightarrow> Fail err
              | Some (Inr i) \<Rightarrow>
                  if 1 < length i \<and> i ! 0 = CHR ''#'' \<and> i ! 1 = CHR ''!'' then Ret None
                  else if i = [] then Panic ''slice bounds out of range''
                  else if butlast i = [] then guess f
                  else Ret (Some (butlast i))))"

fun follow_all :: "fs_view \<Rightarrow> string list \<Rightarrow> infos \<Rightarrow> ((goerr + unit) \<times> infos) option" where
  "follow_all v [] names = Some (Inr (), names)"
| "follow_all v (l # ls) names =
     (case follow v l names of
        None \<Rightarrow> None
      | Some (Inl e, names) \<Rightarrow> Some (Inl e, names)
      | Some (Inr _, names) \<Rightarrow> follow_all v ls names)"

text \<open>One turn of the loop over the files. A dependency that cannot be followed ends the process.\<close>

definition ldd_one :: "ldd_env \<Rightarrow> string \<Rightarrow> infos \<Rightarrow> infos \<Rightarrow> (infos \<times> infos) outcome option" where
  "ldd_one e n list interps =
     (case interp_of e n of
        Fail err \<Rightarrow> Some (Fail err)
      | Panic s \<Rightarrow> Some (Panic s)
      | Ret None \<Rightarrow> Some (Ret (list, interps))
      | Ret (Some interp) \<Rightarrow>
          (case follow (ld_fs e) interp interps of
             None \<Rightarrow> None
           | Some (Inl err, _) \<Rightarrow> Some (Fail err)
           | Some (Inr _, interps) \<Rightarrow>
               (case runinterp e interp n of
                  Inl err \<Rightarrow> Some (Fail err)
                | Inr deps \<Rightarrow>
                    (case follow_all (ld_fs e) deps list of
                       None \<Rightarrow> None
                     | Some (Inl err, _) \<Rightarrow> Some (Panic ''log.Fatalf'')
                     | Some (Inr _, list) \<Rightarrow> Some (Ret (list, interps))))))"

fun ldd_loop :: "ldd_env \<Rightarrow> string list \<Rightarrow> infos \<Rightarrow> infos \<Rightarrow> (infos \<times> infos) outcome option" where
  "ldd_loop e [] list interps = Some (Ret (list, interps))"
| "ldd_loop e (n # ns) list interps =
     (case ldd_one e n list interps of
        None \<Rightarrow> None
      | Some (Ret (list, interps)) \<Rightarrow> ldd_loop e ns list interps
      | Some (Fail err) \<Rightarrow> Some (Fail err)
      | Some (Panic s) \<Rightarrow> Some (Panic s))"

text \<open>Go leaves the order of \<^verbatim>\<open>range\<close> over a map open: \<open>ld_range\<close> gives the order of the keys.\<close>

definition Ldd :: "ldd_env \<Rightarrow> string list \<Rightarrow> infos outcome option" where
  "Ldd e names =
     (case ldd_loop e names [] [] of
        None \<Rightarrow> None
      | Some (Ret (list, interps)) \<Rightarrow>
          Some (Ret (map (\<lambda>k. (k, the (map_of interps k))) (ld_range e (map fst interps)) @
                     map (\<lambda>k. (k, the (map_of list k))) (ld_range e (map fst list))))
      | Some (Fail err) \<Rightarrow> Some (Fail err)
      | Some (Panic s) \<Rightarrow> Some (Panic s))"

definition List :: "ldd_env \<Rightarrow> string list \<Rightarrow> string list outcome option" where
  "List e names = map_option (\<lambda>r. bind_outcome r (\<lambda>l. Ret (map fst l))) (Ldd e names)"

section \<open>The list is complete\<close>

text \<open>Every name of the list exists, and is a regular file or a link whose target is in the list.\<close>

definition linked :: "fs_view \<Rightarrow> string set \<Rightarrow> string \<Rightarrow> bool" where
  "linked v S l \<longleftrightarrow>
     (\<exists>st. v_Lstat v l = Inr st \<and> (IsRegular st \<or> (\<exists>t. v_Readlink v l = Inr t \<and> link_target l t \<in> S)))"

lemma linked_mono: "linked v S l \<Longrightarrow> S \<subseteq> T \<Longrightarrow> linked v T l"
  by (auto simp: linked_def)

definition closed :: "fs_view \<Rightarrow> infos \<Rightarrow> bool" where
  "closed v names \<longleftrightarrow> distinct (map fst names) \<and> (\<forall>l \<in> fst ` set names. linked v (fst ` set names) l)"

text \<open>All but the links that wait for \<open>l\<close>.\<close>

definition closed_but :: "fs_view \<Rightarrow> string \<Rightarrow> infos \<Rightarrow> bool" where
  "closed_but v l names \<longleftrightarrow>
     distinct (map fst names) \<and> (\<forall>k \<in> fst ` set names. linked v (insert l (fst ` set names)) k)"

lemma closed_but_closed: "closed_but v l names \<Longrightarrow> l \<in> fst ` set names \<Longrightarrow> closed v names"
  by (simp add: closed_def closed_but_def insert_absorb)

lemma closed_closed_but: "closed v names \<Longrightarrow> closed_but v l names"
  by (auto simp: closed_def closed_but_def intro: linked_mono)

lemma closed_but_regular:
  assumes "closed_but v l names" "l \<notin> fst ` set names" "v_Lstat v l = Inr st" "IsRegular st"
  shows "closed v (names @ [(l, st)])"
  using assms by (auto simp: closed_def closed_but_def linked_def)

lemma closed_but_link:
  assumes "closed_but v l names" "l \<notin> fst ` set names" "v_Lstat v l = Inr st" "v_Readlink v l = Inr t"
  shows "closed_but v (link_target l t) (names @ [(l, st)])"
proof -
  let ?T = "insert (link_target l t) (fst ` set (names @ [(l, st)]))"
  have "linked v ?T k" if "k \<in> fst ` set names" for k
    using assms(1) that by (auto simp: closed_but_def intro: linked_mono [of v "insert l (fst ` set names)"])
  moreover have "linked v ?T l" using assms(3,4) by (auto simp: linked_def)
  ultimately show ?thesis using assms(1,2) by (auto simp: closed_but_def)
qed

lemma map_of_None: "map_of names l \<noteq> None \<longleftrightarrow> l \<in> fst ` set names"
  by (auto simp: map_of_eq_None_iff)

lemma follow_total:
  assumes "finite {l. \<exists>st. v_Lstat v l = Inr st}" "closed_but v l names"
    "\<forall>k \<in> fst ` set names. \<exists>st. v_Lstat v k = Inr st"
  shows "\<exists>res names'. follow v l names = Some (res, names') \<and> fst ` set names \<subseteq> fst ` set names' \<and>
    (res = Inr () \<longrightarrow> l \<in> fst ` set names' \<and> closed v names')"
  using assms(2,3)
proof (induction "card ({l. \<exists>st. v_Lstat v l = Inr st} - fst ` set names)" arbitrary: l names rule: less_induct)
  case less
  show ?case
  proof (cases "l \<in> fst ` set names")
    case True
    then show ?thesis using closed_but_closed [OF less.prems(1)] map_of_None [of names l] by (simp add: follow.simps)
  next
    case new: False
    then have m: "map_of names l = None" using map_of_None [of names l] by blast
    show ?thesis
    proof (cases "v_Lstat v l")
      case (Inl e)
      with m show ?thesis by (simp add: follow.simps)
    next
      case (Inr st)
      show ?thesis
      proof (cases "IsRegular st \<or> (\<exists>e. v_Readlink v l = Inl e)")
        case True
        with m Inr closed_but_regular [OF less.prems(1) new Inr] show ?thesis
          by (auto simp: follow.simps [of v l])
      next
        case False
        then obtain t where t: "v_Readlink v l = Inr t" and r: "\<not> IsRegular st" by (cases "v_Readlink v l") auto
        let ?n = "names @ [(l, st)]"
        have "card ({l. \<exists>st. v_Lstat v l = Inr st} - fst ` set ?n) < card ({l. \<exists>st. v_Lstat v l = Inr st} - fst ` set names)"
          using new Inr assms(1) by (intro psubset_card_mono) auto
        from less.hyps [OF this closed_but_link [OF less.prems(1) new Inr t]] less.prems(2) Inr
        obtain res names' where f: "follow v (link_target l t) ?n = Some (res, names')" "fst ` set ?n \<subseteq> fst ` set names'"
          "res = Inr () \<longrightarrow> closed v names'" by auto
        with m Inr r t show ?thesis by (simp add: follow.simps [of v l])
      qed
    qed
  qed
qed

lemma follow_all_total:
  assumes "finite {l. \<exists>st. v_Lstat v l = Inr st}" "closed v names"
  shows "\<exists>res names'. follow_all v ls names = Some (res, names') \<and> fst ` set names \<subseteq> fst ` set names' \<and>
    (res = Inr () \<longrightarrow> set ls \<subseteq> fst ` set names' \<and> closed v names')"
  using assms(2)
proof (induction ls arbitrary: names)
  case (Cons l ls)
  have "\<forall>k \<in> fst ` set names. \<exists>st. v_Lstat v k = Inr st" using Cons.prems by (auto simp: closed_def linked_def)
  from follow_total [OF assms(1) closed_closed_but [OF Cons.prems] this, of l] obtain res n1 where
    f: "follow v l names = Some (res, n1)" "fst ` set names \<subseteq> fst ` set n1" "res = Inr () \<longrightarrow> l \<in> fst ` set n1 \<and> closed v n1"
    by blast
  show ?case
  proof (cases res)
    case (Inl e)
    with f show ?thesis by simp
  next
    case (Inr u)
    with f(3) have n1: "l \<in> fst ` set n1" "closed v n1" by simp_all
    from Cons.IH [OF n1(2)] obtain res' n2 where "follow_all v ls n1 = Some (res', n2)" "fst ` set n1 \<subseteq> fst ` set n2"
      "res' = Inr () \<longrightarrow> set ls \<subseteq> fst ` set n2 \<and> closed v n2" by blast
    with f(1,2) Inr n1(1) show ?thesis by (intro exI [of _ res'] exI [of _ n2]) auto
  qed
qed simp

text \<open>What the list must hold for one file: its interpreter and what the interpreter lists.\<close>

definition needed :: "ldd_env \<Rightarrow> string \<Rightarrow> string set" where
  "needed e n =
     (case interp_of e n of
        Ret (Some interp) \<Rightarrow> insert interp (case runinterp e interp n of Inr deps \<Rightarrow> set deps | Inl _ \<Rightarrow> {})
      | _ \<Rightarrow> {})"

definition ldd_post :: "ldd_env \<Rightarrow> string list \<Rightarrow> infos \<Rightarrow> infos \<Rightarrow> infos \<Rightarrow> infos \<Rightarrow> bool" where
  "ldd_post e ns l i l' i' \<longleftrightarrow> closed (ld_fs e) l' \<and> closed (ld_fs e) i' \<and>
     fst ` set l \<subseteq> fst ` set l' \<and> fst ` set i \<subseteq> fst ` set i' \<and> (\<forall>n \<in> set ns. needed e n \<subseteq> fst ` set l' \<union> fst ` set i')"

lemma ldd_post_trans:
  assumes "ldd_post e [n] l i l1 i1" and "ldd_post e ns l1 i1 l2 i2"
  shows "ldd_post e (n # ns) l i l2 i2"
proof -
  have "fst ` set l1 \<union> fst ` set i1 \<subseteq> fst ` set l2 \<union> fst ` set i2" using assms(2) by (auto simp: ldd_post_def)
  moreover have "needed e n \<subseteq> fst ` set l1 \<union> fst ` set i1" using assms(1) by (simp add: ldd_post_def)
  ultimately have "needed e n \<subseteq> fst ` set l2 \<union> fst ` set i2" by (rule subset_trans [rotated])
  then show ?thesis using assms unfolding ldd_post_def by (simp add: subset_trans [of "fst ` set l" "fst ` set l1"] subset_trans [of "fst ` set i" "fst ` set i1"])
qed

lemma ldd_one_total:
  assumes "finite {l. \<exists>st. v_Lstat (ld_fs e) l = Inr st}" "closed (ld_fs e) list" "closed (ld_fs e) interps"
  shows "\<exists>r. ldd_one e n list interps = Some r \<and>
    (\<forall>list' interps'. r = Ret (list', interps') \<longrightarrow> ldd_post e [n] list interps list' interps')"
proof (cases "interp_of e n")
  case (Ret i)
  show ?thesis
  proof (cases i)
    case None
    with Ret assms show ?thesis by (simp add: ldd_one_def needed_def ldd_post_def)
  next
    case (Some interp)
    have "\<forall>k \<in> fst ` set interps. \<exists>st. v_Lstat (ld_fs e) k = Inr st" using assms(3) by (auto simp: closed_def linked_def)
    from follow_total [OF assms(1) closed_closed_but [OF assms(3)] this, of interp] obtain res n1 where
      f: "follow (ld_fs e) interp interps = Some (res, n1)" "fst ` set interps \<subseteq> fst ` set n1"
        "res = Inr () \<longrightarrow> interp \<in> fst ` set n1 \<and> closed (ld_fs e) n1" by blast
    show ?thesis
    proof (cases "runinterp e interp n")
      case (Inl err)
      with Ret Some f show ?thesis by (cases res) (simp_all add: ldd_one_def)
    next
      case (Inr deps)
      obtain res2 l1 where g: "follow_all (ld_fs e) deps list = Some (res2, l1)" "fst ` set list \<subseteq> fst ` set l1"
          "res2 = Inr () \<longrightarrow> set deps \<subseteq> fst ` set l1 \<and> closed (ld_fs e) l1"
        using follow_all_total [OF assms(1,2), of deps] by blast
      show ?thesis
      proof (cases res; cases res2)
        fix u u'
        assume "res = Inr u" "res2 = Inr u'"
        with f g Ret Some Inr show ?thesis by (simp add: ldd_one_def needed_def ldd_post_def) blast
      qed (use f g Ret Some Inr in \<open>simp_all add: ldd_one_def\<close>)
    qed
  qed
qed (simp_all add: ldd_one_def)

lemma ldd_loop_total:
  assumes "finite {l. \<exists>st. v_Lstat (ld_fs e) l = Inr st}" "closed (ld_fs e) list" "closed (ld_fs e) interps"
  shows "\<exists>r. ldd_loop e ns list interps = Some r \<and>
    (\<forall>list' interps'. r = Ret (list', interps') \<longrightarrow> ldd_post e ns list interps list' interps')"
  using assms(2,3)
proof (induction ns arbitrary: list interps)
  case Nil
  then show ?case by (simp add: ldd_post_def)
next
  case (Cons n ns)
  obtain r where r: "ldd_one e n list interps = Some r"
    "\<forall>list' interps'. r = Ret (list', interps') \<longrightarrow> ldd_post e [n] list interps list' interps'"
    using ldd_one_total [OF assms(1) Cons.prems] by blast
  show ?case
  proof (cases r)
    case (Ret p)
    obtain l i where p: "p = (l, i)" by (cases p)
    with r Ret have c: "ldd_post e [n] list interps l i" by simp
    then have "closed (ld_fs e) l" "closed (ld_fs e) i" by (simp_all add: ldd_post_def)
    from Cons.IH [OF this] obtain r' where "ldd_loop e ns l i = Some r'"
      "\<forall>list' interps'. r' = Ret (list', interps') \<longrightarrow> ldd_post e ns l i list' interps'" by blast
    with r(1) Ret p ldd_post_trans [OF c] show ?thesis by (intro exI [of _ r']) simp
  qed (use r in simp_all)
qed

text \<open>
  C33. \<^verbatim>\<open>ldd.List\<close> is complete. On a file system with finitely many names it always returns, link cycles
  included, and a list it returns names, for every file, its interpreter and every library the interpreter lists;
  every name of the list exists, and when it is a symbolic link its target is on the list too, so that the
  chain from every library to a regular file is there to be archived. This holds for every order in which Go
  iterates over a map.
\<close>

theorem List_complete:
  assumes "finite {l. \<exists>st. v_Lstat (ld_fs e) l = Inr st}" and "\<And>xs. mset (ld_range e xs) = mset xs"
  shows "\<exists>r. List e names = Some r \<and>
    (\<forall>libs. r = Ret libs \<longrightarrow> (\<forall>n \<in> set names. needed e n \<subseteq> set libs) \<and> (\<forall>l \<in> set libs. linked (ld_fs e) (set libs) l))"
proof -
  have c: "closed (ld_fs e) []" by (simp add: closed_def)
  obtain r where r: "ldd_loop e names [] [] = Some r"
    "\<forall>list' interps'. r = Ret (list', interps') \<longrightarrow> ldd_post e names [] [] list' interps'"
    using ldd_loop_total [OF assms(1) c c, of names] by blast
  show ?thesis
  proof (cases r)
    case (Ret p)
    obtain l i where p: "p = (l, i)" by (cases p)
    define libs where "libs = ld_range e (map fst i) @ ld_range e (map fst l)"
    from r(2) Ret p have post: "ldd_post e names [] [] l i" by simp
    have s: "set libs = fst ` set i \<union> fst ` set l"
      using assms(2) [of "map fst i"] assms(2) [of "map fst l"] by (simp add: libs_def set_mset_mset [symmetric] del: set_mset_mset)
    have "List e names = Some (Ret libs)"
      using r(1) Ret p by (simp add: List_def Ldd_def libs_def comp_def)
    moreover have "\<forall>k \<in> set libs. linked (ld_fs e) (set libs) k"
    proof
      fix k
      assume "k \<in> set libs"
      with post s have "linked (ld_fs e) (fst ` set i) k \<or> linked (ld_fs e) (fst ` set l) k" by (auto simp: ldd_post_def closed_def)
      then show "linked (ld_fs e) (set libs) k" unfolding s by (rule disjE) (erule linked_mono, simp)+
    qed
    moreover have "\<forall>n \<in> set names. needed e n \<subseteq> set libs" using post unfolding s ldd_post_def by (simp add: Un_commute)
    ultimately show ?thesis by simp
  qed (use r in \<open>simp_all add: List_def Ldd_def\<close>)
qed

text \<open>A program, its loader behind a link, one library behind a cycle of two links.\<close>

definition small_libs :: ldd_env where
  "small_libs =
     (let st = (\<lambda>m. \<lparr>st_Dev = 1, st_Ino = 1, st_Nlink = 1, st_Mode = m, st_Uid = 0, st_Gid = 0, st_Rdev = 0, st_Size = 0, st_Mtim = 0\<rparr>);
          regs = [''/bin/sh'', ''/lib/ld-2.so'']; links = [(''/lib/ld.so'', ''ld-2.so''), (''/lib/a.so'', ''b.so''), (''/lib/b.so'', ''/lib/a.so'')]
      in \<lparr>ld_fs = \<lparr>v_Lstat = (\<lambda>p. if p \<in> set regs then Inr (st 0x81ED) else if p \<in> fst ` set links then Inr (st 0xA1FF) else Inl (Errno ''ENOENT'')),
                  v_Readlink = (\<lambda>p. case map_of links p of None \<Rightarrow> Inl (Errno ''EINVAL'') | Some t \<Rightarrow> Inr t),
                  v_Open = (\<lambda>p. Inr [])\<rparr>,
          ld_open = (\<lambda>p. Inr (Some \<lparr>interp_data = Some (Inr (''/lib/ld.so'' @ [CHR 0x00])), is_dyn = False\<rparr>)),
          ld_list = (\<lambda>i f. Inr (tab # ''a.so => /lib/a.so (0x0)'' @ [newline])),
          ld_Glob = (\<lambda>p. Inr []), ld_range = rev\<rparr>)"

lemma small_libs_list:
  "List small_libs [''/bin/sh''] = Some (Ret [''/lib/ld-2.so'', ''/lib/ld.so'', ''/lib/b.so'', ''/lib/a.so''])"
  by code_simp

lemma small_libs_finite: "finite {l. \<exists>st. v_Lstat (ld_fs small_libs) l = Inr st}"
  by (rule finite_subset [of _ "{''/bin/sh'', ''/lib/ld-2.so'', ''/lib/ld.so'', ''/lib/a.so'', ''/lib/b.so''}"])
     (auto simp: small_libs_def Let_def split: if_splits)

theorem List_complete_witness:
  "needed small_libs ''/bin/sh'' \<subseteq> set [''/lib/ld-2.so'', ''/lib/ld.so'', ''/lib/b.so'', ''/lib/a.so''] \<and>
   list_all (linked (ld_fs small_libs) (set [''/lib/ld-2.so'', ''/lib/ld.so'', ''/lib/b.so'', ''/lib/a.so'']))
     [''/lib/ld-2.so'', ''/lib/ld.so'', ''/lib/b.so'', ''/lib/a.so'']"
  using List_complete [OF small_libs_finite, of "[''/bin/sh'']"] unfolding small_libs_list
  by (simp add: small_libs_def Let_def)

end
