(* ===== verification/Ramfs.thy ===== *)
theory Ramfs
  imports Ldd Wc
begin

unbundle bit_operations_syntax

text \<open>
  The initial file system that u-root boots from: \<^verbatim>\<open>src/pkg/ramfs/ramfs.go\<close> on top of the cpio writer, and
  the builder \<^verbatim>\<open>src/bb/ramfs.go\<close> that puts it together from the bb binary, extra commands with the
  libraries \<^verbatim>\<open>ldd\<close> finds, and extra archives.
\<close>

section \<open>The fixed records\<close>

definition nameserver :: bytes where "nameserver = ''nameserver 8.8.8.8'' @ [newline]"

definition nuls :: "nat \<Rightarrow> bytes" where "nuls n = replicate n (CHR 0x00)"

definition gmt0 :: bytes where
  "gmt0 =
     ''TZif2'' @ nuls 18 @ [CHR 0x01] @ nuls 3 @ [CHR 0x01] @ nuls 11 @ [CHR 0x01] @ nuls 3 @ [CHR 0x04] @ nuls 6 @
     ''GMT'' @ nuls 3 @
     ''TZif2'' @ nuls 18 @ [CHR 0x01] @ nuls 3 @ [CHR 0x01] @ nuls 7 @ [CHR 0x01] @ nuls 3 @ [CHR 0x01] @ nuls 3 @ [CHR 0x04, CHR 0xF8] @
     nuls 14 @ ''GMT'' @ nuls 3 @ [newline] @ ''GMT0'' @ [newline]"

definition node_record :: "string \<Rightarrow> u64 \<Rightarrow> u64 \<Rightarrow> u64 \<Rightarrow> Record" where
  "node_record n m maj mnr =
     \<lparr>ReadCloser = None, rec_Info = zero_info\<lparr>Name := n, Mode := m, Rmajor := maj, Rminor := mnr\<rparr>\<rparr>"

definition text_record :: "string \<Rightarrow> bytes \<Rightarrow> Record" where
  "text_record n contents =
     \<lparr>ReadCloser = Some (NewBytesReadCloser contents),
      rec_Info = zero_info\<lparr>Name := n, Mode := 0x81A4, FileSize := of_nat (length contents)\<rparr>\<rparr>"

definition DevCPIO :: "Record list" where
  "DevCPIO =
     map (\<lambda>n. node_record n 0x41ED 0 0) [''tcz'', ''etc'', ''dev'', ''ubin'', ''usr'', ''usr/lib'', ''lib64'', ''bin''] @
     [node_record ''dev/console'' 0x2180 5 1, node_record ''dev/tty'' 0x21B6 5 0, node_record ''dev/null'' 0x21B6 1 3,
      node_record ''dev/port'' 0x21A0 1 4, node_record ''dev/urandom'' 0x21B6 1 9,
      text_record ''etc/resolv.conf'' nameserver, text_record ''etc/localtime'' gmt0]"

section \<open>Writing files\<close>

record 'w Initramfs =
  i_Writer :: "'w Writer"
  i_files :: "string set"

type_synonym 'w record_writer = "Record \<Rightarrow> 'w \<Rightarrow> (goerr + unit) \<times> 'w"

definition NewInitramfs :: "'w record_writer \<Rightarrow> 'w Writer \<Rightarrow> goerr + 'w Initramfs" where
  "NewInitramfs wr w =
     (case WriteRecords wr (MakeAllReproducible DevCPIO) w of
        (Inl e, w) \<Rightarrow> Inl e
      | (Inr _, w) \<Rightarrow> Inr \<lparr>i_Writer = w, i_files = {}\<rparr>)"

function Initramfs_WriteRecord ::
    "'w record_writer \<Rightarrow> Record \<Rightarrow> 'w Initramfs \<Rightarrow> (goerr + unit) \<times> 'w Initramfs" where
  "Initramfs_WriteRecord wr r i =
     (if rec_Name r = ''.'' \<or> rec_Name r = ''/'' then (Inr (), i)
      else case (if Dir (rec_Name r) \<notin> i_files i \<and> Dir (rec_Name r) \<noteq> ''/'' \<and> Dir (rec_Name r) \<noteq> ''.''
                 then Initramfs_WriteRecord wr (node_record (Dir (rec_Name r)) 0x41ED 0 0) i else (Inr (), i)) of
        (Inl e, i) \<Rightarrow> (Inl e, i)
      | (Inr _, i) \<Rightarrow>
          (case Writer_WriteRecord wr r (i_Writer i) of
             (res, w) \<Rightarrow> (res, \<lparr>i_Writer = w, i_files = insert (rec_Name r) (i_files i)\<rparr>)))"
  by pat_completeness auto
termination
  by (relation "measure (\<lambda>(wr, r, i). length (rec_Name r))") (auto simp: node_record_def Dir_shorter)

declare Initramfs_WriteRecord.simps [simp del]

fun children_loop ::
    "(string \<Rightarrow> 's \<Rightarrow> ((goerr + unit) \<times> 's) option) \<Rightarrow> string list \<Rightarrow> 's \<Rightarrow> ((goerr + unit) \<times> 's) option" where
  "children_loop fn [] s = Some (Inr (), s)"
| "children_loop fn (n # ns) s =
     (case fn n s of
        None \<Rightarrow> None
      | Some (Inr _, s) \<Rightarrow> children_loop fn ns s
      | Some (Inl e, s) \<Rightarrow> if e = Errno ''ENOENT'' then children_loop fn ns s else Some (Inl e, s))"

definition children ::
    "(string \<Rightarrow> goerr + string list) \<Rightarrow> string \<Rightarrow> (string \<Rightarrow> 's \<Rightarrow> ((goerr + unit) \<times> 's) option) \<Rightarrow> 's \<Rightarrow>
     ((goerr + unit) \<times> 's) option" where
  "children rd dir fn s = (case rd dir of Inl e \<Rightarrow> Some (Inl e, s) | Inr names \<Rightarrow> children_loop fn names s)"

text \<open>The recursion goes down the directory tree: the fuel bounds its depth, and \<open>None\<close> is a tree that is deeper.\<close>

fun Initramfs_WriteFile ::
    "nat \<Rightarrow> fs_view \<Rightarrow> (string \<Rightarrow> goerr + string list) \<Rightarrow> 'w record_writer \<Rightarrow> string \<Rightarrow> string \<Rightarrow>
     inode_state \<times> 'w Initramfs \<Rightarrow> ((goerr + unit) \<times> inode_state \<times> 'w Initramfs) option" where
  "Initramfs_WriteFile 0 v rd wr src dest s = None"
| "Initramfs_WriteFile (Suc n) v rd wr src dest (ino, i) =
     (case GetRecord v src ino of
        (Inl e, ino) \<Rightarrow> Some (Inl e, ino, i)
      | (Inr r, ino) \<Rightarrow>
          if Mode (rec_Info r) AND NOT 0x1FF = 0x4000
          then children rd src (\<lambda>name. Initramfs_WriteFile n v rd wr (Join [src, name]) (Join [dest, name])) (ino, i)
          else (case Initramfs_WriteRecord wr (MakeReproducible (set_Name dest r)) i of
                  (res, i) \<Rightarrow> Some (res, ino, i)))"

fun Initramfs_WriteFiles ::
    "nat \<Rightarrow> fs_view \<Rightarrow> (string \<Rightarrow> goerr + string list) \<Rightarrow> 'w record_writer \<Rightarrow> string \<Rightarrow> string \<Rightarrow> string list \<Rightarrow>
     inode_state \<times> 'w Initramfs \<Rightarrow> ((goerr + unit) \<times> inode_state \<times> 'w Initramfs) option" where
  "Initramfs_WriteFiles n v rd wr srcDir destDir [] s = Some (Inr (), s)"
| "Initramfs_WriteFiles n v rd wr srcDir destDir (f # fs) s =
     (case Initramfs_WriteFile n v rd wr (Join [srcDir, f]) (Join [destDir, f]) s of
        None \<Rightarrow> None
      | Some (Inl e, s) \<Rightarrow> Some (Inl e, s)
      | Some (Inr _, s) \<Rightarrow> Initramfs_WriteFiles n v rd wr srcDir destDir fs s)"

section \<open>The builder\<close>

text \<open>
  \<open>bb_range\<close> is the order in which Go iterates over the map of paths, \<open>bb_extra\<close> reads the records of an extra
  archive into the archive that is being written (\<open>Initramfs.Concat\<close>, promoted from the writer).
\<close>

record bb_env =
  bb_Create :: "string \<Rightarrow> goerr option"
  bb_ldd :: ldd_env
  bb_readdir :: "string \<Rightarrow> goerr + string list"
  bb_Stat :: "string \<Rightarrow> goerr + Stat_t"
  bb_archive :: "string \<Rightarrow> goerr + reader"
  bb_range :: "(string \<times> string list) list \<Rightarrow> (string \<times> string list) list"

text \<open>The paths below \<^verbatim>\<open>/\<close> that \<^verbatim>\<open>-add\<close> asks for: each path, then its libraries when it is executable.\<close>

fun extra_paths :: "bb_env \<Rightarrow> string list \<Rightarrow> string list \<Rightarrow> string list outcome option" where
  "extra_paths e [] acc = Some (Ret acc)"
| "extra_paths e (path # ps) acc =
     (case bb_Stat e path of
        Inl err \<Rightarrow> Some (Fail err)
      | Inr s \<Rightarrow>
          if IsRegular s \<and> stat_FileMode s AND 0x49 \<noteq> 0
          then (case List (bb_ldd e) [path] of
                  None \<Rightarrow> None
                | Some (Ret libs) \<Rightarrow> extra_paths e ps (acc @ [path] @ libs)
                | Some (Fail err) \<Rightarrow> Some (Fail err)
                | Some (Panic s) \<Rightarrow> Some (Panic s))
          else extra_paths e ps (acc @ [path]))"

fun concat_archives ::
    "bb_env \<Rightarrow> 'w record_writer \<Rightarrow> string list \<Rightarrow> 'w Initramfs \<Rightarrow> (unit outcome \<times> 'w Initramfs) option" where
  "concat_archives e wr [] i = Some (Ret (), i)"
| "concat_archives e wr (x # xs) i =
     (case bb_archive e x of
        Inl err \<Rightarrow> Some (Panic ''log.Fatalf'', i)
      | Inr r \<Rightarrow>
          (case Concat wr ReadRecord (Some MakeReproducible) r (i_Writer i) of
             None \<Rightarrow> None
           | Some (Ret _, w) \<Rightarrow> concat_archives e wr xs (i\<lparr>i_Writer := w\<rparr>)
           | Some (res, w) \<Rightarrow> Some (res, i\<lparr>i_Writer := w\<rparr>)))"

fun write_paths ::
    "nat \<Rightarrow> bb_env \<Rightarrow> 'w record_writer \<Rightarrow> (string \<times> string list) list \<Rightarrow> inode_state \<times> 'w Initramfs \<Rightarrow>
     ((goerr + unit) \<times> inode_state \<times> 'w Initramfs) option" where
  "write_paths n e wr [] s = Some (Inr (), s)"
| "write_paths n e wr ((root, fs) # ps) s =
     (case Initramfs_WriteFiles n (ld_fs (bb_ldd e)) (bb_readdir e) wr root [] fs s of
        None \<Rightarrow> None
      | Some (Inl err, s) \<Rightarrow> Some (Inl err, s)
      | Some (Inr _, s) \<Rightarrow> write_paths n e wr ps s)"

definition finish_archive :: "'w record_writer \<Rightarrow> 'w Initramfs \<Rightarrow> (unit outcome \<times> 'w Initramfs)" where
  "finish_archive wr i =
     (case WriteTrailer wr (i_Writer i) of
        (Inl e, w) \<Rightarrow> (Fail e, i\<lparr>i_Writer := w\<rparr>) | (Inr _, w) \<Rightarrow> (Ret (), i\<lparr>i_Writer := w\<rparr>))"

definition bbsh :: "string \<Rightarrow> string" where
  "bbsh gopath = Join [gopath, ''src/github.com/u-root/u-root/bb/bbsh'']"

definition initramfs ::
    "nat \<Rightarrow> bb_env \<Rightarrow> 'w record_writer \<Rightarrow> string \<Rightarrow> string \<Rightarrow> string \<Rightarrow> string \<Rightarrow> string \<Rightarrow> 'w \<Rightarrow>
     (unit outcome \<times> 'w Initramfs option) option"
  where
  "initramfs n e wr gopath goos arch extraAdd extraCpio w =
     (case bb_Create e (''/tmp/initramfs.'' @ goos @ ''_'' @ arch @ ''.cpio'') of
        Some err \<Rightarrow> Some (Fail err, None)
      | None \<Rightarrow>
     (case NewInitramfs wr (newArchive w) of
        Inl err \<Rightarrow> Some (Fail err, None)
      | Inr i \<Rightarrow>
     (case extra_paths e (Fields extraAdd) [] of
        None \<Rightarrow> None
      | Some (Fail err) \<Rightarrow> Some (Fail err, Some i)
      | Some (Panic s) \<Rightarrow> Some (Panic s, Some i)
      | Some (Ret extra) \<Rightarrow>
     (case concat_archives e wr (Fields extraCpio) i of
        None \<Rightarrow> None
      | Some (Fail err, i) \<Rightarrow> Some (Fail err, Some i)
      | Some (Panic s, i) \<Rightarrow> Some (Panic s, Some i)
      | Some (Ret _, i) \<Rightarrow>
     (case write_paths n e wr (bb_range e ((bbsh gopath, [''init'', ''ubin'']) # (if extra = [] then [] else [(''/'', extra)])))
             (init_inodes, i) of
        None \<Rightarrow> None
      | Some (Inl err, _, i) \<Rightarrow> Some (Fail err, Some i)
      | Some (Inr _, _, i) \<Rightarrow> Some (case finish_archive wr i of (res, i) \<Rightarrow> (res, Some i)))))))"

section \<open>Directories come before what is in them\<close>

text \<open>Every name but those of \<open>E\<close> comes after the directory it is in.\<close>

definition parents_first :: "string set \<Rightarrow> string list \<Rightarrow> bool" where
  "parents_first E ns \<longleftrightarrow> (\<forall>k < length ns. ns ! k \<in> E \<or> Dir (ns ! k) \<in> {''.'', ''/''} \<union> set (take k ns))"

lemma parents_first_Nil [simp]: "parents_first E []"
  by (simp add: parents_first_def)

lemma parents_first_snoc:
  "parents_first E ns \<Longrightarrow> n \<in> E \<or> Dir n \<in> {''.'', ''/''} \<union> set ns \<Longrightarrow> parents_first E (ns @ [n])"
  by (auto simp: parents_first_def less_Suc_eq nth_append)

text \<open>The names of an archive: in order, each once, all relative, and just those the writer remembers.\<close>

definition names_ok :: "string set \<Rightarrow> string set \<Rightarrow> string list \<Rightarrow> bool" where
  "names_ok E written ns \<longleftrightarrow> parents_first E ns \<and> distinct ns \<and> list_all (\<lambda>n. \<not> is_abs n) ns \<and> written = set ns"

definition rel_name :: "string \<Rightarrow> string" where
  "rel_name p = (if is_abs p then case Rel ''/'' p of Inl _ \<Rightarrow> p | Inr n \<Rightarrow> n else p)"

lemma rec_Name_relative: "rec_Name (relative f) = rel_name (rec_Name f)"
  by (auto simp: relative_def rel_name_def split: sum.splits)

definition clean_name :: "string \<Rightarrow> bool" where
  "clean_name p \<longleftrightarrow> p = [] \<or> (\<exists>rooted cs. normal rooted cs \<and> p = path_of rooted cs)"

lemma clean_name_Join: "clean_name (Join es)"
  using Join_cases [of es] by (auto simp: clean_name_def)

lemma clean_name_Dir: "clean_name (Dir p)"
  unfolding clean_name_def Dir_def Clean_path_of using normal_clean_comps by blast

lemma rel_name_path_of: "normal rooted cs \<Longrightarrow> rel_name (path_of rooted cs) = path_of False cs"
  by (cases rooted) (simp_all add: rel_name_def Rel_path_of)

lemma normal_unrooted: "normal rooted cs \<Longrightarrow> normal False cs"
  by (auto simp: normal_def)

text \<open>The parent of the stored name is the stored name of the parent.\<close>

lemma Dir_rel_name:
  assumes "clean_name p"
  shows "Dir (rel_name p) \<in> {''.'', ''/''} \<or>
    Dir p \<notin> {''.'', ''/''} \<and> Dir (rel_name p) = rel_name (Dir p)"
proof (cases "p = []")
  case True
  then show ?thesis by (simp add: rel_name_def Dir_def path_Split_def Clean_def clean_comps_def is_abs_def)
next
  case False
  with assms obtain rooted cs where n: "normal rooted cs" and p: "p = path_of rooted cs" by (auto simp: clean_name_def)
  have b: "normal rooted (butlast cs)" by (rule normal_butlast [OF n])
  have d: "Dir p = path_of rooted (butlast cs)" "Dir (rel_name p) = path_of False (butlast cs)"
    using n p by (simp_all add: Dir_path_of rel_name_path_of normal_unrooted)
  show ?thesis
  proof (cases "butlast cs = []")
    case True
    with d show ?thesis by (simp add: path_of_def)
  next
    case False
    have "normal True []" "normal False []" by (simp_all add: normal_def)
    then have "Dir p \<noteq> path_of True []" "Dir p \<noteq> path_of False []"
      using d(1) False clean_comps_path_of [OF b] clean_comps_path_of by metis+
    moreover have "path_of True [] = ''/''" "path_of False [] = ''.''" by (simp_all add: path_of_def)
    moreover have "rel_name (Dir p) = Dir (rel_name p)" using rel_name_path_of [OF b] d by simp
    ultimately show ?thesis by simp
  qed
qed

fun ordered :: "string set \<Rightarrow> string list \<Rightarrow> bool" where
  "ordered S [] = True"
| "ordered S (n # ns) = (Dir (rel_name n) \<in> {''.'', ''/''} \<union> S \<and> ordered (insert (rel_name n) S) ns)"

lemma DevCPIO_ordered: "ordered {} (map rec_Name (MakeAllReproducible DevCPIO))"
  by code_simp

text \<open>The records a reader of an archive yields before the end or an error, and the names the extra archives contribute.\<close>

inductive yields :: "('r \<Rightarrow> Record outcome \<times> 'r) \<Rightarrow> 'r \<Rightarrow> Record \<Rightarrow> bool" for rd where
  yields_first: "Reader_ReadRecord rd r = (Ret f, r') \<Longrightarrow> yields rd r f"
| yields_later: "Reader_ReadRecord rd r = (Ret f, r') \<Longrightarrow> yields rd r' g \<Longrightarrow> yields rd r g"

definition extra_names :: "bb_env \<Rightarrow> string list \<Rightarrow> string set" where
  "extra_names e xs = {rel_name (rec_Name f) | x r f. x \<in> set xs \<and> bb_archive e x = Inr r \<and> yields ReadRecord r f}"

text \<open>A record writer whose state tells which records it was given.\<close>

locale record_log =
  fixes wr :: "Record \<Rightarrow> 'w \<Rightarrow> (goerr + unit) \<times> 'w" and log :: "'w \<Rightarrow> Record list"
  assumes log_append: "log (snd (wr f s)) = log s @ [f]"
begin

definition archive_ok :: "string set \<Rightarrow> 'w Writer \<Rightarrow> bool" where
  "archive_ok E w \<longleftrightarrow> names_ok E (alreadyWritten w) (map rec_Name (log (rw w)))"

lemma write_ok:
  assumes "archive_ok E w" "rel_name (rec_Name f) \<in> E \<or> Dir (rel_name (rec_Name f)) \<in> {''.'', ''/''} \<union> alreadyWritten w"
    and "Writer_WriteRecord wr f w = (res, w')"
  shows "archive_ok E w' \<and> alreadyWritten w' = insert (rel_name (rec_Name f)) (alreadyWritten w)"
proof (cases "rel_name (rec_Name f) \<in> alreadyWritten w")
  case True
  with assms show ?thesis by (simp add: Writer_WriteRecord_eq rec_Name_relative insert_absorb)
next
  case False
  have "\<not> is_abs (rel_name (rec_Name f))" using relative_not_abs [of f] by (simp add: rec_Name_relative)
  moreover have "parents_first E (map rec_Name (log (rw w)) @ [rel_name (rec_Name f)])"
    using assms(1,2) by (intro parents_first_snoc) (auto simp: archive_ok_def names_ok_def)
  ultimately show ?thesis using False assms log_append [of "relative f" "rw w"]
    by (cases "wr (relative f) (rw w)") (auto simp: Writer_WriteRecord_eq rec_Name_relative archive_ok_def names_ok_def)
qed

lemma write_all_ok:
  "archive_ok E w \<Longrightarrow> ordered S (map rec_Name fs) \<Longrightarrow> S \<subseteq> alreadyWritten w \<Longrightarrow> WriteRecords wr fs w = (res, w') \<Longrightarrow> archive_ok E w'"
proof (induction fs arbitrary: S w)
  case (Cons f fs)
  obtain r w1 where w1: "Writer_WriteRecord wr f w = (r, w1)" by (cases "Writer_WriteRecord wr f w")
  have "archive_ok E w1 \<and> alreadyWritten w1 = insert (rel_name (rec_Name f)) (alreadyWritten w)"
    using Cons.prems by (intro write_ok [OF _ _ w1]) auto
  with Cons.prems w1 show ?case
    by (cases r) (auto intro: Cons.IH [of w1 "insert (rel_name (rec_Name f)) S"])
qed simp

definition ram_ok :: "string set \<Rightarrow> 'w Initramfs \<Rightarrow> bool" where
  "ram_ok E i \<longleftrightarrow> archive_ok E (i_Writer i) \<and> rel_name ` i_files i \<subseteq> alreadyWritten (i_Writer i)"

lemma WriteRecord_ok:
  assumes "ram_ok E i" "clean_name (rec_Name r)" "Initramfs_WriteRecord wr r i = (res, i')"
  shows "ram_ok E i' \<and> (res = Inr () \<longrightarrow> rec_Name r \<in> {''.'', ''/''} \<or> rec_Name r \<in> i_files i')"
  using assms
proof (induction "length (rec_Name r)" arbitrary: r i res i' rule: less_induct)
  case less
  let ?p = "rec_Name r" and ?d = "Dir (rec_Name r)"
  show ?case
  proof (cases "?p = ''.'' \<or> ?p = ''/''")
    case True
    with less.prems show ?thesis by (simp add: Initramfs_WriteRecord.simps [of wr r i])
  next
    case named: False
    define parent where "parent =
      (if ?d \<notin> i_files i \<and> ?d \<noteq> ''/'' \<and> ?d \<noteq> ''.'' then Initramfs_WriteRecord wr (node_record ?d 0x41ED 0 0) i else (Inr (), i))"
    obtain r1 i1 where p1: "parent = (r1, i1)" by (cases parent)
    have i1: "ram_ok E i1 \<and> (r1 = Inr () \<longrightarrow> ?d \<in> {''.'', ''/''} \<or> ?d \<in> i_files i1)"
    proof (cases "?d \<notin> i_files i \<and> ?d \<noteq> ''/'' \<and> ?d \<noteq> ''.''")
      case True
      with less.hyps [of "node_record ?d 0x41ED 0 0" i r1 i1] less.prems(1) p1 clean_name_Dir [of ?p] Dir_shorter [of ?p] show ?thesis
        by (auto simp: parent_def node_record_def)
    next
      case False
      with p1 less.prems(1) show ?thesis by (auto simp: parent_def)
    qed
    show ?thesis
    proof (cases r1)
      case (Inl e)
      with less.prems(3) named p1 i1 show ?thesis by (auto simp: Initramfs_WriteRecord.simps [of wr r i] parent_def [symmetric])
    next
      case (Inr u)
      have "Dir (rel_name ?p) \<in> {''.'', ''/''} \<union> alreadyWritten (i_Writer i1)"
        using Dir_rel_name [OF less.prems(2)] i1 Inr by (auto simp: ram_ok_def)
      moreover obtain r2 w2 where w2: "Writer_WriteRecord wr r (i_Writer i1) = (r2, w2)" by fastforce
      ultimately have "archive_ok E w2 \<and> alreadyWritten w2 = insert (rel_name ?p) (alreadyWritten (i_Writer i1))"
        using i1 by (intro write_ok) (auto simp: ram_ok_def)
      then have "ram_ok E \<lparr>i_Writer = w2, i_files = insert ?p (i_files i1)\<rparr>"
        using i1 by (simp add: ram_ok_def subset_insertI2)
      with less.prems(3) named p1 Inr w2 show ?thesis
        by (auto simp: Initramfs_WriteRecord.simps [of wr r i] parent_def [symmetric])
    qed
  qed
qed

lemma children_loop_inv:
  assumes "\<And>n s res s'. P s \<Longrightarrow> fn n s = Some (res, s') \<Longrightarrow> P s'"
  shows "P s \<Longrightarrow> children_loop fn ns s = Some (res, s') \<Longrightarrow> P s'"
  by (induction ns arbitrary: s) (auto split: option.splits prod.splits sum.splits if_splits dest: assms)

lemma WriteFile_ok:
  "ram_ok E (snd s) \<Longrightarrow> clean_name dest \<Longrightarrow> Initramfs_WriteFile n v rd wr src dest s = Some (res, s') \<Longrightarrow> ram_ok E (snd s')"
proof (induction n arbitrary: src dest s res s')
  case (Suc n)
  obtain ino i where s: "s = (ino, i)" by (cases s)
  obtain g ino' where g: "GetRecord v src ino = (g, ino')" by (cases "GetRecord v src ino")
  show ?case
  proof (cases g)
    case (Inl e)
    with Suc.prems s g show ?thesis by auto
  next
    case (Inr r)
    show ?thesis
    proof (cases "Mode (rec_Info r) AND NOT 0x1FF = 0x4000")
      case True
      have "ram_ok E (snd s')" if "children_loop (\<lambda>name. Initramfs_WriteFile n v rd wr (Join [src, name]) (Join [dest, name])) ns (ino', i) = Some (res, s')" for ns
        by (rule children_loop_inv [of "\<lambda>s. ram_ok E (snd s)", OF _ _ that])
           (use Suc.IH [OF _ clean_name_Join] Suc.prems(1) s in auto)
      with True Suc.prems s g Inr show ?thesis by (auto simp: children_def split: sum.splits)
    next
      case False
      have "rec_Name (MakeReproducible (set_Name dest r)) = dest" by (simp add: MakeReproducible_def set_Name_def)
      with False Suc.prems s g Inr WriteRecord_ok [of E i "MakeReproducible (set_Name dest r)"] show ?thesis
        by (auto split: prod.splits)
    qed
  qed
qed simp

lemma WriteFiles_ok:
  "ram_ok E (snd s) \<Longrightarrow> Initramfs_WriteFiles n v rd wr srcDir destDir fs s = Some (res, s') \<Longrightarrow> ram_ok E (snd s')"
  by (induction fs arbitrary: s) (auto split: option.splits prod.splits sum.splits dest: WriteFile_ok [OF _ clean_name_Join])

lemma write_paths_ok:
  "ram_ok E (snd s) \<Longrightarrow> write_paths n e wr ps s = Some (res, s') \<Longrightarrow> ram_ok E (snd s')"
proof (induction ps arbitrary: s)
  case (Cons p ps)
  obtain root fs where p: "p = (root, fs)" by (cases p)
  show ?case
  proof (cases "Initramfs_WriteFiles n (ld_fs (bb_ldd e)) (bb_readdir e) wr root [] fs s")
    case (Some x)
    obtain r s1 where x: "x = (r, s1)" by (cases x)
    with Some Cons.prems(1) have "ram_ok E (snd s1)" by (auto dest: WriteFiles_ok)
    with Cons p Some x show ?thesis by (cases r) auto
  qed (use Cons.prems p in simp)
qed simp

lemma NewInitramfs_ok:
  assumes "log s = []" and "NewInitramfs wr (newArchive s) = Inr i"
  shows "ram_ok E i"
proof -
  have "archive_ok E (newArchive s)" using assms(1) by (simp add: archive_ok_def newArchive_def names_ok_def)
  from write_all_ok [OF this DevCPIO_ordered] assms(2) show ?thesis
    by (auto simp: NewInitramfs_def ram_ok_def split: prod.splits sum.splits)
qed

lemma finish_ok:
  assumes "ram_ok E i" "finish_archive wr i = (res, i')"
  shows "archive_ok E (i_Writer i')"
proof -
  have "Dir (rel_name (rec_Name TrailerRecord)) \<in> {''.'', ''/''}" by code_simp
  then show ?thesis using assms write_ok [of E "i_Writer i" TrailerRecord]
    by (auto simp: finish_archive_def WriteTrailer_def ram_ok_def split: prod.splits sum.splits)
qed

lemma Concat_ok:
  assumes "Concat wr rd (Some tr) r w = Some (res, w')" and "archive_ok E w" and "\<And>f. rec_Name (tr f) = rec_Name f"
    and "\<forall>f. yields rd r f \<longrightarrow> rel_name (rec_Name f) \<in> E"
  shows "archive_ok E w' \<and> alreadyWritten w \<subseteq> alreadyWritten w'"
proof -
  let ?P = "\<lambda>wr' rd t q v y. wr' = wr \<longrightarrow> t = Some tr \<longrightarrow> archive_ok E v \<longrightarrow>
    (\<forall>f. yields rd q f \<longrightarrow> rel_name (rec_Name f) \<in> E) \<longrightarrow> archive_ok E (snd y) \<and> alreadyWritten v \<subseteq> alreadyWritten (snd y)"
  have "?P wr rd (Some tr) r w (res, w')"
  proof (rule Concat.raw_induct [of ?P, OF _ assms(1)], intro impI)
    fix C wr' rd t q v y
    assume IH: "\<And>wr' rd t q v y. C wr' rd t q v = Some y \<Longrightarrow> ?P wr' rd t q v y"
      and y: "(case Reader_ReadRecord rd q of (Fail e, q') \<Rightarrow> Some (if e = EOF then Ret () else Fail e, v) | (Panic s, q') \<Rightarrow> Some (Panic s, v)
        | (Ret f, q') \<Rightarrow> (case Writer_WriteRecord wr' (case t of None \<Rightarrow> f | Some t \<Rightarrow> t f) v of
            (Inl e, v') \<Rightarrow> Some (Fail e, v') | (Inr _, v') \<Rightarrow> C wr' rd t q' v')) = Some y"
      and eq: "wr' = wr" "t = Some tr" and ok: "archive_ok E v" and E: "\<forall>f. yields rd q f \<longrightarrow> rel_name (rec_Name f) \<in> E"
    obtain out q' where q: "Reader_ReadRecord rd q = (out, q')" by fastforce
    show "archive_ok E (snd y) \<and> alreadyWritten v \<subseteq> alreadyWritten (snd y)"
    proof (cases out)
      case (Ret f)
      obtain x v1 where v1: "Writer_WriteRecord wr (tr f) v = (x, v1)" by fastforce
      have "rel_name (rec_Name (tr f)) \<in> E" using yields_first q Ret E assms(3) by metis
      from write_ok [OF ok disjI1 [OF this] v1]
      have ok1: "archive_ok E v1" "alreadyWritten v \<subseteq> alreadyWritten v1" by auto
      have more: "\<forall>f. yields rd q' f \<longrightarrow> rel_name (rec_Name f) \<in> E"
        using yields_later [of rd q f q'] q Ret E by blast
      show ?thesis
        using y eq q Ret v1 ok1 more IH [of wr' rd t q' v1 y] by (cases x) auto
    qed (use y ok q in auto)
  qed
  with assms(2,4) show ?thesis by simp
qed

lemma concat_archives_ok:
  "ram_ok E i \<Longrightarrow> extra_names e xs \<subseteq> E \<Longrightarrow> concat_archives e wr xs i = Some (res, i') \<Longrightarrow> ram_ok E i'"
proof (induction xs arbitrary: i)
  case (Cons x xs)
  show ?case
  proof (cases "bb_archive e x")
    case (Inr r)
    with Cons.prems(3) obtain c w where c: "Concat wr ReadRecord (Some MakeReproducible) r (i_Writer i) = Some (c, w)"
      by (auto split: option.splits)
    have "\<forall>f. yields ReadRecord r f \<longrightarrow> rel_name (rec_Name f) \<in> E"
      using Cons.prems(2) Inr by (auto simp: extra_names_def)
    from Concat_ok [OF c _ _ this] Cons.prems(1) have ok: "ram_ok E (i\<lparr>i_Writer := w\<rparr>)"
      by (auto simp: ram_ok_def MakeReproducible_def)
    have "extra_names e xs \<subseteq> E" using Cons.prems(2) by (auto simp: extra_names_def)
    from Cons.IH [OF ok this] ok Cons.prems(3) Inr c show ?thesis by (cases c) auto
  qed (use Cons.prems in auto)
qed simp

lemma initramfs_ok:
  assumes "log s = []" and "initramfs n e wr gopath goos arch extraAdd extraCpio s = Some (res, Some i)"
  shows "archive_ok (extra_names e (Fields extraCpio)) (i_Writer i)"
proof -
  let ?E = "extra_names e (Fields extraCpio)"
  have cat: "ram_ok ?E i'" if "concat_archives e wr (Fields extraCpio) j = Some (r, i')" "ram_ok ?E j" for j r i'
    using concat_archives_ok [OF that(2) order_refl that(1)] .
  have step: "ram_ok ?E i'" if "write_paths n e wr ps (ino, j) = Some (r, ino', i')" "ram_ok ?E j" for ps ino j r ino' i'
    using write_paths_ok [of ?E "(ino, j)"] that by auto
  have last: "archive_ok ?E (i_Writer i')" if "finish_archive wr j = (r, i')" "ram_ok ?E j" for j r i'
    using finish_ok that by blast
  have ok: "archive_ok ?E (i_Writer j)" if "ram_ok ?E j" for j using that by (simp add: ram_ok_def)
  from assms(2) show ?thesis unfolding initramfs_def
    by (auto split: option.splits prod.splits sum.splits outcome.splits
        dest!: NewInitramfs_ok [of _ _ ?E, OF assms(1)] intro: ok dest: cat step last)
qed

end

section \<open>The archive of a build\<close>

text \<open>Any record writer, with the list of the records it was given beside its state.\<close>

definition logged :: "'w record_writer \<Rightarrow> ('w \<times> Record list) record_writer" where
  "logged wr f s = (case wr f (fst s) of (res, w) \<Rightarrow> (res, w, snd s @ [f]))"

interpretation logged: record_log "logged wr" snd for wr
  by unfold_locales (simp add: logged_def split: prod.splits)

interpretation tape: record_log tape id
  by unfold_locales (simp add: tape_def)

text \<open>
  C32. The archive a build writes can be unpacked from front to back: whatever files, extra commands, libraries and
  extra archives go in, and whatever the record writer does, errors included, the records handed to it have relative
  names, no name comes twice, and the directory a name is in comes before the name -- for every name that
  is not the name of a record of an extra archive (\<^verbatim>\<open>-cpio\<close>), which are copied as they are; so without
  \<^verbatim>\<open>-cpio\<close> for all names.
\<close>

theorem initramfs_parents_first:
  assumes "initramfs n e (logged wr) gopath goos arch extraAdd extraCpio (w, []) = Some (res, Some i)"
  shows "let ns = map rec_Name (snd (rw (i_Writer i)))
    in distinct ns \<and> list_all (\<lambda>n. \<not> is_abs n) ns \<and> parents_first (extra_names e (Fields extraCpio)) ns \<and>
       (Fields extraCpio = [] \<longrightarrow> parents_first {} ns)"
  using logged.initramfs_ok [OF _ assms] by (auto simp: logged.archive_ok_def names_ok_def Let_def extra_names_def)

text \<open>A build with the binary, one command in a directory and one extra file in a directory that has to be made.\<close>

definition small_build :: bb_env where
  "small_build =
     (let st = (\<lambda>m. \<lparr>st_Dev = 1, st_Ino = 1, st_Nlink = 1, st_Mode = m, st_Uid = 0, st_Gid = 0, st_Rdev = 0, st_Size = 0, st_Mtim = 0\<rparr>);
          stat = (\<lambda>p. Inr (st (if p = ''/go/src/github.com/u-root/u-root/bb/bbsh/ubin'' then 0x41ED else 0x81A4)))
      in \<lparr>bb_Create = (\<lambda>_. None),
          bb_ldd = \<lparr>ld_fs = \<lparr>v_Lstat = stat, v_Readlink = (\<lambda>_. Inl (Errno ''EINVAL'')), v_Open = (\<lambda>_. Inr [])\<rparr>,
            ld_open = (\<lambda>_. Inr None), ld_list = (\<lambda>_ _. Inr []), ld_Glob = (\<lambda>_. Inr []), ld_range = id\<rparr>,
          bb_readdir = (\<lambda>_. Inr [''ls'']), bb_Stat = stat, bb_archive = (\<lambda>_. Inl (Errno ''ENOENT'')), bb_range = rev\<rparr>)"

lemma small_build_names:
  "map_option (map_prod id (map_option (\<lambda>i. map rec_Name (snd (rw (i_Writer i))))))
     (initramfs 2 small_build (logged (\<lambda>f w. (Inr (), w))) ''/go'' ''linux'' ''amd64'' ''/var/lib/x'' [] ((), [])) =
   Some (Ret (), Some [''tcz'', ''etc'', ''dev'', ''ubin'', ''usr'', ''usr/lib'', ''lib64'', ''bin'', ''dev/console'', ''dev/tty'', ''dev/null'',
     ''dev/port'', ''dev/urandom'', ''etc/resolv.conf'', ''etc/localtime'', ''var'', ''var/lib'', ''var/lib/x'', ''init'', ''ubin/ls'', ''TRAILER!!!''])"
  by code_simp

theorem initramfs_parents_first_witness:
  "\<exists>i. initramfs 2 small_build (logged (\<lambda>f w. (Inr (), w))) ''/go'' ''linux'' ''amd64'' ''/var/lib/x'' [] ((), []) = Some (Ret (), Some i) \<and>
    (let ns = map rec_Name (snd (rw (i_Writer i))) in parents_first {} ns \<and> distinct ns \<and> list_all (\<lambda>n. \<not> is_abs n) ns)"
proof -
  obtain i where i: "initramfs 2 small_build (logged (\<lambda>f w. (Inr (), w))) ''/go'' ''linux'' ''amd64'' ''/var/lib/x'' [] ((), []) = Some (Ret (), Some i)"
    using small_build_names by (auto simp: map_option_case split: option.splits)
  have "Fields [] = []" by (simp add: Fields_def runes.simps)
  with initramfs_parents_first [OF i] i show ?thesis by (auto simp: Let_def)
qed

section \<open>Enough fuel\<close>

text \<open>The tree below \<open>src\<close> has less than \<open>n\<close> levels of the directories that the builder enters.\<close>

fun within :: "nat \<Rightarrow> fs_view \<Rightarrow> (string \<Rightarrow> goerr + string list) \<Rightarrow> string \<Rightarrow> bool" where
  "within 0 v rd src = False"
| "within (Suc n) v rd src =
     (case v_Lstat v src of
        Inl _ \<Rightarrow> True
      | Inr st \<Rightarrow> (ucast (st_Mode st) :: u64) AND NOT 0x1FF = 0x4000 \<longrightarrow>
          (case rd src of Inl _ \<Rightarrow> True | Inr names \<Rightarrow> \<forall>name \<in> set names. within n v rd (Join [src, name])))"

lemma children_loop_total:
  "(\<And>n s. n \<in> set ns \<Longrightarrow> fn n s \<noteq> None) \<Longrightarrow> children_loop fn ns s \<noteq> None"
proof (induction ns arbitrary: s)
  case (Cons n ns)
  then obtain r s' where "fn n s = Some (r, s')" by fastforce
  with Cons show ?case by (cases r) auto
qed simp

lemma Mode_GetRecord:
  assumes "GetRecord v src ino = (Inr r, ino')"
  shows "\<exists>st. v_Lstat v src = Inr st \<and> Mode (rec_Info r) = ucast (st_Mode st)"
  using assms
  by (auto simp: GetRecord_def Let_def inode_def sysInfo_def StaticRecord_def split: sum.splits prod.splits if_splits option.splits)

lemma WriteFile_total: "within n v rd src \<Longrightarrow> Initramfs_WriteFile n v rd wr src dest s \<noteq> None"
proof (induction n arbitrary: src dest s)
  case (Suc n)
  obtain ino i where s: "s = (ino, i)" by (cases s)
  obtain g ino' where g: "GetRecord v src ino = (g, ino')" by (cases "GetRecord v src ino")
  show ?case
  proof (cases g)
    case (Inl e)
    with s g show ?thesis by simp
  next
    case (Inr r)
    from Mode_GetRecord g Inr obtain st where st: "v_Lstat v src = Inr st" "Mode (rec_Info r) = ucast (st_Mode st)" by blast
    show ?thesis
      using Suc s g Inr st children_loop_total [of _ "\<lambda>name. Initramfs_WriteFile n v rd wr (Join [src, name]) (Join [dest, name])"]
      by (auto simp: children_def split: sum.splits prod.splits)
  qed
qed simp

end
