(* ===== verification/Sort.thy ===== *)
theory Sort
  imports Go_Fs Go_Flag "HOL-Library.Multiset" "HOL-Library.List_Lexorder" "HOL-Library.Char_ord"
begin

text \<open>
  \<^verbatim>\<open>src/cmds/sort/sort.go\<close>: the lines of all files, sorted by their bytes. Two equal strings cannot be told
  apart, so \<^verbatim>\<open>sort.Strings\<close> has one possible result, the sorted list of HOL.
\<close>

record sort_flags =
  reverse :: bool
  outputFile :: string

definition sort_formal :: "sort_flags formal" where
  "sort_formal n =
     (if n = ''r'' then Some (bool_flag (\<lambda>b. reverse_update (\<lambda>_. b)))
      else if n = ''o'' then Some (string_flag (\<lambda>v. outputFile_update (\<lambda>_. v)))
      else None)"

text \<open>All files are opened before the first is read.\<close>

definition terminated :: "bytes \<Rightarrow> bytes" where
  "terminated s = (if s \<noteq> [] \<and> last s \<noteq> newline then s @ [newline] else s)"

fun read_contents :: "'w os_env \<Rightarrow> string list \<Rightarrow> 'w \<Rightarrow> (goerr + bytes)" where
  "read_contents os [] w = Inr []"
| "read_contents os (f # fs) w =
     (case os_read os f w of
        Inl e \<Rightarrow> Inl e
      | Inr s \<Rightarrow> map_sum id (\<lambda>rest. terminated s @ rest) (read_contents os fs w))"

definition readInput :: "'w os_env \<Rightarrow> (goerr + bytes) \<Rightarrow> string list \<Rightarrow> 'w \<Rightarrow> goerr + bytes" where
  "readInput os stdin args w =
     (if args = [] then map_sum id terminated stdin
      else case find (\<lambda>f. os_open os f w \<noteq> None) args of
             Some f \<Rightarrow> Inl (the (os_open os f w))
           | None \<Rightarrow> read_contents os args w)"

definition sortAlgorithm :: "sort_flags \<Rightarrow> bytes \<Rightarrow> bytes" where
  "sortAlgorithm f s =
     (if s = [] then []
      else
        let s = (if last s = newline then butlast s else s);
            lines = split_on newline s;
            lines = (if reverse f then rev (sort lines) else sort lines)
        in join_with [newline] lines @ [newline])"

text \<open>A write to standard output is the call \<open>Printf\<close> with the bytes and no arguments.\<close>

definition writeOutput :: "'w os_env \<Rightarrow> sort_flags \<Rightarrow> bytes \<Rightarrow> 'w \<Rightarrow> unit res \<times> 'w" where
  "writeOutput os f s w =
     (if outputFile f \<noteq> [] then
        (case os_kernel os (Create (outputFile f)) w of
           (Some _, w) \<Rightarrow> (Exit 1, w)
         | (None, w) \<Rightarrow> (Val (), snd (os_kernel os (CopyTo (outputFile f) s) w)))
      else os_printf os s [] w)"

definition sort_main :: "'w os_env \<Rightarrow> (goerr + bytes) \<Rightarrow> string list \<Rightarrow> 'w \<Rightarrow> unit res \<times> 'w" where
  "sort_main os stdin argv w =
     (case Parse sort_formal \<lparr>reverse = False, outputFile = []\<rparr> argv of
        Inl _ \<Rightarrow> (Exit 2, w)
      | Inr (f, args) \<Rightarrow>
          (case readInput os stdin args w of
             Inl _ \<Rightarrow> (Exit 1, w)
           | Inr s \<Rightarrow> writeOutput os f (sortAlgorithm f s) w))"

section \<open>What is printed\<close>

text \<open>The lines of a text, the last one with or without its newline.\<close>

definition lines_of :: "bytes \<Rightarrow> bytes list" where
  "lines_of s = (if s = [] then [] else split_on newline (if last s = newline then butlast s else s))"

definition print_lines :: "bytes list \<Rightarrow> bytes" where
  "print_lines ls = concat (map (\<lambda>l. l @ [newline]) ls)"

lemma join_print: "ls \<noteq> [] \<Longrightarrow> join_with [newline] ls @ [newline] = print_lines ls"
  by (induction "[newline]" ls rule: join_with.induct) (auto simp: print_lines_def)

lemma lines_of_print:
  assumes "\<forall>l \<in> set ls. newline \<notin> set l"
  shows "lines_of (print_lines ls) = ls"
proof (cases "ls = []")
  case False
  then have "lines_of (join_with [newline] ls @ [newline]) = ls"
    using split_join [of ls newline] assms by (simp add: lines_of_def)
  with join_print [OF False] show ?thesis by simp
qed (simp add: lines_of_def print_lines_def)

lemma lines_of_no_newline: "l \<in> set (lines_of s) \<Longrightarrow> newline \<notin> set l"
  by (auto simp: lines_of_def dest: split_elems_no_sep split: if_splits)

text \<open>
  The output of \<^verbatim>\<open>sort\<close> is a text of complete lines: the lines of the input, each as often as before, in
  ascending order of their bytes, or in descending order with \<^verbatim>\<open>-r\<close>.
\<close>

lemma sortAlgorithm_sorts:
  "\<exists>ls. sortAlgorithm f s = print_lines ls \<and> lines_of (sortAlgorithm f s) = ls \<and> mset ls = mset (lines_of s) \<and>
    sorted (if reverse f then rev ls else ls)"
proof -
  define ls where "ls = (if reverse f then rev (sort (lines_of s)) else sort (lines_of s))"
  have n: "\<forall>l \<in> set ls. newline \<notin> set l" by (auto simp: ls_def dest: lines_of_no_newline)
  have p: "sortAlgorithm f s = print_lines ls"
  proof (cases "s = []")
    case False
    then have "ls \<noteq> []" by (simp add: ls_def lines_of_def) (metis length_0_conv length_sort split_on_nonempty)
    moreover have "sortAlgorithm f s = join_with [newline] ls @ [newline]"
      using False by (simp add: sortAlgorithm_def ls_def lines_of_def Let_def)
    ultimately show ?thesis using join_print by simp
  qed (simp add: sortAlgorithm_def ls_def lines_of_def print_lines_def)
  show ?thesis using lines_of_print [OF n] p by (auto simp: ls_def)
qed

text \<open>The separator that is added to a file without a final newline keeps lines of different files apart.\<close>

lemma lines_of_append:
  assumes "s = [] \<or> last s = newline"
  shows "lines_of (s @ t) = lines_of s @ lines_of t"
proof (cases "s = [] \<or> t = []")
  case False
  then obtain s' where s: "s = s' @ [newline]" using assms by (cases s rule: rev_cases) auto
  have "split_on newline (s' @ newline # u) = split_on newline s' @ split_on newline u" for u
    by (induction s') (auto split: list.splits)
  with False s show ?thesis by (auto simp: lines_of_def butlast_append)
qed (auto simp: lines_of_def)

lemma lines_of_terminated: "lines_of (terminated s) = lines_of s"
  by (auto simp: terminated_def lines_of_def)

text \<open>
  C40. \<^verbatim>\<open>sort file...\<close> prints the lines of all files: when every file can be read, the standard output is a text of
  complete lines that has each line as often as all the files together, in ascending order of the bytes. A last line
  without a newline stays a line of its own.
\<close>

theorem sort_prints_sorted_lines:
  assumes "args \<noteq> []" "\<forall>a \<in> set args. operand a"
    and "\<forall>a \<in> set args. os_open os a w = None \<and> os_read os a w = Inr (content a)"
  shows "\<exists>ls. sort_main os stdin args w = os_printf os (print_lines ls) [] w \<and> sorted ls \<and>
    mset ls = mset (concat (map (lines_of \<circ> content) args))"
proof -
  let ?f = "\<lparr>reverse = False, outputFile = []\<rparr>"
  have p: "Parse sort_formal ?f args = Inr (?f, args)" using assms(1,2) by (cases args) (auto intro: Parse_done simp: operand_def)
  have o: "find (\<lambda>f. os_open os f w \<noteq> None) args = None" using assms(3) by (auto simp: find_None_iff)
  have c: "\<forall>a \<in> set as. os_read os a w = Inr (content a) \<Longrightarrow> read_contents os as w = Inr (concat (map (terminated \<circ> content) as))" for as
    by (induction as) auto
  let ?s = "concat (map (terminated \<circ> content) args)"
  have r: "readInput os stdin args w = Inr ?s" using assms(1,3) o c by (simp add: readInput_def)
  have l: "lines_of ?s = concat (map (lines_of \<circ> content) args)"
  proof (induction args)
    case (Cons a as)
    have "terminated (content a) = [] \<or> last (terminated (content a)) = newline" by (auto simp: terminated_def)
    with Cons lines_of_append [of "terminated (content a)"] show ?case by (simp add: lines_of_terminated)
  qed (simp add: lines_of_def)
  obtain ls where "sortAlgorithm ?f ?s = print_lines ls" "mset ls = mset (lines_of ?s)" "sorted ls"
    using sortAlgorithm_sorts [of ?f ?s] by auto
  with p r l show ?thesis by (auto simp: sort_main_def writeOutput_def)
qed

definition two_texts :: "call list os_env" where
  "two_texts =
     \<lparr>os_kernel = log_kernel {}, os_stat = (\<lambda>_ _. Inl (Errno ''ENOENT'')), os_lstat = (\<lambda>_ _. Inl (Errno ''ENOENT'')),
      os_readlink = (\<lambda>_ _. Inl (Errno ''EINVAL'')), os_readdir = (\<lambda>_ _. Inr []), os_open = (\<lambda>_ _. None),
      os_read = (\<lambda>p _. Inr (if p = ''a'' then ''pear'' else ''fig'' @ [newline] @ ''apple'' @ [newline])),
      os_getwd = (\<lambda>_. Inr ''/''), os_input = (\<lambda>w. (Inl EOF, w))\<rparr>"

theorem sort_prints_sorted_lines_witness:
  "\<exists>ls. sort_main two_texts (Inl EOF) [''a'', ''b''] [] = os_printf two_texts (print_lines ls) [] [] \<and> sorted ls \<and>
    mset ls = mset [''pear'', ''fig'', ''apple'']"
proof -
  let ?c = "\<lambda>p. if p = ''a'' then ''pear'' else ''fig'' @ [newline] @ ''apple'' @ [newline]"
  have c: "concat (map (lines_of \<circ> ?c) [''a'', ''b'']) = [''pear'', ''fig'', ''apple'']" by (simp add: lines_of_def)
  show ?thesis unfolding c [symmetric]
    by (rule sort_prints_sorted_lines) (simp_all add: two_texts_def operand_def)
qed

end
