(* ===== verification/Sys_Cmds.thy ===== *)
theory Sys_Cmds
  imports Go_Fs Go_Flag
begin

unbundle bit_operations_syntax

text \<open>
  Commands that are one decision in front of a system call: \<^verbatim>\<open>kill\<close>, \<^verbatim>\<open>insmod\<close> and \<^verbatim>\<open>rmmod\<close> over
  \<^verbatim>\<open>src/pkg/kmodule\<close>, \<^verbatim>\<open>mount\<close>, \<^verbatim>\<open>umount\<close>, \<^verbatim>\<open>mknod\<close> and \<^verbatim>\<open>truncate\<close>. Messages on
  standard error are left out; \<open>argv\<close> is \<^verbatim>\<open>os.Args[1:]\<close>.
\<close>

section \<open>kill\<close>

definition signames :: "string list" where
  "signames = [
     ''SIGHUP'', ''SIGINT'', ''SIGQUIT'', ''SIGILL'', ''SIGTRAP'', ''SIGABRT'', ''SIGBUS'', ''SIGFPE'', ''SIGKILL'',
     ''SIGUSR1'', ''SIGSEGV'', ''SIGUSR2'', ''SIGPIPE'', ''SIGALRM'', ''SIGTERM'', ''SIGSTKFLT'', ''SIGCHLD'',
     ''SIGCONT'', ''SIGSTOP'', ''SIGTSTP'', ''SIGTTIN'', ''SIGTTOU'', ''SIGURG'', ''SIGXCPU'', ''SIGXFSZ'',
     ''SIGVTALRM'', ''SIGPROF'', ''SIGWINCH'', ''SIGIO'', ''SIGPWR'', ''SIGSYS'', ''SIGRTMIN'', ''SIGRTMIN+1'',
     ''SIGRTMIN+2'', ''SIGRTMIN+3'', ''SIGRTMIN+4'', ''SIGRTMIN+5'', ''SIGRTMIN+6'', ''SIGRTMIN+7'', ''SIGRTMIN+8'',
     ''SIGRTMIN+9'', ''SIGRTMIN+10'', ''SIGRTMIN+11'', ''SIGRTMIN+12'', ''SIGRTMIN+13'', ''SIGRTMIN+14'',
     ''SIGRTMIN+15'', ''SIGRTMAX-14'', ''SIGRTMAX-13'', ''SIGRTMAX-12'', ''SIGRTMAX-11'', ''SIGRTMAX-10'',
     ''SIGRTMAX-9'', ''SIGRTMAX-8'', ''SIGRTMAX-7'', ''SIGRTMAX-6'', ''SIGRTMAX-5'', ''SIGRTMAX-4'', ''SIGRTMAX-3'',
     ''SIGRTMAX-2'', ''SIGRTMAX-1'', ''SIGRTMAX'']"

definition numbers :: "nat list" where
  "numbers = [1..<32] @ [34..<65]"

definition signums :: "(string \<times> nat) list" where
  "signums = zip signames numbers @ map (\<lambda>n. (Itoa (int n), n)) numbers"

definition siglist :: string where
  "siglist = concat (map (\<lambda>i. Itoa (int i) @ '': '' @ signames ! i @ [newline]) [0..<length signames])"

fun kill :: "'w kernel \<Rightarrow> nat \<Rightarrow> string list \<Rightarrow> 'w \<Rightarrow> goerr list \<times> 'w" where
  "kill k s [] w = ([], w)"
| "kill k s (p # ps) w =
     (case Atoi p of
        Inl _ \<Rightarrow> apfst ((#) (Errorf ''%v: arguments must be process or job IDS'')) (kill k s ps w)
      | Inr pid \<Rightarrow>
          (case k (Kill pid s) w of
             (None, w) \<Rightarrow> kill k s ps w
           | (Some err, w) \<Rightarrow> apfst ((#) err) (kill k s ps w)))"

definition kill_main :: "'w os_env \<Rightarrow> string list \<Rightarrow> 'w \<Rightarrow> unit res \<times> 'w" where
  "kill_main os argv w =
     (case argv of
        [] \<Rightarrow> (Crash ''index out of range'', w)
      | [] # _ \<Rightarrow> (Crash ''index out of range'', w)
      | arg # rest \<Rightarrow>
          let (op, pids) = (if hd arg \<noteq> CHR ''-'' then (''-SIGTERM'', argv) else (arg, rest))
          in if length op < 2 then (Crash ''slice bounds out of range'', w)
             else if take 2 op = ''-l'' then
               (if rest \<noteq> [] then (Exit 1, w) else (Exit 1, snd (os_kernel os (Printf siglist []) w)))
             else if op \<in> {''-s'', ''--signal''} \<and> rest = [] then (Exit 1, w)
             else
               let (op, pids) = (if op \<in> {''-s'', ''--signal''} then (hd rest, tl rest) else (tl op, pids))
               in case map_of signums op of
                    None \<Rightarrow> (Exit 1, w)
                  | Some s \<Rightarrow>
                      if pids = [] then (Exit 1, w)
                      else (case kill (os_kernel os) s pids w of (errs, w) \<Rightarrow> (if errs = [] then Val () else Exit 1, w)))"

text \<open>Every operand that is a number is signalled, in order, also behind one that fails; success means that all were.\<close>

definition pids_of :: "string list \<Rightarrow> int list" where
  "pids_of ps = concat (map (\<lambda>p. case Atoi p of Inl _ \<Rightarrow> [] | Inr i \<Rightarrow> [i]) ps)"

lemma kill_signals_all:
  "\<exists>errs. kill (log_kernel bad) s ps w = (errs, w @ map (\<lambda>i. Kill i s) (pids_of ps)) \<and>
    (errs = [] \<longleftrightarrow> (\<forall>p \<in> set ps. \<exists>i. Atoi p = Inr i \<and> Kill i s \<notin> bad))"
proof (induction ps arbitrary: w)
  case (Cons p ps)
  show ?case
  proof (cases "Atoi p")
    case (Inl e)
    with Cons [of w] show ?thesis by (auto simp: pids_of_def)
  next
    case (Inr i)
    with Cons [of "w @ [Kill i s]"] show ?thesis by (auto simp: pids_of_def log_kernel_def)
  qed
qed (simp add: pids_of_def)

lemma kill_default: "map_of signums ''SIGTERM'' = Some 15" "map_of signums ''15'' = Some 15"
  by code_simp+

section \<open>Kernel modules\<close>

definition BytePtrFromString :: "string \<Rightarrow> bool" where
  "BytePtrFromString s \<longleftrightarrow> CHR 0x00 \<notin> set s"

definition Init :: "'w kernel \<Rightarrow> bytes \<Rightarrow> string \<Rightarrow> 'w \<Rightarrow> goerr option res \<times> 'w" where
  "Init k img opts w =
     (if \<not> BytePtrFromString opts then (Val (Some (Errorf ''kmodule.Init: could not convert %q to C string: %v'')), w)
      else if img = [] then (Crash ''index out of range'', w)
      else case k (InitModule img opts) w of
             (Some _, w) \<Rightarrow> (Val (Some (Errorf ''init_module(%v, %q) failed with %v'')), w)
           | (None, w) \<Rightarrow> (Val None, w))"

definition FileInit :: "'w os_env \<Rightarrow> string \<Rightarrow> string \<Rightarrow> nat \<Rightarrow> 'w \<Rightarrow> goerr option res \<times> 'w" where
  "FileInit os f opts flags w =
     (if \<not> BytePtrFromString opts then (Val (Some (Errorf ''kmodule.Init: could not convert %q to C string: %v'')), w)
      else case os_kernel os (FinitModule f opts flags) w of
        (None, w) \<Rightarrow> (Val None, w)
      | (Some e, w) \<Rightarrow>
          if e = Errno ''ENOSYS'' then
            (if flags \<noteq> 0 then (Val (Some (Errorf ''finit_module unavailable'')), w)
             else (case os_read os f w of
                     Inl _ \<Rightarrow> (Val (Some (Errorf ''kmodule.FileInit: %v'')), w)
                   | Inr img \<Rightarrow> Init (os_kernel os) img opts w))
          else (Val (Some (Errorf ''finit_module(%v, %q, %#x) failed with %v'')), w))"

definition Delete :: "'w kernel \<Rightarrow> string \<Rightarrow> nat \<Rightarrow> 'w \<Rightarrow> goerr option \<times> 'w" where
  "Delete k name flags w =
     (if \<not> BytePtrFromString name then (Some (Errorf ''could not delete module %q: %v''), w)
      else case k (DeleteModule name flags) w of
             (Some _, w) \<Rightarrow> (Some (Errorf ''could not delete module %q: %v''), w)
           | (None, w) \<Rightarrow> (None, w))"

definition fatal_on :: "goerr option res \<times> 'w \<Rightarrow> unit res \<times> 'w" where
  "fatal_on r = then_do r (\<lambda>err w. (if err = None then Val () else Exit 1, w))"

definition insmod_main :: "'w os_env \<Rightarrow> string list \<Rightarrow> 'w \<Rightarrow> unit res \<times> 'w" where
  "insmod_main os argv w =
     (case argv of
        [] \<Rightarrow> (Exit 1, w)
      | filename # opts \<Rightarrow>
          if os_open os filename w \<noteq> None then (Exit 1, w)
          else fatal_on (FileInit os filename (join_with '' '' opts) 0 w))"

fun rmmod_loop :: "'w kernel \<Rightarrow> string list \<Rightarrow> 'w \<Rightarrow> unit res \<times> 'w" where
  "rmmod_loop k [] w = (Val (), w)"
| "rmmod_loop k (m # ms) w =
     (case Delete k m 0x800 w of (Some _, w) \<Rightarrow> (Exit 1, w) | (None, w) \<Rightarrow> rmmod_loop k ms w)"

definition rmmod_main :: "'w kernel \<Rightarrow> string list \<Rightarrow> 'w \<Rightarrow> unit res \<times> 'w" where
  "rmmod_main k argv w = (if argv = [] then (Exit 1, w) else rmmod_loop k argv w)"

text \<open>
  The fallback: on a kernel without \<^verbatim>\<open>finit_module\<close> the module is read and loaded with \<^verbatim>\<open>init_module\<close>, with the
  same options.
\<close>

lemma insmod_fallback:
  assumes "os_open os f w = None" "CHR 0x00 \<notin> set (join_with '' '' opts)"
    and "os_kernel os (FinitModule f (join_with '' '' opts) 0) w = (Some (Errno ''ENOSYS''), w1)"
    and "os_read os f w1 = Inr img" "img \<noteq> []" "os_kernel os (InitModule img (join_with '' '' opts)) w1 = (err, w2)"
  shows "insmod_main os (f # opts) w = (if err = None then Val () else Exit 1, w2)"
  using assms by (cases err) (simp_all add: insmod_main_def FileInit_def Init_def BytePtrFromString_def fatal_on_def)

lemma rmmod_stops: "rmmod_loop (log_kernel {DeleteModule m 0x800}) ms w =
    (if m \<in> set ms then Exit 1 else Val (), w @ map (\<lambda>n. DeleteModule n 0x800)
       (let b = takeWhile (\<lambda>n. n \<noteq> m) ms in b @ (if m \<in> set ms then [m] else [])))"
  if "\<forall>n \<in> set ms. CHR 0x00 \<notin> set n"
  using that by (induction ms arbitrary: w) (auto simp: Delete_def BytePtrFromString_def log_kernel_def Let_def)

section \<open>mount and umount\<close>

record mount_flags =
  ro :: bool
  fsType :: string
  mdata :: string

definition mount_formal :: "mount_flags formal" where
  "mount_formal n =
     (if n = ''r'' then Some (bool_flag (\<lambda>b. ro_update (\<lambda>_. b)))
      else if n = ''t'' then Some (string_flag (\<lambda>v. fsType_update (\<lambda>_. v)))
      else if n = ''o'' then Some (string_flag (\<lambda>v. mdata_update (\<lambda>_. v)))
      else None)"

definition mount_main :: "'w os_env \<Rightarrow> string list \<Rightarrow> 'w \<Rightarrow> unit res \<times> 'w" where
  "mount_main os argv w =
     (case Parse mount_formal \<lparr>ro = False, fsType = [], mdata = []\<rparr> argv of
        Inl _ \<Rightarrow> (Exit 2, w)
      | Inr (f, a) \<Rightarrow>
          if length a < 2 then (Exit 1, w)
          else fatal_on (os_do os (Mount (a ! 0) (a ! 1) (fsType f) (if ro f then 0xC0ED0000 OR 1 else 0xC0ED0000) (mdata f)) w))"

record umount_flags =
  uforce :: bool
  lazy :: bool

definition umount_formal :: "umount_flags formal" where
  "umount_formal n =
     (if n = ''f'' then Some (bool_flag (\<lambda>b. uforce_update (\<lambda>_. b)))
      else if n = ''l'' then Some (bool_flag (\<lambda>b. lazy_update (\<lambda>_. b)))
      else None)"

definition umount_main :: "'w os_env \<Rightarrow> string list \<Rightarrow> 'w \<Rightarrow> unit res \<times> 'w" where
  "umount_main os argv w =
     (case Parse umount_formal \<lparr>uforce = False, lazy = False\<rparr> argv of
        Inl _ \<Rightarrow> (Exit 2, w)
      | Inr (f, a) \<Rightarrow>
          if length a \<noteq> 1 then (Exit 1, w)
          else if uforce f \<and> lazy f then (Exit 1, w)
          else let flags = 8; flags = (if uforce f then flags OR 1 else flags); flags = (if lazy f then flags OR 2 else flags)
               in fatal_on (os_do os (Unmount (a ! 0) flags) w))"

text \<open>\<^verbatim>\<open>umount\<close> never follows a link at the end of the path, and never forces and detaches at once.\<close>

lemma umount_calls:
  assumes "umount_main os argv w = (Val (), w')"
  shows "\<exists>p. \<exists>flags \<in> {8, 9, 10}. os_kernel os (Unmount p flags) w = (None, w')"
  using assms
  by (auto simp: umount_main_def Let_def fatal_on_def os_do_def then_do_Val_iff split: sum.splits prod.splits if_splits)

section \<open>mknod\<close>

definition parseDevices :: "string list \<Rightarrow> goerr + int" where
  "parseDevices args =
     (if length args \<noteq> 4 then Inl (Errorf ''device type %v requires a major and minor number'')
      else case ParseUint 10 8 (args ! 2) of
             Inl err \<Rightarrow> Inl err
           | Inr major \<Rightarrow>
               (case ParseUint 10 8 (args ! 3) of
                  Inl err \<Rightarrow> Inl err
                | Inr minor \<Rightarrow> Inr (int (push_bit 8 major OR minor))))"

definition mknod :: "'w os_env \<Rightarrow> string list \<Rightarrow> 'w \<Rightarrow> goerr option res \<times> 'w" where
  "mknod os a w =
     (if length a \<noteq> 2 \<and> length a \<noteq> 4 then (Val (Some (Errorf ''Usage: mknod path type [major minor]'')), w)
      else
        let path = a ! 0; devtype = a ! 1;
            make = (\<lambda>mode dev. case os_kernel os (Mknod path (0x1B0 OR mode) dev) w of
                      (Some _, w) \<Rightarrow> (Val (Some (Errorf ''mknod :%s: mode %x: %v'')), w) | (None, w) \<Rightarrow> (Val None, w));
            device = (\<lambda>mode. case parseDevices a of Inl err \<Rightarrow> (Val (Some err), w) | Inr dev \<Rightarrow> make mode dev)
        in if devtype = ''b'' then device 0x6000
           else if devtype = ''c'' \<or> devtype = ''u'' then device 0x2000
           else if devtype = ''p'' then
             (if length a \<noteq> 2 then (Val (Some (Errorf ''device type %v requires no other arguments'')), w) else make 0x1000 0)
           else (Val (Some (Errorf ''device type not recognized: %v'')), w))"

definition mknod_main :: "'w os_env \<Rightarrow> string list \<Rightarrow> 'w \<Rightarrow> unit res \<times> 'w" where
  "mknod_main os argv w =
     (case Parse (\<lambda>_. None) () argv of
        Inl _ \<Rightarrow> (Exit 2, w)
      | Inr (_, a) \<Rightarrow> fatal_on (mknod os a w))"

section \<open>truncate\<close>

record truncate_flags =
  no_create :: bool
  sizeStr :: string

definition truncate_formal :: "truncate_flags formal" where
  "truncate_formal n =
     (if n = ''c'' then Some (bool_flag (\<lambda>b. no_create_update (\<lambda>_. b)))
      else if n = ''s'' then Some (string_flag (\<lambda>v. sizeStr_update (\<lambda>_. v)))
      else None)"

text \<open>
  The size of one file. When \<^verbatim>\<open>Stat\<close> failed, \<^verbatim>\<open>st\<close> is nil, and a relative size dereferences it.
\<close>

definition truncate_to :: "'w os_env \<Rightarrow> truncate_flags \<Rightarrow> int \<Rightarrow> string \<Rightarrow> (goerr + Stat_t) \<Rightarrow> 'w \<Rightarrow> unit res \<times> 'w" where
  "truncate_to os f want fname st w =
     (let relative = hd (sizeStr f) \<in> {CHR ''+'', CHR ''-''};
          clip = (\<lambda>final. (Val (), snd (os_kernel os (Truncate fname (if final < 0 then 0 else final)) w)))
      in if relative then
           (case st of
              Inl _ \<Rightarrow> (Crash ''nil pointer dereference'', w)
            | Inr s \<Rightarrow> clip (wrap64 (sint (st_Size s) + want)))
         else clip want)"

definition truncate_one :: "'w os_env \<Rightarrow> truncate_flags \<Rightarrow> int \<Rightarrow> string \<Rightarrow> 'w \<Rightarrow> unit res \<times> 'w" where
  "truncate_one os f want fname w =
     (case os_stat os fname w of
        Inl e \<Rightarrow>
          if IsNotExist e \<and> \<not> no_create f then
            (case os_kernel os (WriteFile fname [] 0x1A4) w of
               (Some _, w) \<Rightarrow> (Exit 1, w)
             | (None, w) \<Rightarrow>
                 (case os_stat os fname w of
                    Inl _ \<Rightarrow> (Exit 1, w)
                  | Inr st \<Rightarrow> truncate_to os f want fname (Inr st) w))
          else truncate_to os f want fname (Inl e) w
      | Inr st \<Rightarrow> truncate_to os f want fname (Inr st) w)"

fun truncate_loop :: "'w os_env \<Rightarrow> truncate_flags \<Rightarrow> int \<Rightarrow> string list \<Rightarrow> 'w \<Rightarrow> unit res \<times> 'w" where
  "truncate_loop os f want [] w = (Val (), w)"
| "truncate_loop os f want (n # ns) w = then_do (truncate_one os f want n w) (\<lambda>_. truncate_loop os f want ns)"

definition truncate_main :: "'w os_env \<Rightarrow> string list \<Rightarrow> 'w \<Rightarrow> unit res \<times> 'w" where
  "truncate_main os argv w =
     (case Parse truncate_formal \<lparr>no_create = False, sizeStr = []\<rparr> argv of
        Inl _ \<Rightarrow> (Exit 2, w)
      | Inr (f, files) \<Rightarrow>
          if files = [] then (Exit 1, w)
          else (case ParseInt 10 64 (sizeStr f) of
                  Inl _ \<Rightarrow> (Exit 1, w)
                | Inr want \<Rightarrow> truncate_loop os f want files w))"

text \<open>Shrinking a file by more than its size empties it, and the size asked for is never negative.\<close>

lemma truncate_one_size:
  assumes "os_stat os fname w = Inr st" "hd (sizeStr f) = CHR ''-''" "want \<le> 0" "- (2 ^ 63) \<le> want" "0 \<le> sint (st_Size st)"
  shows "truncate_one os f want fname w =
    (Val (), snd (os_kernel os (Truncate fname (max 0 (sint (st_Size st) + want))) w))"
proof -
  have "sint (st_Size st) < 2 ^ 63" using sint_lt [of "st_Size st"] by simp
  then have "wrap64 (sint (st_Size st) + want) = sint (st_Size st) + want"
    using assms(3-5) by (intro wrap64_small) simp_all
  with assms(1,2) show ?thesis by (simp add: truncate_one_def truncate_to_def Let_def max_def)
qed

end
