(* ===== verification/Spec2Isabelle.thy ===== *)
theory Spec2Isabelle
  imports Cpio_Fs Gpt Fmap Rush Ed Dd_Props Wc Uniq Cmp Comm Field Cp Ln File_Cmds Tcz Pci Ectool Ip Grep Stty Switch_Root Vboot Ldd Ramfs Sort Sys_Cmds
begin

text \<open>
  A verification library for u-root, a root file system whose commands are written in Go.

  \<^bold>\<open>The program.\<close> The repository holds about ninety commands (\<^verbatim>\<open>src/cmds\<close>), the packages they share
  (\<^verbatim>\<open>src/pkg\<close>) and the builders that put commands into an initial file system (\<^verbatim>\<open>src/bb\<close>,
  \<^verbatim>\<open>src/scripts\<close>). A command is a process: it parses its flags, reads files and standard input, makes system
  calls, prints and exits. The parts meet in three places. The builder asks \<^verbatim>\<open>ldd\<close> for libraries, hands files to
  \<^verbatim>\<open>ramfs\<close>, which adds the directories and writes records with \<^verbatim>\<open>cpio\<close> in the newc format. The boot path is
  \<^verbatim>\<open>vboot\<close> or \<^verbatim>\<open>switch_root\<close>. And the shell \<^verbatim>\<open>rush\<close> starts everything else.

  \<^bold>\<open>How Go is modelled.\<close> Bytes and strings are \<open>string\<close>, fixed-width integers are words, \<^verbatim>\<open>int\<close> is
  \<open>int\<close> with \<open>wrap64\<close> where it can overflow. Errors are \<open>goerr\<close>. A function that can panic returns an
  \<open>outcome\<close> (\<open>Ret\<close>, \<open>Fail\<close>, \<open>Panic\<close>); a piece of a command that can end the process returns a
  \<open>res\<close> (\<open>Val\<close>, \<open>Exit\<close>, \<open>Crash\<close>), and \<open>log.Fatal\<close> is one of these. A system call is a value of
  \<open>call\<close>, the kernel a parameter from a call and a world to an error and a world; what a command reads of the file
  system is the record \<open>os_env\<close>, or \<open>fs_view\<close> for the archives. Goroutines are program counters in a state
  record with one step function each; an inductive step relation interleaves them. Go's random order of iteration
  over a map is a parameter: a list with the same elements. Third-party packages and the kernel are parameters, and what
  is used of them is a hypothesis or a locale.

  \<^bold>\<open>The library theories.\<close>
  \<^item> \<open>Prelude\<close>: errors, outcomes, wrap-around, little-endian words, the locales \<open>codec\<close> and
    \<open>exact_codec\<close> of fixed-size layouts, interpreted by the headers of newc, gpt and fmap.
  \<^item> \<open>Go_Strings\<close>, \<open>Go_Path\<close>, \<open>Go_Strconv\<close>, \<open>Go_Flag\<close>, \<open>Go_Io\<close>: the standard library as far as it
    is used: splitting, lines, UTF-8, \<^verbatim>\<open>filepath\<close>, integers in a base, the flag parser, readers and writers with
    the contracts \<open>byte_source\<close> and \<open>byte_sink\<close>.
  \<^item> \<open>Go_Os\<close>, \<open>Go_Fs\<close>: calls, modes, \<open>os_env\<close>, \<open>EvalSymlinks\<close>, \<open>Walk\<close>.

  \<^bold>\<open>The components.\<close> Definitions keep the names of the functions they model.
  \<^item> \<open>Cpio_Types\<close>, \<open>Newc\<close>, \<open>Cpio\<close>, \<open>Cpio_Fs\<close> (\<^verbatim>\<open>src/pkg/cpio\<close>, \<^verbatim>\<open>src/cmds/cpio\<close>): the
    locale \<open>record_format\<close> is what \<^verbatim>\<open>cpio.go\<close> needs of a format, and newc is shown to provide it. An archive is
    read back as it was written, extraction makes exactly the planned calls, and inode numbers do not
    depend on the host, while the fields \<^verbatim>\<open>Major\<close> and \<^verbatim>\<open>Minor\<close> keep its devices.
  \<^item> \<open>Ldd\<close> (\<^verbatim>\<open>src/pkg/ldd\<close>), \<open>Ramfs\<close> (\<^verbatim>\<open>src/pkg/ramfs\<close>, \<^verbatim>\<open>src/bb/ramfs.go\<close>): the list of
    libraries is closed under links; the archive of a build has each directory before what is in it, records of extra
    archives apart.
  \<^item> \<open>Gpt\<close> (\<^verbatim>\<open>src/pkg/gpt\<close>, \<^verbatim>\<open>src/cmds/gpt\<close>), \<open>Fmap\<close> (\<^verbatim>\<open>src/cmds/fmap\<close>): partition tables and
    flash maps are read back as written; what is accepted has the format constants and checksums.
  \<^item> \<open>Rush\<close> (\<^verbatim>\<open>src/cmds/rush\<close>): lexer, parser and the runner of a line; parsing cannot make the runner panic;
    inputs on which the reader runs for ever.
  \<^item> \<open>Ed\<close> (\<^verbatim>\<open>src/cmds/ed\<close>): the text and the binary editor behind the contract \<open>editor_contract\<close>; commands
    act on the list of lines.
  \<^item> \<open>Dd\<close>, \<open>Dd_Props\<close> (\<^verbatim>\<open>src/cmds/dd\<close>): two goroutines, a pool and chunked buffers; the copy ends in every
    interleaving with the converted input in the sink.
  \<^item> \<open>Wc\<close>, \<open>Uniq\<close>, \<open>Cmp\<close>, \<open>Comm\<close>, \<open>Field\<close>, \<open>Sort\<close>, \<open>Grep\<close>: the text commands, each
    against a description of its output in terms of lines. \<open>Grep\<close> has one goroutine per file and a
    counter that they all update without synchronisation, in separate loads and stores.
  \<^item> \<open>Cp_Workers\<close>, \<open>Cp\<close>, \<open>Ln\<close>, \<open>File_Cmds\<close>: file commands. The parallel copy is a step relation with the
    contract \<open>reliable_files\<close>; \<^verbatim>\<open>cp -R\<close> makes exactly the calls that build the tree, where the
    source does not change meanwhile; \<open>cp_into_itself\<close> is the case where it does.
  \<^item> \<open>Tcz\<close> (\<^verbatim>\<open>src/cmds/tcz\<close>): the packages downloaded are the ones reachable, on every graph.
  \<^item> \<open>Pci\<close>, \<open>Ectool\<close>, \<open>Ip\<close>, \<open>Stty\<close>: hardware and network. The name lookup against the table (comments, blank
    lines, vendors, devices, subsystems, then classes), the LPC
    protocol, the grammar of \<^verbatim>\<open>ip\<close> against its netlink requests, the terminal options over a \<open>tty_device\<close>.
  \<^item> \<open>Vboot\<close>, \<open>Switch_Root\<close>: the boot path. What has been checked when \<^verbatim>\<open>kexec\<close> runs; what is deleted.
  \<^item> \<open>Sys_Cmds\<close>: \<^verbatim>\<open>kill\<close>, \<^verbatim>\<open>insmod\<close>, \<^verbatim>\<open>rmmod\<close>, \<^verbatim>\<open>mount\<close>, \<^verbatim>\<open>umount\<close>, \<^verbatim>\<open>mknod\<close> and
    \<^verbatim>\<open>truncate\<close>.

  \<^bold>\<open>Loops, bounds and fuel.\<close> Loops over data are structural. Loops that the code may not leave are
  \<^theory_text>\<open>partial_function\<close> in the option monad, with \<open>None\<close> for a run that does not end: the readers of records, the
  shell, \<open>follow\<close>, \<open>write_loop\<close>; that they return is proved where they do. Recursion over a directory tree takes fuel,
  the depth of the tree: \<open>Walk\<close>, \<open>copyFile\<close>, \<open>littleDoctor\<close>, \<open>Initramfs_WriteFile\<close>. That a depth is enough is shown by
  \<open>copyFile_tree\<close>, \<open>littleDoctor_total\<close> and \<open>WriteFile_total\<close>. Step relations have a measure that bounds the number of steps.

  \<^bold>\<open>Not modelled.\<close> The table of PCI names (29600 lines of one string constant) is a parameter of its lookup, and
  the constants and structures of \<^verbatim>\<open>ectool/commands.go\<close> that no code refers to are left out. \<^verbatim>\<open>bb.go\<close>
  rewrites Go syntax trees, and \<^verbatim>\<open>builtin\<close>, \<^verbatim>\<open>run\<close>, \<^verbatim>\<open>init\<close>, \<^verbatim>\<open>installcommand\<close> and
  \<^verbatim>\<open>scripts/ramfs.go\<close> run the Go tool chain: a model would be one of the Go front end. \<^verbatim>\<open>ps\<close>, \<^verbatim>\<open>id\<close>,
  \<^verbatim>\<open>ls\<close>, \<^verbatim>\<open>date\<close>, \<^verbatim>\<open>seq\<close> and \<^verbatim>\<open>freq\<close> print through format strings and
  reflection. \<^verbatim>\<open>dhclient\<close>, \<^verbatim>\<open>ping\<close>, \<^verbatim>\<open>wifi\<close>, \<^verbatim>\<open>netcat\<close>, \<^verbatim>\<open>wget\<close>,
  \<^verbatim>\<open>console\<close>, \<^verbatim>\<open>io\<close>, \<^verbatim>\<open>msr\<close>, \<^verbatim>\<open>kexec\<close>, \<^verbatim>\<open>pflask\<close>, \<^verbatim>\<open>gpgv\<close> and
  \<^verbatim>\<open>validate\<close> pass data between libraries and devices. The remaining commands, from \<^verbatim>\<open>true\<close> to
  \<^verbatim>\<open>uname\<close>, are one call of the library. Of the modelled commands, debug output, messages on standard error and
  usage texts are left out; so are the progress report of \<^verbatim>\<open>dd\<close> and the terminal handling of \<^verbatim>\<open>rush\<close>.
\<close>

end
